(* ===== verification/Prelude.thy ===== *)
theory Prelude
  imports Complex_Main "HOL-Library.Word"
begin

text \<open>
  Shared vocabulary of the development. Go byte slices and strings are both lists of 8-bit
  \<open>char\<close>s (Go strings are byte sequences). This theory also holds the generic lemmas on lists and
  options that the component theories share, and the fact collections they extend.
\<close>

section \<open>Types\<close>

type_synonym byte = char
type_synonym bytes = "char list"

text \<open>\<open>time.Now\<close>: the n-th reading of a clock, in nanoseconds.\<close>

type_synonym clock = "nat \<Rightarrow> int"

text \<open>A Go \<open>int64\<close> is an \<^typ>\<open>int\<close> together with the range below; every definition that produces
  one from outside data checks the range, as the library function it models does.\<close>

definition min_int64 :: int where
  "min_int64 = - (2 ^ 63)"

definition max_int64 :: int where
  "max_int64 = 2 ^ 63 - 1"

definition int64_ok :: "int \<Rightarrow> bool" where
  "int64_ok i \<longleftrightarrow> min_int64 \<le> i \<and> i \<le> max_int64"

text \<open>Fact collections: string functions, JSON parsing, and the observer's step functions.\<close>

named_theorems go_string_simps \<open>rewrite rules for the Go string functions\<close>
named_theorems json_simps \<open>unfolding of the JSON scanner\<close>
named_theorems frame_simps \<open>fields an operation does not change\<close>

section \<open>Bytes\<close>

abbreviation LF :: byte where "LF \<equiv> CHR 0x0A"
abbreviation CR :: byte where "CR \<equiv> CHR 0x0D"
abbreviation TAB :: byte where "TAB \<equiv> CHR 0x09"
abbreviation DQUOTE :: byte where "DQUOTE \<equiv> CHR 0x22"
abbreviation BACKSLASH :: byte where "BACKSLASH \<equiv> CHR 0x5C"

definition code :: "byte \<Rightarrow> nat" where
  "code c = of_char c"

lemma code_less_256 [simp]: "code c < 256"
  by (simp add: code_def)

lemma code_inj: "code a = code b \<Longrightarrow> a = b"
  by (simp add: code_def)

lemma char_of_code [simp]: "char_of (code c) = c"
  by (simp add: code_def)

lemma code_char_of: "n < 256 \<Longrightarrow> code (char_of n) = n"
  by (simp add: code_def)

section \<open>Lists\<close>

lemma length_dropWhile_lt:
  "dropWhile P xs = y # ys \<Longrightarrow> length ys < length xs"
  using length_dropWhile_le [of P xs] by simp

lemma take_append_diff [simp]:
  "take (length (xs @ ys) - length ys) (xs @ ys) = xs"
  by simp

lemma hd_append_ne [simp]: "xs \<noteq> [] \<Longrightarrow> hd (xs @ ys) = hd xs"
  by (cases xs) auto

text \<open>Number of elements of a log that satisfy a predicate.\<close>

abbreviation count_by :: "('a \<Rightarrow> bool) \<Rightarrow> 'a list \<Rightarrow> nat" where
  "count_by P xs \<equiv> length (filter P xs)"

text \<open>Sample JSON texts are written with a back quote for each double quote.\<close>

definition jq :: "bytes \<Rightarrow> bytes" where
  "jq s = map (\<lambda>c. if c = CHR ''`'' then DQUOTE else c) s"

end
