(* ===== verification/Go_Strings.thy ===== *)
theory Go_Strings
  imports Prelude
begin

text \<open>
  The functions of Go's \<open>strings\<close>, \<open>bytes\<close>, \<open>unicode/utf8\<close>, \<open>strconv\<close> and \<open>encoding/hex\<close> that the
  sources call. The definitions keep Go's byte-level behaviour; where a function has a Unicode slow
  path that needs the Unicode case tables, that path is a parameter.
\<close>

section \<open>Prefixes, suffixes, substrings, splitting\<close>

definition has_prefix :: "bytes \<Rightarrow> bytes \<Rightarrow> bool" where
  "has_prefix p s \<longleftrightarrow> take (length p) s = p"

definition has_suffix :: "bytes \<Rightarrow> bytes \<Rightarrow> bool" where
  "has_suffix p s \<longleftrightarrow> has_prefix (rev p) (rev s)"

definition trim_prefix :: "bytes \<Rightarrow> bytes \<Rightarrow> bytes" where
  "trim_prefix p s = (if has_prefix p s then drop (length p) s else s)"

definition trim_suffix :: "bytes \<Rightarrow> bytes \<Rightarrow> bytes" where
  "trim_suffix p s = (if has_suffix p s then take (length s - length p) s else s)"

fun contains :: "bytes \<Rightarrow> bytes \<Rightarrow> bool" where
  "contains [] p \<longleftrightarrow> p = []"
| "contains (c # s) p \<longleftrightarrow> has_prefix p (c # s) \<or> contains s p"

text \<open>\<open>strings.Split\<close> with a one-byte separator.\<close>

fun split_on :: "byte \<Rightarrow> bytes \<Rightarrow> bytes list" where
  "split_on x [] = [[]]"
| "split_on x (c # s) =
     (if c = x then [] # split_on x s
      else case split_on x s of [] \<Rightarrow> [[c]] | w # ws \<Rightarrow> (c # w) # ws)"

text \<open>\<open>strings.SplitN(s, sep, 2)[0]\<close> and \<open>strings.Cut\<close>: up to, and after, the first separator.\<close>

definition before :: "byte \<Rightarrow> bytes \<Rightarrow> bytes" where
  "before x s = takeWhile (\<lambda>c. c \<noteq> x) s"

definition cut :: "byte \<Rightarrow> bytes \<Rightarrow> bytes \<times> bytes \<times> bool" where
  "cut x s = (case dropWhile (\<lambda>c. c \<noteq> x) s of
      [] \<Rightarrow> (s, [], False)
    | _ # r \<Rightarrow> (takeWhile (\<lambda>c. c \<noteq> x) s, r, True))"

lemma has_prefix_Nil [simp, go_string_simps]: "has_prefix [] s"
  by (simp add: has_prefix_def)

lemma has_prefix_Cons [simp, go_string_simps]:
  "has_prefix (p # ps) [] \<longleftrightarrow> False"
  "has_prefix (p # ps) (c # s) \<longleftrightarrow> p = c \<and> has_prefix ps s"
  by (auto simp: has_prefix_def)

lemma has_prefix_append: "has_prefix p s \<longleftrightarrow> (\<exists>r. s = p @ r)"
  unfolding has_prefix_def by (metis append_eq_conv_conj)

lemma has_prefix_length: "has_prefix p s \<Longrightarrow> length p \<le> length s"
  by (auto simp: has_prefix_append)

lemma has_prefix_mono: "has_prefix p s \<Longrightarrow> has_prefix p (s @ t)"
  by (auto simp: has_prefix_append)

lemma trim_suffix_length [simp]: "length (trim_suffix p s) \<le> length s"
  by (simp add: trim_suffix_def)

lemma trim_prefix_length [simp]: "length (trim_prefix p s) \<le> length s"
  by (simp add: trim_prefix_def)

lemma trim_prefix_append [simp, go_string_simps]: "trim_prefix p (p @ s) = s"
  by (simp add: trim_prefix_def has_prefix_append)

lemma split_on_nonempty [simp]: "split_on x s \<noteq> []"
  by (induction s) (auto split: list.splits)

lemma split_on_no_sep: "w \<in> set (split_on x s) \<Longrightarrow> x \<notin> set w"
  by (induction s arbitrary: w) (fastforce split: if_splits list.splits)+

lemma split_on_absent: "x \<notin> set s \<Longrightarrow> split_on x s = [s]"
  by (induction s) auto

section \<open>White space\<close>

text \<open>\<open>TrimSpace\<close> removes the runes of \<open>unicode.IsSpace\<close>: these are their UTF-8 encodings.\<close>

definition unicode_spaces :: "bytes list" where
  "unicode_spaces =
    [[CHR 0x09], [CHR 0x0A], [CHR 0x0B], [CHR 0x0C], [CHR 0x0D], [CHR 0x20],
     [CHR 0xC2, CHR 0x85], [CHR 0xC2, CHR 0xA0],
     [CHR 0xE1, CHR 0x9A, CHR 0x80],
     [CHR 0xE2, CHR 0x80, CHR 0x80], [CHR 0xE2, CHR 0x80, CHR 0x81], [CHR 0xE2, CHR 0x80, CHR 0x82],
     [CHR 0xE2, CHR 0x80, CHR 0x83], [CHR 0xE2, CHR 0x80, CHR 0x84], [CHR 0xE2, CHR 0x80, CHR 0x85],
     [CHR 0xE2, CHR 0x80, CHR 0x86], [CHR 0xE2, CHR 0x80, CHR 0x87], [CHR 0xE2, CHR 0x80, CHR 0x88],
     [CHR 0xE2, CHR 0x80, CHR 0x89], [CHR 0xE2, CHR 0x80, CHR 0x8A],
     [CHR 0xE2, CHR 0x80, CHR 0xA8], [CHR 0xE2, CHR 0x80, CHR 0xA9], [CHR 0xE2, CHR 0x80, CHR 0xAF],
     [CHR 0xE2, CHR 0x81, CHR 0x9F], [CHR 0xE3, CHR 0x80, CHR 0x80]]"

text \<open>Strip the words of a list from the front, as long as one of them is a prefix.\<close>

function strip_by :: "bytes list \<Rightarrow> bytes \<Rightarrow> bytes" where
  "strip_by ws s =
     (case find (\<lambda>w. w \<noteq> [] \<and> has_prefix w s) ws of
        None \<Rightarrow> s
      | Some w \<Rightarrow> strip_by ws (drop (length w) s))"
  by pat_completeness auto
termination
proof (relation "measure (\<lambda>(ws, s). length s)")
  fix ws :: "bytes list" and s w
  assume "find (\<lambda>w. w \<noteq> [] \<and> has_prefix w s) ws = Some w"
  then have "w \<noteq> []" and "length w \<le> length s"
    by (auto simp: find_Some_iff dest: has_prefix_length)
  then have "length (drop (length w) s) < length s"
    by (cases w; cases s) auto
  then show "((ws, drop (length w) s), ws, s) \<in> measure (\<lambda>(ws, s). length s)" by simp
qed simp

declare strip_by.simps [simp del]

definition trim_space :: "bytes \<Rightarrow> bytes" where
  "trim_space s = rev (strip_by (map rev unicode_spaces) (rev (strip_by unicode_spaces s)))"

definition no_word_prefix :: "bytes list \<Rightarrow> bytes \<Rightarrow> bool" where
  "no_word_prefix ws s \<longleftrightarrow> (\<forall>w \<in> set ws. w \<noteq> [] \<longrightarrow> \<not> has_prefix w s)"

lemma strip_by_id: "no_word_prefix ws s \<Longrightarrow> strip_by ws s = s"
  by (subst strip_by.simps) (auto simp: no_word_prefix_def find_Some_iff split: option.splits)

lemma strip_by_no_prefix: "no_word_prefix ws (strip_by ws s)"
proof (induction ws s rule: strip_by.induct)
  case (1 ws s)
  show ?case
  proof (cases "find (\<lambda>w. w \<noteq> [] \<and> has_prefix w s) ws")
    case None
    then have "no_word_prefix ws s" by (auto simp: find_None_iff no_word_prefix_def)
    then show ?thesis by (simp add: strip_by_id)
  next
    case (Some w)
    with 1 show ?thesis by (subst strip_by.simps) simp
  qed
qed

lemma strip_by_suffix: "\<exists>p. s = p @ strip_by ws s"
proof (induction ws s rule: strip_by.induct)
  case (1 ws s)
  show ?case
  proof (cases "find (\<lambda>w. w \<noteq> [] \<and> has_prefix w s) ws")
    case None
    then show ?thesis by (subst strip_by.simps) simp
  next
    case (Some w)
    then have "s = w @ drop (length w) s"
      by (auto simp: find_Some_iff has_prefix_append)
    with 1 [OF Some] Some show ?thesis
      by (subst strip_by.simps) (metis append_assoc option.simps(5))
  qed
qed

lemma strip_by_length [simp]: "length (strip_by ws s) \<le> length s"
  using strip_by_suffix [of s ws] by (metis le_add2 length_append)

lemma strip_by_Nil [simp]: "strip_by ws [] = []"
  using strip_by_suffix [of "[]" ws] by simp

lemma no_word_prefix_take: "no_word_prefix ws (p @ s) \<Longrightarrow> no_word_prefix ws p"
  by (auto simp: no_word_prefix_def dest: has_prefix_mono)

text \<open>The result is a contiguous part of the input that neither starts nor ends with space, and
  trimming again changes nothing.\<close>

lemma trim_space_part: "\<exists>p q. s = p @ trim_space s @ q"
proof -
  let ?l = "strip_by unicode_spaces s"
  obtain p where p: "s = p @ ?l" using strip_by_suffix by blast
  obtain q where "rev ?l = q @ strip_by (map rev unicode_spaces) (rev ?l)"
    using strip_by_suffix by blast
  then have "?l = trim_space s @ rev q"
    unfolding trim_space_def by (metis rev_append rev_rev_ident)
  with p show ?thesis by metis
qed

lemma trim_space_length [simp]: "length (trim_space s) \<le> length s"
  by (simp add: trim_space_def le_trans [OF strip_by_length])

lemma trim_space_Nil [simp]: "trim_space [] = []"
  by (simp add: trim_space_def)

lemma trim_space_ends:
  "no_word_prefix unicode_spaces (trim_space s)"
  "no_word_prefix (map rev unicode_spaces) (rev (trim_space s))"
proof -
  let ?l = "strip_by unicode_spaces s"
  obtain q where "rev ?l = q @ strip_by (map rev unicode_spaces) (rev ?l)"
    using strip_by_suffix by blast
  then have "?l = trim_space s @ rev q"
    unfolding trim_space_def by (metis rev_append rev_rev_ident)
  then show "no_word_prefix unicode_spaces (trim_space s)"
    using strip_by_no_prefix [of unicode_spaces s] no_word_prefix_take by metis
  show "no_word_prefix (map rev unicode_spaces) (rev (trim_space s))"
    by (simp add: trim_space_def strip_by_no_prefix)
qed

lemma trim_space_id:
  "\<lbrakk>no_word_prefix unicode_spaces s; no_word_prefix (map rev unicode_spaces) (rev s)\<rbrakk>
    \<Longrightarrow> trim_space s = s"
  by (simp add: trim_space_def strip_by_id)

lemma trim_space_idem [simp]: "trim_space (trim_space s) = trim_space s"
  by (rule trim_space_id) (rule trim_space_ends)+

end
