(* ===== verification/Go_Encoding.thy ===== *)
theory Go_Encoding
  imports Go_Strings
begin

text \<open>
  The encodings the sources use: \<open>encoding/hex\<close>, decimal integers (\<open>strconv.ParseInt\<close>,
  \<open>strconv.Atoi\<close>, \<open>%d\<close>), ASCII case mapping and UTF-8 sequences. The locale \<open>codec\<close> states what a
  client may rely on of an encoder and its decoder; \<open>hex\<close> interprets it.
\<close>

section \<open>Codecs\<close>

locale codec =
  fixes enc :: "'a \<Rightarrow> bytes"
    and dec :: "bytes \<Rightarrow> 'a option"
  assumes dec_enc: "dec (enc x) = Some x"
begin

lemma enc_inject: "enc x = enc y \<longleftrightarrow> x = y"
  by (metis dec_enc option.inject)

lemma dec_enc_eq: "dec s = Some x \<Longrightarrow> enc y = s \<Longrightarrow> y = x"
  by (metis dec_enc option.inject)

end

section \<open>Hexadecimal\<close>

definition hex_digit :: "nat \<Rightarrow> byte" where
  "hex_digit n = ''0123456789abcdef'' ! n"

definition hex_val :: "byte \<Rightarrow> nat option" where
  "hex_val c =
     (let n = code c in
      if 48 \<le> n \<and> n \<le> 57 then Some (n - 48)
      else if 97 \<le> n \<and> n \<le> 102 then Some (n - 87)
      else if 65 \<le> n \<and> n \<le> 70 then Some (n - 55)
      else None)"

text \<open>\<open>hex.EncodeToString\<close> and \<open>hex.DecodeString\<close> (which refuses odd lengths and other characters).\<close>

fun hex_encode :: "bytes \<Rightarrow> bytes" where
  "hex_encode [] = []"
| "hex_encode (b # bs) = hex_digit (code b div 16) # hex_digit (code b mod 16) # hex_encode bs"

fun hex_decode :: "bytes \<Rightarrow> bytes option" where
  "hex_decode [] = Some []"
| "hex_decode [_] = None"
| "hex_decode (a # b # s) =
     (case (hex_val a, hex_val b) of
        (Some x, Some y) \<Rightarrow> map_option ((#) (char_of (16 * x + y))) (hex_decode s)
      | _ \<Rightarrow> None)"

lemma less16_cases:
  "n < (16::nat) \<Longrightarrow> n \<in> {0,1,2,3,4,5,6,7,8,9,10,11,12,13,14,15}"
  by (auto simp: numeral_eq_Suc less_Suc_eq)

lemma hex_val_digit [simp]: "n < 16 \<Longrightarrow> hex_val (hex_digit n) = Some n"
  by (drule less16_cases) (auto simp: hex_val_def hex_digit_def code_def)

lemma hex_val_less: "hex_val c = Some x \<Longrightarrow> x < 16"
  by (auto simp: hex_val_def Let_def split: if_splits)

lemma hex_roundtrip [simp]: "hex_decode (hex_encode bs) = Some bs"
proof (induction bs)
  case (Cons b bs)
  have "code b div 16 < 16" by (rule less_mult_imp_div_less) simp
  with Cons show ?case by simp
qed simp

interpretation hex: codec hex_encode hex_decode
  by unfold_locales (rule hex_roundtrip)

lemma length_hex_encode [simp]: "length (hex_encode bs) = 2 * length bs"
  by (induction bs) auto

lemma hex_decode_length: "hex_decode s = Some bs \<Longrightarrow> length s = 2 * length bs"
  by (induction s arbitrary: bs rule: hex_decode.induct) (auto split: option.splits)

lemma hex_encode_digits: "c \<in> set (hex_encode bs) \<Longrightarrow> \<exists>n < 16. c = hex_digit n"
proof (induction bs)
  case (Cons b bs)
  have "code b div 16 < 16" by (rule less_mult_imp_div_less) simp
  moreover have "code b mod 16 < 16" by simp
  moreover have "c = hex_digit (code b div 16) \<or> c = hex_digit (code b mod 16) \<or> c \<in> set (hex_encode bs)"
    using Cons.prems by simp
  ultimately show ?case using Cons.IH by blast
qed simp

section \<open>Decimal integers\<close>

definition is_digit :: "byte \<Rightarrow> bool" where
  "is_digit c \<longleftrightarrow> 48 \<le> code c \<and> code c \<le> 57"

definition digits_val :: "bytes \<Rightarrow> nat" where
  "digits_val s = foldl (\<lambda>a c. 10 * a + (code c - 48)) 0 s"

text \<open>\<open>strconv.ParseInt(s, 10, 64)\<close> (and \<open>strconv.Atoi\<close> on 64-bit platforms): an optional sign, at
  least one digit, nothing else, and the value in range.\<close>

definition parse_int64 :: "bytes \<Rightarrow> int option" where
  "parse_int64 s =
     (let (neg, ds) = (case s of
            [] \<Rightarrow> (False, [])
          | c # r \<Rightarrow> if c = CHR ''-'' then (True, r) else if c = CHR ''+'' then (False, r) else (False, s));
          v = (if neg then - int (digits_val ds) else int (digits_val ds))
      in if ds \<noteq> [] \<and> list_all is_digit ds \<and> int64_ok v then Some v else None)"

function show_nat :: "nat \<Rightarrow> bytes" where
  "show_nat n = (if n < 10 then [char_of (48 + n)] else show_nat (n div 10) @ [char_of (48 + n mod 10)])"
  by pat_completeness auto
termination by (relation "measure id") auto

declare show_nat.simps [simp del]

definition show_int :: "int \<Rightarrow> bytes" where
  "show_int i = (if i < 0 then CHR ''-'' # show_nat (nat (- i)) else show_nat (nat i))"

lemma parse_int64_range: "parse_int64 s = Some i \<Longrightarrow> int64_ok i"
  by (auto simp: parse_int64_def Let_def split: if_splits prod.splits)

lemma digits_val_snoc [simp]: "digits_val (s @ [c]) = 10 * digits_val s + (code c - 48)"
  by (simp add: digits_val_def)

lemma is_digit_char: "(n::nat) < 10 \<Longrightarrow> is_digit (char_of (48 + n))"
  by (simp add: is_digit_def code_char_of)

lemma show_nat_digits: "list_all is_digit (show_nat n)"
proof (induction n rule: show_nat.induct)
  case (1 n)
  then show ?case
    by (subst show_nat.simps) (simp add: is_digit_char)
qed

lemma show_nat_nonempty [simp]: "show_nat n \<noteq> []"
  by (subst show_nat.simps) simp

lemma digits_val_show_nat [simp]: "digits_val (show_nat n) = n"
proof (induction n rule: show_nat.induct)
  case (1 n)
  show ?case
  proof (cases "n < 10")
    case True
    then show ?thesis
      by (subst show_nat.simps) (simp add: digits_val_def code_char_of)
  next
    case False
    with 1 show ?thesis
      by (subst show_nat.simps) (simp add: code_char_of)
  qed
qed

lemma show_nat_hd: "show_nat n = c # r \<Longrightarrow> is_digit c"
  using show_nat_digits [of n] by simp

lemma show_nat_lead: "0 < n \<Longrightarrow> \<exists>c r. show_nat n = c # r \<and> is_digit c \<and> c \<noteq> CHR ''0''"
proof (induction n rule: show_nat.induct)
  case (1 n)
  show ?case
  proof (cases "n < 10")
    case True
    have "code (char_of (48 + n)) \<noteq> code (CHR ''0'')" using 1 True by (simp add: code_char_of code_def [of "CHR ''0''"])
    with True show ?thesis by (subst show_nat.simps) (auto simp: is_digit_char)
  next
    case False
    then have "0 < n div 10" by simp
    with 1 False obtain c r where "show_nat (n div 10) = c # r" "is_digit c" "c \<noteq> CHR ''0''" by blast
    with False show ?thesis by (subst show_nat.simps) simp
  qed
qed

lemma parse_show_int: "int64_ok i \<Longrightarrow> parse_int64 (show_int i) = Some i"
proof (cases "i < 0")
  case True
  then show "int64_ok i \<Longrightarrow> ?thesis"
    by (simp add: parse_int64_def show_int_def show_nat_digits)
next
  case False
  obtain c r where cr: "show_nat (nat i) = c # r"
    by (cases "show_nat (nat i)") auto
  then have "c \<noteq> CHR ''-''" "c \<noteq> CHR ''+''"
    using show_nat_hd [OF cr] by (auto simp: is_digit_def code_def)
  with False cr show "int64_ok i \<Longrightarrow> ?thesis"
    using show_nat_digits [of "nat i"] digits_val_show_nat [of "nat i"]
    by (simp add: parse_int64_def show_int_def)
qed

section \<open>ASCII case mapping\<close>

definition is_ascii :: "bytes \<Rightarrow> bool" where
  "is_ascii s \<longleftrightarrow> list_all (\<lambda>c. code c < 128) s"

definition lower_byte :: "byte \<Rightarrow> byte" where
  "lower_byte c = (if 65 \<le> code c \<and> code c \<le> 90 then char_of (code c + 32) else c)"

definition upper_byte :: "byte \<Rightarrow> byte" where
  "upper_byte c = (if 97 \<le> code c \<and> code c \<le> 122 then char_of (code c - 32) else c)"

text \<open>\<open>strings.ToLower\<close> and \<open>strings.ToUpper\<close>: the ASCII path, and the Unicode path as a parameter.\<close>

definition to_lower :: "(bytes \<Rightarrow> bytes) \<Rightarrow> bytes \<Rightarrow> bytes" where
  "to_lower uni s = (if is_ascii s then map lower_byte s else uni s)"

definition to_upper :: "(bytes \<Rightarrow> bytes) \<Rightarrow> bytes \<Rightarrow> bytes" where
  "to_upper uni s = (if is_ascii s then map upper_byte s else uni s)"

lemma code_lower_byte: "code (lower_byte c) = (if 65 \<le> code c \<and> code c \<le> 90 then code c + 32 else code c)"
  by (simp add: lower_byte_def code_char_of)

lemma code_upper_byte: "code (upper_byte c) = (if 97 \<le> code c \<and> code c \<le> 122 then code c - 32 else code c)"
proof -
  have "code c - 32 < 256" using code_less_256 [of c] by linarith
  then show ?thesis by (simp add: upper_byte_def code_char_of)
qed

lemma lower_byte_idem [simp]: "lower_byte (lower_byte c) = lower_byte c"
  by (rule code_inj) (simp add: code_lower_byte)

lemma upper_byte_idem [simp]: "upper_byte (upper_byte c) = upper_byte c"
  by (rule code_inj) (auto simp: code_upper_byte)

lemma lower_byte_ascii: "code c < 128 \<Longrightarrow> code (lower_byte c) < 128"
  by (simp add: code_lower_byte)

lemma upper_byte_ascii: "code c < 128 \<Longrightarrow> code (upper_byte c) < 128"
  by (auto simp: code_upper_byte)

lemma is_ascii_upper: "is_ascii s \<Longrightarrow> is_ascii (map upper_byte s)"
  by (auto simp: is_ascii_def list_all_iff upper_byte_ascii)

section \<open>UTF-8\<close>

definition is_cont :: "byte \<Rightarrow> bool" where
  "is_cont c \<longleftrightarrow> 128 \<le> code c \<and> code c \<le> 191"

text \<open>Length of the valid multi-byte sequence at the head of the input, 0 if there is none
  (the acceptance ranges of \<open>utf8.DecodeRune\<close>).\<close>

definition utf8_len :: "bytes \<Rightarrow> nat" where
  "utf8_len s =
     (case s of
        a # b # r \<Rightarrow>
          (let n = code a; m = code b in
           if 194 \<le> n \<and> n \<le> 223 then (if is_cont b then 2 else 0)
           else if 224 \<le> n \<and> n \<le> 239 then
             (case r of
                c # _ \<Rightarrow>
                  if (if n = 224 then 160 else 128) \<le> m \<and> m \<le> (if n = 237 then 159 else 191) \<and> is_cont c
                  then 3 else 0
              | [] \<Rightarrow> 0)
           else if 240 \<le> n \<and> n \<le> 244 then
             (case r of
                c # d # _ \<Rightarrow>
                  if (if n = 240 then 144 else 128) \<le> m \<and> m \<le> (if n = 244 then 143 else 191)
                     \<and> is_cont c \<and> is_cont d
                  then 4 else 0
              | _ \<Rightarrow> 0)
           else 0)
      | _ \<Rightarrow> 0)"

text \<open>\<open>utf8.EncodeRune\<close>, for code points up to \<open>0x10FFFF\<close> that are not surrogates.\<close>

definition utf8_encode :: "nat \<Rightarrow> bytes" where
  "utf8_encode r =
     (if r < 128 then [char_of r]
      else if r < 2048 then [char_of (192 + r div 64), char_of (128 + r mod 64)]
      else if r < 65536 then
        [char_of (224 + r div 4096), char_of (128 + r div 64 mod 64), char_of (128 + r mod 64)]
      else [char_of (240 + r div 262144), char_of (128 + r div 4096 mod 64),
            char_of (128 + r div 64 mod 64), char_of (128 + r mod 64)])"

definition replacement_char :: bytes where
  "replacement_char = [CHR 0xEF, CHR 0xBF, CHR 0xBD]"

lemma utf8_len_short [simp]: "utf8_len [] = 0" "utf8_len [a] = 0"
  by (simp_all add: utf8_len_def)

lemma utf8_len_le: "utf8_len s \<le> length s"
proof -
  consider "s = []" | a where "s = [a]" | a b where "s = [a, b]" | a b c where "s = [a, b, c]"
    | a b c d r where "s = a # b # c # d # r"
    by (metis list.exhaust)
  then show ?thesis by cases (simp_all add: utf8_len_def Let_def)
qed

lemma utf8_len_append: "0 < utf8_len s \<Longrightarrow> utf8_len (s @ t) = utf8_len s"
proof -
  assume pos: "0 < utf8_len s"
  consider "s = []" | a where "s = [a]" | a b where "s = [a, b]" | a b c where "s = [a, b, c]"
    | a b c d r where "s = a # b # c # d # r"
    by (metis list.exhaust)
  then show ?thesis
    using pos by cases (simp_all add: utf8_len_def Let_def split: if_split_asm)
qed

end
