(* ===== verification/Json.thy ===== *)
theory Json
  imports Go_Encoding
begin

text \<open>
  Go's \<open>encoding/json\<close> decoder, as far as the sources use it: the scanner with its nesting limit,
  string unquoting, and a parse tree in which every array element and object member keeps the raw
  text \<open>json.RawMessage\<close> and \<open>UnmarshalJSON\<close> receive.
\<close>

section \<open>Parse trees\<close>

datatype json =
    JNull
  | JBool bool
  | JNum bytes
  | JStr bytes
  | JArr "(bytes \<times> json) list"
  | JObj "(bytes \<times> bytes \<times> json) list"

definition max_nesting_depth :: nat where
  "max_nesting_depth = 10000"

section \<open>White space, numbers, strings\<close>

definition json_ws :: "byte \<Rightarrow> bool" where
  "json_ws c \<longleftrightarrow> c = CHR '' '' \<or> c = TAB \<or> c = LF \<or> c = CR"

definition skip_ws :: "bytes \<Rightarrow> bytes" where
  "skip_ws s = dropWhile json_ws s"

text \<open>The number grammar: each part returns the text it consumed and the rest.\<close>

definition num_digits :: "bytes \<Rightarrow> bytes \<times> bytes" where
  "num_digits s = (takeWhile is_digit s, dropWhile is_digit s)"

definition num_int :: "bytes \<Rightarrow> (bytes \<times> bytes) option" where
  "num_int s =
     (case s of
        [] \<Rightarrow> None
      | c # r \<Rightarrow>
          if c = CHR ''0'' then Some ([c], r)
          else if is_digit c then Some (num_digits s)
          else None)"

definition num_frac :: "bytes \<Rightarrow> (bytes \<times> bytes) option" where
  "num_frac s =
     (case s of
        c # r \<Rightarrow>
          if c = CHR ''.'' then
            (let (ds, r') = num_digits r in if ds = [] then None else Some (c # ds, r'))
          else Some ([], s)
      | [] \<Rightarrow> Some ([], s))"

definition num_exp :: "bytes \<Rightarrow> (bytes \<times> bytes) option" where
  "num_exp s =
     (case s of
        c # r \<Rightarrow>
          if c = CHR ''e'' \<or> c = CHR ''E'' then
            (let (sg, r') = (case r of
                   d # q \<Rightarrow> if d = CHR ''+'' \<or> d = CHR ''-'' then ([d], q) else ([], r)
                 | [] \<Rightarrow> ([], r));
                 (ds, r'') = num_digits r'
             in if ds = [] then None else Some (c # sg @ ds, r''))
          else Some ([], s)
      | [] \<Rightarrow> Some ([], s))"

definition json_number :: "bytes \<Rightarrow> (bytes \<times> bytes) option" where
  "json_number s =
     (let (sg, r0) = (case s of
            c # r \<Rightarrow> if c = CHR ''-'' then ([c], r) else ([], s)
          | [] \<Rightarrow> ([], s))
      in Option.bind (num_int r0) (\<lambda>(i, r1).
         Option.bind (num_frac r1) (\<lambda>(f, r2).
         Option.bind (num_exp r2) (\<lambda>(e, r3). Some (sg @ i @ f @ e, r3)))))"

text \<open>\<open>getu4\<close>: four hexadecimal digits.\<close>

definition hex4 :: "bytes \<Rightarrow> (nat \<times> bytes) option" where
  "hex4 s =
     (case s of
        a # b # c # d # r \<Rightarrow>
          (case (hex_val a, hex_val b, hex_val c, hex_val d) of
             (Some w, Some x, Some y, Some z) \<Rightarrow> Some (4096 * w + 256 * x + 16 * y + z, r)
           | _ \<Rightarrow> None)
      | _ \<Rightarrow> None)"

definition low_surrogate :: "bytes \<Rightarrow> (nat \<times> bytes) option" where
  "low_surrogate s =
     (case s of
        a # b # r \<Rightarrow>
          if a = BACKSLASH \<and> b = CHR ''u'' then
            (case hex4 r of
               Some (v, r') \<Rightarrow> if 56320 \<le> v \<and> v \<le> 57343 then Some (v, r') else None
             | None \<Rightarrow> None)
          else None
      | _ \<Rightarrow> None)"

text \<open>A \<open>\\u\<close> escape after its \<open>u\<close>: a surrogate pair is combined, a lone surrogate becomes the
  replacement character.\<close>

definition unquote_u :: "bytes \<Rightarrow> (bytes \<times> bytes) option" where
  "unquote_u s =
     (case hex4 s of
        None \<Rightarrow> None
      | Some (v, r) \<Rightarrow>
          if 55296 \<le> v \<and> v \<le> 57343 then
            (if v \<le> 56319 then
               (case low_surrogate r of
                  Some (w, r') \<Rightarrow>
                    Some (utf8_encode (65536 + (v - 55296) * 1024 + (w - 56320)), r')
                | None \<Rightarrow> Some (replacement_char, r))
             else Some (replacement_char, r))
          else Some (utf8_encode v, r))"

definition simple_escape :: "byte \<Rightarrow> byte option" where
  "simple_escape c =
     (if c = DQUOTE \<or> c = BACKSLASH \<or> c = CHR ''/'' then Some c
      else if c = CHR ''b'' then Some (CHR 0x08)
      else if c = CHR ''f'' then Some (CHR 0x0C)
      else if c = CHR ''n'' then Some LF
      else if c = CHR ''r'' then Some CR
      else if c = CHR ''t'' then Some TAB
      else None)"

text \<open>One unit of a string literal: the bytes it denotes and the rest of the input.\<close>

definition string_unit :: "byte \<Rightarrow> bytes \<Rightarrow> (bytes \<times> bytes) option" where
  "string_unit c s =
     (if c = BACKSLASH then
        (case s of
           [] \<Rightarrow> None
         | e # r \<Rightarrow>
             if e = CHR ''u'' then unquote_u r
             else (case simple_escape e of Some b \<Rightarrow> Some ([b], r) | None \<Rightarrow> None))
      else if code c < 32 then None
      else if code c < 128 then Some ([c], s)
      else (let n = utf8_len (c # s) in
            if n = 0 then Some (replacement_char, s)
            else Some (take n (c # s), drop n (c # s))))"

lemma hex4_length: "hex4 s = Some (v, r) \<Longrightarrow> length r < length s"
  by (auto simp: hex4_def split: list.splits option.splits)

lemma low_surrogate_length: "low_surrogate s = Some (v, r) \<Longrightarrow> length r < length s"
  by (auto simp: low_surrogate_def split: list.splits option.splits if_splits dest!: hex4_length)

lemma unquote_u_length: "unquote_u s = Some (b, r) \<Longrightarrow> length r < length s"
  by (auto simp: unquote_u_def split: option.splits if_splits
      dest!: hex4_length low_surrogate_length)

lemma string_unit_length: "string_unit c s = Some (b, r) \<Longrightarrow> length r \<le> length s"
  by (auto simp: string_unit_def Let_def split: list.splits option.splits if_splits
      dest!: unquote_u_length)

text \<open>A string literal after its opening quote.\<close>

function json_string :: "bytes \<Rightarrow> (bytes \<times> bytes) option" where
  "json_string [] = None"
| "json_string (c # s) =
     (if c = DQUOTE then Some ([], s)
      else case string_unit c s of
        None \<Rightarrow> None
      | Some (b, r) \<Rightarrow> map_option (\<lambda>(t, q). (b @ t, q)) (json_string r))"
  by pat_completeness auto
termination
  by (relation "measure length") (auto dest!: string_unit_length)

lemma json_string_length: "json_string s = Some (t, r) \<Longrightarrow> length r < length s"
proof (induction s arbitrary: t r rule: json_string.induct)
  case (2 c s)
  show ?case
  proof (cases "c = DQUOTE")
    case True
    with 2 show ?thesis by simp
  next
    case False
    with "2.prems" obtain b q t' where u: "string_unit c s = Some (b, q)"
      and q: "json_string q = Some (t', r)"
      by (auto split: option.splits)
    from "2.IH" [OF False u refl q] string_unit_length [OF u] show ?thesis by simp
  qed
qed simp

section \<open>Values\<close>

definition json_literal :: "bytes \<Rightarrow> (json \<times> bytes) option" where
  "json_literal s =
     (if has_prefix ''null'' s then Some (JNull, drop 4 s)
      else if has_prefix ''true'' s then Some (JBool True, drop 4 s)
      else if has_prefix ''false'' s then Some (JBool False, drop 5 s)
      else map_option (\<lambda>(n, r). (JNum n, r)) (json_number s))"

text \<open>The text of a value: what was consumed between two positions of the input.\<close>

definition raw_text :: "bytes \<Rightarrow> bytes \<Rightarrow> bytes" where
  "raw_text s r = take (length s - length r) s"

lemma skip_ws_length [simp]: "length (skip_ws s) \<le> length s"
  by (simp add: skip_ws_def length_dropWhile_le)

lemma skip_ws_less: "length s < n \<Longrightarrow> length (skip_ws s) < n"
  using skip_ws_length [of s] by linarith

text \<open>
  The recursive-descent parser. The first argument is the nesting still allowed. The comparisons of
  lengths only carry the termination proof: lemmas \<open>json_elems_eq\<close> and \<open>json_members_eq\<close> show
  that they always hold.
\<close>

function (sequential)
  json_value :: "nat \<Rightarrow> bytes \<Rightarrow> (json \<times> bytes) option"
and json_elems :: "nat \<Rightarrow> bytes \<Rightarrow> ((bytes \<times> json) list \<times> bytes) option"
and json_members :: "nat \<Rightarrow> bytes \<Rightarrow> ((bytes \<times> bytes \<times> json) list \<times> bytes) option"
where
  "json_value d [] = None"
| "json_value d (c # s) =
     (if c = DQUOTE then map_option (\<lambda>(t, r). (JStr t, r)) (json_string s)
      else if c = CHR ''['' then
        (if d = 0 then None
         else let s' = skip_ws s in
           if s' \<noteq> [] \<and> hd s' = CHR '']'' then Some (JArr [], tl s')
           else map_option (\<lambda>(xs, r). (JArr xs, r)) (json_elems (d - 1) s'))
      else if c = CHR ''{'' then
        (if d = 0 then None
         else let s' = skip_ws s in
           if s' \<noteq> [] \<and> hd s' = CHR ''}'' then Some (JObj [], tl s')
           else map_option (\<lambda>(xs, r). (JObj xs, r)) (json_members (d - 1) s'))
      else json_literal (c # s))"
| "json_elems d s =
     (case json_value d s of
        None \<Rightarrow> None
      | Some (v, r) \<Rightarrow>
          (let x = (raw_text s r, v) in
           case skip_ws r of
             [] \<Rightarrow> None
           | c # r' \<Rightarrow>
               if c = CHR '']'' then Some ([x], r')
               else if c = CHR '','' \<and> length r' < length s then
                 map_option (\<lambda>(xs, q). (x # xs, q)) (json_elems d (skip_ws r'))
               else None))"
| "json_members d s =
     (case s of
        [] \<Rightarrow> None
      | c # s0 \<Rightarrow>
          if c \<noteq> DQUOTE then None
          else (case json_string s0 of
             None \<Rightarrow> None
           | Some (k, s1) \<Rightarrow>
               (case skip_ws s1 of
                  [] \<Rightarrow> None
                | c2 # s2 \<Rightarrow>
                    if c2 \<noteq> CHR '':'' then None
                    else (let s3 = skip_ws s2 in
                      if length s3 < length s then
                        (case json_value d s3 of
                           None \<Rightarrow> None
                         | Some (v, r) \<Rightarrow>
                             (let x = (k, raw_text s3 r, v) in
                              case skip_ws r of
                                [] \<Rightarrow> None
                              | c4 # r' \<Rightarrow>
                                  if c4 = CHR ''}'' then Some ([x], r')
                                  else if c4 = CHR '','' \<and> length r' < length s then
                                    map_option (\<lambda>(xs, q). (x # xs, q)) (json_members d (skip_ws r'))
                                  else None))
                      else None))))"
  by pat_completeness auto

termination
  by (relation "measures [\<lambda>x. case x of Inl (d, s) \<Rightarrow> length s | Inr (Inl (d, s)) \<Rightarrow> length s | Inr (Inr (d, s)) \<Rightarrow> length s,
                          \<lambda>x. case x of Inl _ \<Rightarrow> 0 | Inr _ \<Rightarrow> 1]")
     (auto simp: less_Suc_eq_le skip_ws_less intro: le_trans [OF skip_ws_length])

declare json_value.simps [simp del] json_elems.simps [simp del] json_members.simps [simp del]

text \<open>Every parser consumes input, so the comparisons of lengths above always hold.\<close>

lemma num_digits_length: "num_digits s = (ds, r) \<Longrightarrow> length ds + length r = length s"
  unfolding num_digits_def by (metis Pair_inject length_append takeWhile_dropWhile_id)

lemma num_int_length: "num_int s = Some (i, r) \<Longrightarrow> length r < length s"
  by (auto simp: num_int_def num_digits_def less_Suc_eq_le length_dropWhile_le split: list.splits if_splits)

lemma num_frac_length: "num_frac s = Some (f, r) \<Longrightarrow> length r \<le> length s"
  by (auto simp: num_frac_def split: list.splits if_splits prod.splits dest!: num_digits_length)

lemma num_exp_length: "num_exp s = Some (e, r) \<Longrightarrow> length r \<le> length s"
  by (auto simp: num_exp_def split: list.splits if_splits prod.splits dest!: num_digits_length)

lemma json_number_length: "json_number s = Some (n, r) \<Longrightarrow> length r < length s"
  by (auto simp: json_number_def Option.bind_eq_Some_conv split: list.splits if_splits
      dest!: num_int_length num_frac_length num_exp_length)

lemma json_literal_length: "\<lbrakk>json_literal s = Some (v, r); s \<noteq> []\<rbrakk> \<Longrightarrow> length r < length s"
  by (auto simp: json_literal_def split: if_splits dest!: json_number_length)

lemma json_value_parts:
  "json_value d s = Some (v, r) \<Longrightarrow>
     s \<noteq> [] \<and> (length r < length s \<or>
       (\<exists>d' xs s'. length s' < length s \<and> json_elems d' s' = Some (xs, r)) \<or>
       (\<exists>d' ms s'. length s' < length s \<and> json_members d' s' = Some (ms, r)))"
proof (cases s)
  case (Cons c t)
  assume v: "json_value d s = Some (v, r)"
  have ws: "length (skip_ws t) < length s" using Cons by (simp add: less_Suc_eq_le)
  show ?thesis
    using v ws json_literal_length [of s v r] unfolding Cons
    by (auto simp: json_value.simps Let_def split: if_splits dest!: json_string_length)
qed (simp add: json_value.simps)

lemma json_elems_parts:
  assumes "json_elems d s = Some (xs, q)"
  obtains v r c r' where "json_value d s = Some (v, r)" "skip_ws r = c # r'"
    "q = r' \<or> (length r' < length s \<and> (\<exists>xs'. json_elems d (skip_ws r') = Some (xs', q)))"
  using assms
  by (subst (asm) json_elems.simps) (auto simp: Let_def split: option.splits prod.splits list.splits if_splits)

lemma json_members_parts:
  assumes "json_members d s = Some (ms, q)"
  obtains s3 v r c r' where "json_value d s3 = Some (v, r)" "skip_ws r = c # r'" "length s3 < length s"
    "q = r' \<or> (length r' < length s \<and> (\<exists>ms'. json_members d (skip_ws r') = Some (ms', q)))"
  using assms
  by (subst (asm) json_members.simps) (auto simp: Let_def split: option.splits prod.splits list.splits if_splits)

lemma skip_ws_Cons: "skip_ws r = c # r' \<Longrightarrow> length r' < length r"
  using skip_ws_length [of r] by simp

lemma json_lengths:
  "(\<forall>d v r. json_value d s = Some (v, r) \<longrightarrow> length r < length s) \<and>
   (\<forall>d xs r. json_elems d s = Some (xs, r) \<longrightarrow> length r < length s) \<and>
   (\<forall>d ms r. json_members d s = Some (ms, r) \<longrightarrow> length r < length s)"
proof (induction s rule: length_induct)
  case (1 s)
  have val: "length r < length s" if "json_value d s = Some (v, r)" for d v r
    using json_value_parts [OF that] "1.IH" by (metis less_trans)
  have "length q < length s" if e: "json_elems d s = Some (xs, q)" for d xs q
  proof -
    from e obtain v r c r' where p: "json_value d s = Some (v, r)" "skip_ws r = c # r'"
      and q: "q = r' \<or> (length r' < length s \<and> (\<exists>xs'. json_elems d (skip_ws r') = Some (xs', q)))"
      by (rule json_elems_parts)
    have less: "length r' < length s" using val [OF p(1)] skip_ws_Cons [OF p(2)] by simp
    then have "length (skip_ws r') < length s" by (rule skip_ws_less)
    with "1.IH" q less show ?thesis by (metis less_trans)
  qed
  moreover have "length q < length s" if e: "json_members d s = Some (ms, q)" for d ms q
  proof -
    from e obtain s3 v r c r' where p: "json_value d s3 = Some (v, r)" "skip_ws r = c # r'" "length s3 < length s"
      and q: "q = r' \<or> (length r' < length s \<and> (\<exists>ms'. json_members d (skip_ws r') = Some (ms', q)))"
      by (rule json_members_parts)
    have "length r < length s3" using "1.IH" p by blast
    then have less: "length r' < length s" using p(3) skip_ws_Cons [OF p(2)] by simp
    then have "length (skip_ws r') < length s" by (rule skip_ws_less)
    with "1.IH" q less show ?thesis by (metis less_trans)
  qed
  ultimately show ?case using val by blast
qed

lemma json_value_length: "json_value d s = Some (v, r) \<Longrightarrow> length r < length s"
  using json_lengths by blast

text \<open>The defining equations without the comparisons.\<close>

lemma json_elems_eq:
  "json_elems d s =
     (case json_value d s of
        None \<Rightarrow> None
      | Some (v, r) \<Rightarrow>
          (case skip_ws r of
             [] \<Rightarrow> None
           | c # r' \<Rightarrow>
               if c = CHR '']'' then Some ([(raw_text s r, v)], r')
               else if c = CHR '','' then
                 map_option (\<lambda>(xs, q). ((raw_text s r, v) # xs, q)) (json_elems d (skip_ws r'))
               else None))"
proof (cases "json_value d s")
  case (Some p)
  obtain v r where p: "p = (v, r)" by (cases p)
  show ?thesis
  proof (cases "skip_ws r")
    case (Cons c r')
    have "length r' < length s" using json_value_length [of d s v r] Some p skip_ws_Cons [OF Cons] by simp
    with Some p Cons show ?thesis by (subst json_elems.simps) (simp add: Let_def)
  qed (use Some p in \<open>subst json_elems.simps, simp add: Let_def\<close>)
qed (subst json_elems.simps, simp)

lemma json_members_eq:
  "json_members d s =
     (case s of
        [] \<Rightarrow> None
      | c # s0 \<Rightarrow>
          if c \<noteq> DQUOTE then None
          else (case json_string s0 of
             None \<Rightarrow> None
           | Some (k, s1) \<Rightarrow>
               (case skip_ws s1 of
                  [] \<Rightarrow> None
                | c2 # s2 \<Rightarrow>
                    if c2 \<noteq> CHR '':'' then None
                    else (case json_value d (skip_ws s2) of
                       None \<Rightarrow> None
                     | Some (v, r) \<Rightarrow>
                         (case skip_ws r of
                            [] \<Rightarrow> None
                          | c4 # r' \<Rightarrow>
                              if c4 = CHR ''}'' then Some ([(k, raw_text (skip_ws s2) r, v)], r')
                              else if c4 = CHR '','' then
                                map_option (\<lambda>(xs, q). ((k, raw_text (skip_ws s2) r, v) # xs, q))
                                  (json_members d (skip_ws r'))
                              else None)))))"
proof -
  have value_ok: "length (skip_ws s2) < length (c # s0)"
    if "json_string s0 = Some (k, s1)" "skip_ws s1 = c2 # s2" for c s0 k s1 c2 s2
    using json_string_length [OF that(1)] skip_ws_Cons [OF that(2)] by (intro skip_ws_less) simp
  have rest_ok: "length r' < length (c # s0)"
    if "json_string s0 = Some (k, s1)" "skip_ws s1 = c2 # s2" "json_value d (skip_ws s2) = Some (v, r)"
      "skip_ws r = c4 # r'" for c s0 k s1 c2 s2 v r c4 r'
    using value_ok [OF that(1,2), of c] json_value_length [OF that(3)] skip_ws_Cons [OF that(4)] by linarith
  show ?thesis
    by (subst json_members.simps)
       (use value_ok rest_ok in \<open>simp add: Let_def split: list.split option.split prod.split\<close>)
qed

text \<open>\<open>json.Unmarshal\<close> on a whole text: one value, surrounded by white space only.\<close>

definition json_parse :: "bytes \<Rightarrow> json option" where
  "json_parse s =
     (case json_value max_nesting_depth (skip_ws s) of
        Some (v, r) \<Rightarrow> if skip_ws r = [] then Some v else None
      | None \<Rightarrow> None)"

section \<open>Printed numbers\<close>

definition number_stop :: "bytes \<Rightarrow> bool" where
  "number_stop r \<longleftrightarrow> (case r of [] \<Rightarrow> True | c # _ \<Rightarrow> \<not> is_digit c \<and> c \<noteq> CHR ''.'' \<and> c \<noteq> CHR ''e'' \<and> c \<noteq> CHR ''E'')"

lemma num_digits_show_nat: "number_stop r \<Longrightarrow> num_digits (show_nat n @ r) = (show_nat n, r)"
proof -
  assume "number_stop r"
  then have "takeWhile is_digit r = []" "dropWhile is_digit r = r"
    by (auto simp: number_stop_def split: list.splits)
  moreover have "\<forall>c \<in> set (show_nat n). is_digit c" using show_nat_digits [of n] by (simp add: list_all_iff)
  ultimately show ?thesis by (simp add: num_digits_def takeWhile_append2 dropWhile_append2)
qed

lemma num_int_show_nat: "number_stop r \<Longrightarrow> num_int (show_nat n @ r) = Some (show_nat n, r)"
proof (cases "n = 0")
  case True
  have "show_nat 0 = ''0''" by code_simp
  with True show ?thesis by (simp add: num_int_def)
next
  case False
  assume stop: "number_stop r"
  obtain c s where cs: "show_nat n = c # s" "is_digit c" "c \<noteq> CHR ''0''" using show_nat_lead [of n] False by auto
  with num_digits_show_nat [OF stop, of n] show ?thesis by (simp add: num_int_def)
qed

lemma num_rest: "number_stop r \<Longrightarrow> num_frac r = Some ([], r) \<and> num_exp r = Some ([], r)"
  by (auto simp: number_stop_def num_frac_def num_exp_def split: list.splits)

lemma json_number_show_int: "number_stop r \<Longrightarrow> json_number (show_int i @ r) = Some (show_int i, r)"
proof (cases "i < 0")
  case True
  assume "number_stop r"
  with True show ?thesis by (simp add: json_number_def show_int_def num_int_show_nat num_rest)
next
  case False
  assume r: "number_stop r"
  obtain c s where cs: "show_nat (nat i) = c # s" by (cases "show_nat (nat i)") auto
  then have "c \<noteq> CHR ''-''" using show_nat_hd [OF cs] by (auto simp: is_digit_def code_def)
  with False cs r num_int_show_nat [OF r, of "nat i"] show ?thesis
    by (simp add: json_number_def show_int_def num_rest)
qed

lemma show_int_head: "\<exists>c s. show_int i = c # s \<and> (is_digit c \<or> c = CHR ''-'')"
  using show_nat_hd by (cases "show_nat (nat i)") (auto simp: show_int_def)

text \<open>A printed number is read back as it was written.\<close>

lemma json_value_show_int: "number_stop r \<Longrightarrow> json_value d (show_int i @ r) = Some (JNum (show_int i), r)"
proof -
  assume r: "number_stop r"
  obtain c s where cs: "show_int i = c # s" "is_digit c \<or> c = CHR ''-''" using show_int_head by blast
  then have "c \<noteq> DQUOTE" "c \<noteq> CHR ''[''" "c \<noteq> CHR ''{''" "c \<noteq> CHR ''n''" "c \<noteq> CHR ''t''" "c \<noteq> CHR ''f''"
    by (auto simp: is_digit_def code_def)
  with cs json_number_show_int [OF r, of i] show ?thesis
    by (simp add: json_value.simps json_literal_def has_prefix_def)
qed

lemma skip_ws_show_int: "skip_ws (show_int i @ r) = show_int i @ r"
proof -
  obtain c s where cs: "show_int i = c # s" "is_digit c \<or> c = CHR ''-''" using show_int_head by blast
  then have "\<not> json_ws c" by (auto simp: json_ws_def is_digit_def code_def)
  with cs show ?thesis by (simp add: skip_ws_def)
qed


text \<open>Rules to evaluate the parser on a text with symbolic parts.\<close>

lemma skip_ws_Cons_simp: "skip_ws (c # s) = (if json_ws c then skip_ws s else c # s)"
  by (simp add: skip_ws_def)

lemma json_members_quote:
  "json_members d (DQUOTE # s0) =
     (case json_string s0 of
             None \<Rightarrow> None
           | Some (k, s1) \<Rightarrow>
               (case skip_ws s1 of
                  [] \<Rightarrow> None
                | c2 # s2 \<Rightarrow>
                    if c2 \<noteq> CHR '':'' then None
                    else (case json_value d (skip_ws s2) of
                       None \<Rightarrow> None
                     | Some (v, r) \<Rightarrow>
                         (case skip_ws r of
                            [] \<Rightarrow> None
                          | c4 # r' \<Rightarrow>
                              if c4 = CHR ''}'' then Some ([(k, raw_text (skip_ws s2) r, v)], r')
                              else if c4 = CHR '','' then
                                map_option (\<lambda>(xs, q). ((k, raw_text (skip_ws s2) r, v) # xs, q))
                                  (json_members d (skip_ws r'))
                              else None))))"
  by (subst json_members_eq) simp

lemma raw_two: "raw_text (a # b # r) r = [a, b]"
proof -
  have "length (a # b # r) - length r = 2" by simp
  then show ?thesis unfolding raw_text_def by (simp add: numeral_2_eq_2)
qed

end
