(* ===== verification/Float64.thy ===== *)
theory Float64
  imports Go_Encoding
begin

text \<open>
  IEEE 754 binary64 values as Go's \<open>float64\<close>: finite values are exact rationals (the two zeros are
  one value: no source distinguishes them), results are rounded to nearest, ties to even.
  \<open>strconv.ParseFloat\<close> is correctly rounded, so it is the rounding of the decimal's exact value.
\<close>

datatype float64 = NaN | Inf bool | Fin rat

definition pow2 :: "int \<Rightarrow> rat" where
  "pow2 e = (if 0 \<le> e then 2 ^ nat e else 1 / 2 ^ nat (- e))"

definition round_half_even :: "rat \<Rightarrow> int" where
  "round_half_even q =
     (let f = \<lfloor>q\<rfloor>; d = q - of_int f in
      if d < 1 / 2 then f else if d > 1 / 2 then f + 1 else if even f then f else f + 1)"

function bit_length :: "int \<Rightarrow> int" where
  "bit_length n = (if n \<le> 0 then 0 else 1 + bit_length (n div 2))"
  by pat_completeness auto
termination by (relation "measure nat") auto

declare bit_length.simps [simp del]

text \<open>The exponent of a positive rational: the \<open>e\<close> with \<open>pow2 e \<le> q < pow2 (e + 1)\<close>.\<close>

definition exponent2 :: "rat \<Rightarrow> int" where
  "exponent2 q =
     (case quotient_of q of (a, b) \<Rightarrow>
        (let e = bit_length a - bit_length b in
         if pow2 e \<le> q then e else e - 1))"

definition unit_last_place :: "rat \<Rightarrow> rat" where
  "unit_last_place q = pow2 (max (exponent2 q - 52) (- 1074))"

definition round64 :: "rat \<Rightarrow> float64" where
  "round64 q =
     (if q = 0 then Fin 0
      else let a = \<bar>q\<bar>; u = unit_last_place a; v = of_int (round_half_even (a / u)) * u in
        if 1024 \<le> exponent2 v then Inf (q < 0)
        else Fin (if q < 0 then - v else v))"

definition float_mult :: "rat \<Rightarrow> rat \<Rightarrow> float64" where
  "float_mult a b = round64 (a * b)"

text \<open>Comparison with a finite value, \<open>math.Ceil\<close>, and the conversion to \<open>int64\<close>. Go leaves a
  conversion out of range to the platform; this is amd64's \<open>CVTTSD2SQ\<close>, which yields the least
  \<open>int64\<close> (production runs on linux/amd64).\<close>

fun float_gt :: "float64 \<Rightarrow> rat \<Rightarrow> bool" where
  "float_gt NaN r \<longleftrightarrow> False"
| "float_gt (Inf neg) r \<longleftrightarrow> \<not> neg"
| "float_gt (Fin q) r \<longleftrightarrow> q > r"

fun float_ceil :: "float64 \<Rightarrow> float64" where
  "float_ceil (Fin q) = Fin (of_int \<lceil>q\<rceil>)"
| "float_ceil x = x"

fun float_to_int64 :: "float64 \<Rightarrow> int" where
  "float_to_int64 (Fin q) =
     (let i = (if 0 \<le> q then \<lfloor>q\<rfloor> else \<lceil>q\<rceil>) in if int64_ok i then i else min_int64)"
| "float_to_int64 x = min_int64"

section \<open>Decimal text\<close>

definition pow10 :: "int \<Rightarrow> rat" where
  "pow10 e = (if 0 \<le> e then 10 ^ nat e else 1 / 10 ^ nat (- e))"

text \<open>The exact value of a text of the JSON number grammar.\<close>

definition decimal_value :: "bytes \<Rightarrow> rat" where
  "decimal_value s =
     (let (neg, r0) = (case s of c # r \<Rightarrow> if c = CHR ''-'' then (True, r) else (False, s) | [] \<Rightarrow> (False, s));
          ip = takeWhile is_digit r0;
          r1 = dropWhile is_digit r0;
          (fp, r2) = (case r1 of
              c # r \<Rightarrow> if c = CHR ''.'' then (takeWhile is_digit r, dropWhile is_digit r) else ([], r1)
            | [] \<Rightarrow> ([], r1));
          ex = (case r2 of
              c # r \<Rightarrow> (case r of
                  d # q \<Rightarrow> if d = CHR ''-'' then - int (digits_val q)
                            else if d = CHR ''+'' then int (digits_val q) else int (digits_val r)
                | [] \<Rightarrow> 0)
            | [] \<Rightarrow> 0);
          m = of_nat (digits_val (ip @ fp)) * pow10 (ex - int (length fp))
      in if neg then - m else m)"

text \<open>\<open>strconv.ParseFloat(s, 64)\<close> on such a text: a range error when the rounded value is not finite.\<close>

definition parse_float64 :: "bytes \<Rightarrow> rat option" where
  "parse_float64 s = (case round64 (decimal_value s) of Fin q \<Rightarrow> Some q | _ \<Rightarrow> None)"

section \<open>Properties of rounding\<close>

lemma pow2_pos [simp]: "0 < pow2 e"
  by (simp add: pow2_def)

lemma round_half_even_bounds:
  "of_int (round_half_even q) \<le> q + 1 / 2" "q - 1 / 2 \<le> of_int (round_half_even q)"
proof -
  define f where "f = \<lfloor>q\<rfloor>"
  have f: "of_int f \<le> q" "q < of_int f + 1" unfolding f_def by linarith+
  have r: "round_half_even q = (if q - of_int f < 1 / 2 then f
      else if q - of_int f > 1 / 2 then f + 1 else if even f then f else f + 1)"
    by (simp add: round_half_even_def f_def Let_def)
  show "of_int (round_half_even q) \<le> q + 1 / 2"
    unfolding r using f by (simp add: field_simps)
  show "q - 1 / 2 \<le> of_int (round_half_even q)"
    unfolding r using f by (simp add: field_simps)
qed

lemma round_half_even_nonneg: "0 \<le> q \<Longrightarrow> 0 \<le> round_half_even q"
  by (auto simp: round_half_even_def Let_def)

lemma round_half_even_of_int [simp]: "round_half_even (of_int i) = i"
  by (simp add: round_half_even_def)

lemma round64_zero [simp]: "round64 0 = Fin 0"
  by (simp add: round64_def)

text \<open>Rounding keeps the sign, and is off by at most half a unit in the last place.\<close>

lemma round64_nonneg: "0 \<le> q \<Longrightarrow> round64 q = Fin v \<Longrightarrow> 0 \<le> v"
  by (auto simp: round64_def Let_def unit_last_place_def less_imp_le round_half_even_nonneg
      split: if_splits)

lemma round64_error:
  assumes "0 < q" and "round64 q = Fin v"
  shows "\<bar>v - q\<bar> \<le> unit_last_place q / 2"
proof -
  let ?u = "unit_last_place q" and ?r = "of_int (round_half_even (q / unit_last_place q)) :: rat"
  have u: "0 < ?u" by (simp add: unit_last_place_def)
  from assms have v: "v = ?r * ?u" by (auto simp: round64_def Let_def split: if_splits)
  have "\<bar>?r - q / ?u\<bar> \<le> 1 / 2"
    using round_half_even_bounds [of "q / ?u"] unfolding abs_le_iff by linarith
  then have "\<bar>?r - q / ?u\<bar> * ?u \<le> 1 / 2 * ?u" using u by (intro mult_right_mono) auto
  moreover have "\<bar>?r - q / ?u\<bar> * ?u = \<bar>v - q\<bar>"
  proof -
    have "v - q = (?r - q / ?u) * ?u" using u by (simp add: v left_diff_distrib)
    then show ?thesis using u by (simp add: abs_mult)
  qed
  ultimately show ?thesis by simp
qed

lemma parse_float64_nonneg: "0 \<le> decimal_value s \<Longrightarrow> parse_float64 s = Some q \<Longrightarrow> 0 \<le> q"
  by (auto simp: parse_float64_def split: float64.splits dest: round64_nonneg)

text \<open>The exponent is the one of the leading bit.\<close>

lemma pow2_eq: "pow2 e = power_int 2 e"
  by (simp add: pow2_def power_int_def power_one_over [symmetric] inverse_eq_divide)

lemma pow2_add: "pow2 (a + b) = pow2 a * pow2 b"
  by (simp add: pow2_eq power_int_add)

lemma pow2_mono: "a \<le> b \<Longrightarrow> pow2 a \<le> pow2 b"
  by (simp add: pow2_eq power_int_increasing)

lemma bit_length_nonneg: "0 \<le> bit_length n"
proof (induction n rule: bit_length.induct)
  case (1 n)
  then show ?case by (simp add: bit_length.simps [of n])
qed

lemma bit_length_bounds: "0 < n \<Longrightarrow> pow2 (bit_length n - 1) \<le> of_int n \<and> of_int n < pow2 (bit_length n)"
proof (induction n rule: bit_length.induct)
  case (1 n)
  show ?case
  proof (cases "n = 1")
    case True
    then show ?thesis by (simp add: bit_length.simps pow2_def)
  next
    case False
    with 1 have IH: "pow2 (bit_length (n div 2) - 1) \<le> of_int (n div 2)" "of_int (n div 2) < pow2 (bit_length (n div 2))"
      by auto
    have bl: "bit_length n = 1 + bit_length (n div 2)" using 1 by (simp add: bit_length.simps [of n])
    have double: "2 * of_int (n div 2) \<le> (of_int n :: rat)" "(of_int n :: rat) < 2 * (of_int (n div 2) + 1)"
    proof -
      have "2 * (n div 2) \<le> n" "n < 2 * (n div 2 + 1)" by presburger+
      then have "of_int (2 * (n div 2)) \<le> (of_int n :: rat)" "(of_int n :: rat) < of_int (2 * (n div 2 + 1))"
        by (simp_all only: of_int_le_iff of_int_less_iff)
      then show "2 * of_int (n div 2) \<le> (of_int n :: rat)" "(of_int n :: rat) < 2 * (of_int (n div 2) + 1)"
        by simp_all
    qed
    have "pow2 (bit_length (n div 2)) = of_int (2 ^ nat (bit_length (n div 2)))" by (simp add: pow2_def bit_length_nonneg)
    with IH(2) have "of_int (n div 2) + 1 \<le> pow2 (bit_length (n div 2))"
      by (metis of_int_1 of_int_add of_int_le_iff of_int_less_iff zless_imp_add1_zle)
    with IH(1) double bl show ?thesis
      using pow2_add [of 1 "bit_length (n div 2)"] pow2_add [of 1 "bit_length (n div 2) - 1"]
      by (simp add: pow2_def [of 1])
  qed
qed

lemma exponent2_bounds:
  assumes "0 < q"
  shows "pow2 (exponent2 q) \<le> q" "q < pow2 (exponent2 q + 1)"
proof -
  obtain a b where ab: "quotient_of q = (a, b)" by (cases "quotient_of q")
  have q: "q = of_int a / of_int b" by (rule quotient_of_div [OF ab])
  have b: "0 < b" by (rule quotient_of_denom_pos [OF ab])
  with assms q have a: "0 < a" by (simp add: zero_less_divide_iff)
  define e where "e = bit_length a - bit_length b"
  note A = bit_length_bounds [OF a] and B = bit_length_bounds [OF b]
  have low: "pow2 (e - 1) \<le> q"
  proof -
    have "pow2 (e - 1) * of_int b \<le> pow2 (e - 1) * pow2 (bit_length b)"
      using B by (intro mult_left_mono) (auto intro: less_imp_le)
    also have "\<dots> = pow2 (bit_length a - 1)" by (simp add: pow2_add [symmetric] e_def)
    finally have "pow2 (e - 1) * of_int b \<le> of_int a" using A by linarith
    then show ?thesis using b by (simp add: q le_divide_eq)
  qed
  have high: "q < pow2 (e + 1)"
  proof -
    have "of_int a < pow2 (e + 1) * pow2 (bit_length b - 1)"
      using A by (simp add: pow2_add [symmetric] e_def)
    also have "\<dots> \<le> pow2 (e + 1) * of_int b" using B by (intro mult_left_mono) (auto intro: less_imp_le)
    finally show ?thesis using b by (simp add: q divide_less_eq)
  qed
  have ex: "exponent2 q = (if pow2 e \<le> q then e else e - 1)" by (simp add: exponent2_def ab e_def Let_def)
  show "pow2 (exponent2 q) \<le> q" "q < pow2 (exponent2 q + 1)"
    using low high by (auto simp: ex)
qed

text \<open>A rounded value of at least two to the 54 is an integer.\<close>

lemma round64_big_integer:
  assumes "0 < q" "round64 q = Fin v" "2 ^ 54 \<le> v"
  shows "v = of_int \<lfloor>v\<rfloor>"
proof -
  define e where "e = exponent2 q"
  have e: "52 < e"
  proof (rule ccontr)
    assume "\<not> 52 < e"
    then have "unit_last_place q \<le> pow2 0" "pow2 (e + 1) \<le> pow2 53"
      unfolding unit_last_place_def e_def by (intro pow2_mono; simp)+
    then have "unit_last_place q \<le> 1" "q < 2 ^ 53"
      using exponent2_bounds(2) [OF assms(1)] by (auto simp: pow2_def e_def [symmetric])
    with round64_error [OF assms(1,2)] assms(3) show False by (simp add: abs_le_iff)
  qed
  then have "unit_last_place q = of_int (2 ^ nat (e - 52))"
    by (simp add: unit_last_place_def e_def [symmetric] pow2_def)
  moreover have "v = of_int (round_half_even (q / unit_last_place q)) * unit_last_place q"
    using assms by (auto simp: round64_def Let_def split: if_splits)
  ultimately have "v = of_int (round_half_even (q / unit_last_place q) * 2 ^ nat (e - 52))"
    by (simp only: of_int_mult)
  then show ?thesis by (metis floor_of_int)
qed

end
