(* ===== verification/Json_Struct.thy ===== *)
theory Json_Struct
  imports Json Float64
begin

text \<open>
  What \<open>json.Unmarshal\<close> does with the members of an object when the target is a struct: field names
  match without case, members are stored in order, \<open>null\<close> leaves a value or clears a pointer.
\<close>

section \<open>Unmarshalling into structs\<close>

text \<open>\<open>foldName\<close> of \<open>encoding/json\<close>: ASCII letters fold to upper case; the two other characters that
  fold to ASCII are the long s and the Kelvin sign. Every other character stays outside ASCII, so it
  matches no field name.\<close>

function fold_name :: "bytes \<Rightarrow> bytes" where
  "fold_name [] = []"
| "fold_name (c # s) =
     (if has_prefix [CHR 0xC5, CHR 0xBF] (c # s) then CHR ''S'' # fold_name (drop 1 s)
      else if has_prefix [CHR 0xE2, CHR 0x84, CHR 0xAA] (c # s) then CHR ''K'' # fold_name (drop 2 s)
      else upper_byte c # fold_name s)"
  by pat_completeness auto
termination by (relation "measure length") auto

definition field_is :: "bytes \<Rightarrow> bytes \<Rightarrow> bool" where
  "field_is name key \<longleftrightarrow> fold_name key = map upper_byte name"

text \<open>Members are stored in order; an error in any of them makes \<open>Unmarshal\<close> return an error.\<close>

fun fold_members ::
  "(bytes \<Rightarrow> bytes \<Rightarrow> json \<Rightarrow> 's \<Rightarrow> 's option) \<Rightarrow> (bytes \<times> bytes \<times> json) list \<Rightarrow> 's \<Rightarrow> 's option"
where
  "fold_members f [] st = Some st"
| "fold_members f ((k, raw, v) # ms) st =
     (case f k raw v st of None \<Rightarrow> None | Some st' \<Rightarrow> fold_members f ms st')"

definition unmarshal_struct ::
  "(bytes \<Rightarrow> bytes \<Rightarrow> json \<Rightarrow> 's \<Rightarrow> 's option) \<Rightarrow> json \<Rightarrow> 's \<Rightarrow> 's option"
where
  "unmarshal_struct f v st =
     (case v of JNull \<Rightarrow> Some st | JObj ms \<Rightarrow> fold_members f ms st | _ \<Rightarrow> None)"

definition unmarshal_ptr ::
  "(json \<Rightarrow> 's \<Rightarrow> 's option) \<Rightarrow> 's \<Rightarrow> json \<Rightarrow> 's option \<Rightarrow> 's option option"
where
  "unmarshal_ptr dec zero v p =
     (if v = JNull then Some None
      else map_option Some (dec v (case p of None \<Rightarrow> zero | Some x \<Rightarrow> x)))"

definition unmarshal_int64 :: "json \<Rightarrow> int option option" where
  "unmarshal_int64 v =
     (case v of JNull \<Rightarrow> Some None | JNum n \<Rightarrow> map_option Some (parse_int64 n) | _ \<Rightarrow> None)"

definition unmarshal_float64 :: "json \<Rightarrow> rat option option" where
  "unmarshal_float64 v =
     (case v of JNull \<Rightarrow> Some None | JNum n \<Rightarrow> map_option Some (parse_float64 n) | _ \<Rightarrow> None)"

definition unmarshal_string :: "json \<Rightarrow> bytes \<Rightarrow> bytes option" where
  "unmarshal_string v s = (case v of JNull \<Rightarrow> Some s | JStr t \<Rightarrow> Some t | _ \<Rightarrow> None)"

end
