(* ===== verification/Usage_Decode.thy ===== *)
theory Usage_Decode
  imports Json_Struct
begin

text \<open>
  Decoding of token usage from one JSON document (\<open>internal/infra/openai/completion_usage.go\<close>, the
  part below the observer): the envelope structs, what \<open>json.Unmarshal\<close> does with them (field
  matching ignores case, later members overwrite or extend earlier ones, \<open>null\<close> clears a pointer),
  and the classification of a payload as available, unavailable or malformed.
\<close>

section \<open>Result types\<close>

record CompletionUsage =
  PromptTokens :: int
  CompletionTokens :: int
  MeanITL :: int
  GenerationTime :: int
  ObservedAt :: "int option"

datatype CompletionUsageEvidenceOutcome =
    CompletionUsageUnavailable
  | CompletionUsageAvailable
  | CompletionUsageMalformed

record CompletionUsageEvidence =
  Outcome :: CompletionUsageEvidenceOutcome
  Usage :: CompletionUsage

datatype CompletionUsageFormat =
    CompletionUsageFormatCompletions
  | CompletionUsageFormatResponses

definition zero_usage :: CompletionUsage where
  "zero_usage = \<lparr>PromptTokens = 0, CompletionTokens = 0, MeanITL = 0, GenerationTime = 0, ObservedAt = None\<rparr>"

section \<open>The envelopes\<close>

record completionUsageChoices =
  choices_present :: bool
  choices_empty :: bool

text \<open>\<open>completionUsageChoices.UnmarshalJSON\<close>; \<open>None\<close> is \<open>errCompletionUsageChoicesNotArray\<close>.\<close>

definition UnmarshalJSON :: "bytes \<Rightarrow> completionUsageChoices \<Rightarrow> completionUsageChoices option" where
  "UnmarshalJSON raw c =
     (let payload = trim_space raw in
      if length payload < 2 \<or> payload ! 0 \<noteq> CHR ''['' \<or> payload ! (length payload - 1) \<noteq> CHR '']''
      then None
      else Some (c\<lparr>choices_present := True,
        choices_empty := (length (trim_space (take (length payload - 2) (drop 1 payload))) = 0)\<rparr>))"

record completionUsageValue =
  uv_PromptTokens :: "int option"
  uv_CompletionTokens :: "int option"

record completionMetrics =
  MeanITLMilliseconds :: "rat option"
  GenerationTimeMilliseconds :: "rat option"

record completionUsageEnvelope =
  env_Choices :: completionUsageChoices
  env_Usage :: "completionUsageValue option"
  env_Metrics :: "completionMetrics option"

record responsesUsageValue =
  InputTokens :: "int option"
  OutputTokens :: "int option"

record responsesUsageEnvelope =
  resp_Usage :: "responsesUsageValue option"

record responsesUsageEvent =
  ev_Type :: bytes
  ev_Response :: "responsesUsageEnvelope option"

definition zero_envelope :: completionUsageEnvelope where
  "zero_envelope = \<lparr>env_Choices = \<lparr>choices_present = False, choices_empty = False\<rparr>,
     env_Usage = None, env_Metrics = None\<rparr>"

definition store_usage_value ::
  "bytes \<Rightarrow> bytes \<Rightarrow> json \<Rightarrow> completionUsageValue \<Rightarrow> completionUsageValue option" where
  "store_usage_value k raw v u =
     (if field_is ''prompt_tokens'' k then
        map_option (\<lambda>p. u\<lparr>uv_PromptTokens := p\<rparr>) (unmarshal_int64 v)
      else if field_is ''completion_tokens'' k then
        map_option (\<lambda>p. u\<lparr>uv_CompletionTokens := p\<rparr>) (unmarshal_int64 v)
      else Some u)"

definition store_metrics ::
  "bytes \<Rightarrow> bytes \<Rightarrow> json \<Rightarrow> completionMetrics \<Rightarrow> completionMetrics option" where
  "store_metrics k raw v m =
     (if field_is ''mean_itl_ms'' k then
        map_option (\<lambda>p. m\<lparr>MeanITLMilliseconds := p\<rparr>) (unmarshal_float64 v)
      else if field_is ''generation_time_ms'' k then
        map_option (\<lambda>p. m\<lparr>GenerationTimeMilliseconds := p\<rparr>) (unmarshal_float64 v)
      else Some m)"

definition store_envelope ::
  "bytes \<Rightarrow> bytes \<Rightarrow> json \<Rightarrow> completionUsageEnvelope \<Rightarrow> completionUsageEnvelope option" where
  "store_envelope k raw v e =
     (if field_is ''choices'' k then
        map_option (\<lambda>c. e\<lparr>env_Choices := c\<rparr>) (UnmarshalJSON raw (env_Choices e))
      else if field_is ''usage'' k then
        map_option (\<lambda>p. e\<lparr>env_Usage := p\<rparr>)
          (unmarshal_ptr (unmarshal_struct store_usage_value)
             \<lparr>uv_PromptTokens = None, uv_CompletionTokens = None\<rparr> v (env_Usage e))
      else if field_is ''metrics'' k then
        map_option (\<lambda>p. e\<lparr>env_Metrics := p\<rparr>)
          (unmarshal_ptr (unmarshal_struct store_metrics)
             \<lparr>MeanITLMilliseconds = None, GenerationTimeMilliseconds = None\<rparr> v (env_Metrics e))
      else Some e)"

definition store_responses_value ::
  "bytes \<Rightarrow> bytes \<Rightarrow> json \<Rightarrow> responsesUsageValue \<Rightarrow> responsesUsageValue option" where
  "store_responses_value k raw v u =
     (if field_is ''input_tokens'' k then
        map_option (\<lambda>p. u\<lparr>InputTokens := p\<rparr>) (unmarshal_int64 v)
      else if field_is ''output_tokens'' k then
        map_option (\<lambda>p. u\<lparr>OutputTokens := p\<rparr>) (unmarshal_int64 v)
      else Some u)"

definition store_responses_envelope ::
  "bytes \<Rightarrow> bytes \<Rightarrow> json \<Rightarrow> responsesUsageEnvelope \<Rightarrow> responsesUsageEnvelope option" where
  "store_responses_envelope k raw v e =
     (if field_is ''usage'' k then
        map_option (\<lambda>p. e\<lparr>resp_Usage := p\<rparr>)
          (unmarshal_ptr (unmarshal_struct store_responses_value)
             \<lparr>InputTokens = None, OutputTokens = None\<rparr> v (resp_Usage e))
      else Some e)"

definition store_responses_event ::
  "bytes \<Rightarrow> bytes \<Rightarrow> json \<Rightarrow> responsesUsageEvent \<Rightarrow> responsesUsageEvent option" where
  "store_responses_event k raw v e =
     (if field_is ''type'' k then
        map_option (\<lambda>t. e\<lparr>ev_Type := t\<rparr>) (unmarshal_string v (ev_Type e))
      else if field_is ''response'' k then
        map_option (\<lambda>p. e\<lparr>ev_Response := p\<rparr>)
          (unmarshal_ptr (unmarshal_struct store_responses_envelope) \<lparr>resp_Usage = None\<rparr> v (ev_Response e))
      else Some e)"

text \<open>\<open>json.Unmarshal\<close> of a text into a struct: a syntax error or a type error is \<open>None\<close>.\<close>

definition unmarshal ::
  "(bytes \<Rightarrow> bytes \<Rightarrow> json \<Rightarrow> 's \<Rightarrow> 's option) \<Rightarrow> bytes \<Rightarrow> 's \<Rightarrow> 's option"
where
  "unmarshal f text st = Option.bind (json_parse text) (\<lambda>v. unmarshal_struct f v st)"

section \<open>Durations\<close>

text \<open>\<open>float64(math.MaxInt64)\<close>: the nearest binary64 value is two to the 63.\<close>

definition float_max_int64 :: rat where
  "float_max_int64 = 2 ^ 63"

definition millisecondsDuration :: "float64 \<Rightarrow> int \<times> bool" where
  "millisecondsDuration value =
     (case value of
        NaN \<Rightarrow> (0, False)
      | Inf _ \<Rightarrow> (0, False)
      | Fin q \<Rightarrow>
          if q \<le> 0 then (0, False)
          else let nanoseconds = float_mult q 1000000 in
            if float_gt nanoseconds float_max_int64 then (0, False)
            else (float_to_int64 (float_ceil nanoseconds), True))"

section \<open>Classification\<close>

abbreviation malformed :: "CompletionUsage \<times> CompletionUsageEvidenceOutcome" where
  "malformed \<equiv> (zero_usage, CompletionUsageMalformed)"

abbreviation unavailable :: "CompletionUsage \<times> CompletionUsageEvidenceOutcome" where
  "unavailable \<equiv> (zero_usage, CompletionUsageUnavailable)"

definition positive_tokens :: "int option \<Rightarrow> int" where
  "positive_tokens p = (case p of Some n \<Rightarrow> if n > 0 then n else 0 | None \<Rightarrow> 0)"

text \<open>The timing metrics of the envelope, added to a usage value; \<open>None\<close> is the malformed return.\<close>

definition decode_duration ::
  "rat option \<Rightarrow> (int \<Rightarrow> CompletionUsage \<Rightarrow> CompletionUsage) \<Rightarrow> CompletionUsage \<Rightarrow> CompletionUsage option"
where
  "decode_duration p store usage =
     (case p of
        None \<Rightarrow> Some usage
      | Some v \<Rightarrow> (case millisecondsDuration (Fin v) of
           (d, ok) \<Rightarrow> if \<not> ok then None else Some (store d usage)))"

definition decode_metrics :: "completionMetrics option \<Rightarrow> CompletionUsage \<Rightarrow> CompletionUsage option" where
  "decode_metrics mp usage =
     (case mp of
        None \<Rightarrow> Some usage
      | Some m \<Rightarrow>
          Option.bind (decode_duration (MeanITLMilliseconds m) (\<lambda>d u. u\<lparr>MeanITL := d\<rparr>) usage)
            (decode_duration (GenerationTimeMilliseconds m) (\<lambda>d u. u\<lparr>GenerationTime := d\<rparr>)))"

definition decodeCompletionsUsageEvidence ::
  "bytes \<Rightarrow> bool \<Rightarrow> CompletionUsage \<times> CompletionUsageEvidenceOutcome" where
  "decodeCompletionsUsageEvidence payload strm =
     (case unmarshal store_envelope payload zero_envelope of
        None \<Rightarrow> malformed
      | Some envelope \<Rightarrow>
          (case env_Usage envelope of
             None \<Rightarrow> unavailable
           | Some u \<Rightarrow>
               (case uv_CompletionTokens u of
                  None \<Rightarrow> malformed
                | Some tokens \<Rightarrow>
                    if \<not> choices_present (env_Choices envelope) then malformed
                    else if strm \<and> \<not> choices_empty (env_Choices envelope) then unavailable
                    else if \<not> strm \<and> choices_empty (env_Choices envelope) then malformed
                    else if tokens < 0 then malformed
                    else (case decode_metrics (env_Metrics envelope)
                              (zero_usage\<lparr>CompletionTokens := tokens,
                                 PromptTokens := positive_tokens (uv_PromptTokens u)\<rparr>) of
                            None \<Rightarrow> malformed
                          | Some usage \<Rightarrow> (usage, CompletionUsageAvailable)))))"

definition classify_responses ::
  "responsesUsageEnvelope option \<Rightarrow> CompletionUsage \<times> CompletionUsageEvidenceOutcome" where
  "classify_responses envelope =
     (case envelope of
        None \<Rightarrow> unavailable
      | Some e \<Rightarrow>
          (case resp_Usage e of
             None \<Rightarrow> unavailable
           | Some u \<Rightarrow>
               (case OutputTokens u of
                  None \<Rightarrow> malformed
                | Some tokens \<Rightarrow>
                    if tokens < 0 then malformed
                    else (zero_usage\<lparr>CompletionTokens := tokens,
                            PromptTokens := positive_tokens (InputTokens u)\<rparr>,
                          CompletionUsageAvailable))))"

definition decodeResponsesUsageEvidence ::
  "bytes \<Rightarrow> bool \<Rightarrow> CompletionUsage \<times> CompletionUsageEvidenceOutcome" where
  "decodeResponsesUsageEvidence payload strm =
     (if strm then
        (case unmarshal store_responses_event payload \<lparr>ev_Type = [], ev_Response = None\<rparr> of
           None \<Rightarrow> malformed
         | Some event \<Rightarrow>
             if ev_Type event \<noteq> ''response.completed'' then unavailable
             else classify_responses (ev_Response event))
      else
        (case unmarshal store_responses_envelope payload \<lparr>resp_Usage = None\<rparr> of
           None \<Rightarrow> malformed
         | Some e \<Rightarrow> classify_responses (Some e)))"

definition decodeCompletionUsageEvidence ::
  "bytes \<Rightarrow> bool \<Rightarrow> CompletionUsageFormat \<Rightarrow> CompletionUsage \<times> CompletionUsageEvidenceOutcome" where
  "decodeCompletionUsageEvidence payload strm fmt =
     (if fmt = CompletionUsageFormatResponses then decodeResponsesUsageEvidence payload strm
      else decodeCompletionsUsageEvidence payload strm)"

definition decodeCompletionUsage :: "bytes \<Rightarrow> bool \<Rightarrow> CompletionUsage \<times> bool" where
  "decodeCompletionUsage payload strm =
     (case decodeCompletionUsageEvidence payload strm CompletionUsageFormatCompletions of
        (usage, outcome) \<Rightarrow> (usage, outcome = CompletionUsageAvailable))"

lemma decode_unavailable_zero:
  "decodeCompletionUsageEvidence payload strm fmt = (u, out) \<Longrightarrow> out \<noteq> CompletionUsageAvailable \<Longrightarrow> u = zero_usage"
  by (auto simp: decodeCompletionUsageEvidence_def decodeCompletionsUsageEvidence_def
      decodeResponsesUsageEvidence_def classify_responses_def
      split: if_splits option.splits)

end
