(* ===== verification/Observer.thy ===== *)
theory Observer
  imports Usage_Decode
begin

text \<open>
  The usage observer of \<open>internal/infra/openai/completion_usage.go\<close>: a state machine that is fed the
  bytes of a response as they pass (\<open>Observe\<close>), and told when the response is over (\<open>Finish\<close>). The
  three callbacks are modelled by a log of the calls made, each present or absent as in the source;
  \<open>time.Now\<close> reads a clock, a parameter, whose reading number the state counts.
\<close>

section \<open>State\<close>

definition maximumCompletionUsageJSONBytes :: nat where
  "maximumCompletionUsageJSONBytes = 4 * 1024 * 1024"

definition maximumCompletionUsageSSEBytes :: nat where
  "maximumCompletionUsageSSEBytes = 64 * 1024"

definition completionUsageLookaheadBytes :: nat where
  "completionUsageLookaheadBytes = 32 * 1024"

datatype callback_event =
    CallUsage CompletionUsage
  | CallTerminal
  | CallEvidence CompletionUsageEvidence

record CompletionUsageObserver =
  o_streaming :: bool
  o_format :: CompletionUsageFormat
  o_callback :: bool
  o_onTerminal :: bool
  o_onEvidence :: bool
  o_finished :: bool
  o_terminalSeen :: bool
  o_terminalNotified :: bool
  o_evidenceNotified :: bool
  o_candidate :: CompletionUsage
  o_candidateValid :: bool
  o_candidateInvalid :: bool
  o_jsonBody :: bytes
  o_jsonCap :: nat
  o_jsonLimited :: bool
  o_line :: bytes
  o_eventData :: bytes
  o_eventLimited :: bool
  o_eventHasData :: bool
  o_ticks :: nat
  o_log :: "callback_event list"


text \<open>\<open>newCompletionUsageObserver\<close>: no observer when there is nobody to call.\<close>

definition newCompletionUsageObserver ::
  "bool \<Rightarrow> CompletionUsageFormat \<Rightarrow> bool \<Rightarrow> bool \<Rightarrow> bool \<Rightarrow> CompletionUsageObserver option" where
  "newCompletionUsageObserver strm fmt callback onTerminal onEvidence =
     (if \<not> callback \<and> \<not> onTerminal \<and> \<not> onEvidence then None
      else Some \<lparr>o_streaming = strm, o_format = fmt, o_callback = callback, o_onTerminal = onTerminal,
        o_onEvidence = onEvidence, o_finished = False, o_terminalSeen = False,
        o_terminalNotified = False, o_evidenceNotified = False, o_candidate = zero_usage,
        o_candidateValid = False, o_candidateInvalid = False, o_jsonBody = [], o_jsonCap = 0,
        o_jsonLimited = False, o_line = [], o_eventData = [], o_eventLimited = False,
        o_eventHasData = False, o_ticks = 0, o_log = []\<rparr>)"

definition NewCompletionUsageObserverWithTerminal ::
  "bool \<Rightarrow> bool \<Rightarrow> bool \<Rightarrow> CompletionUsageObserver option" where
  "NewCompletionUsageObserverWithTerminal strm callback onTerminal =
     newCompletionUsageObserver strm CompletionUsageFormatCompletions callback onTerminal False"

definition NewCompletionUsageObserver :: "bool \<Rightarrow> bool \<Rightarrow> CompletionUsageObserver option" where
  "NewCompletionUsageObserver strm callback = NewCompletionUsageObserverWithTerminal strm callback False"

section \<open>Notifications\<close>

definition emit :: "CompletionUsage \<Rightarrow> CompletionUsageObserver \<Rightarrow> CompletionUsageObserver" where
  "emit usage ob =
     (if \<not> o_callback ob then ob else ob\<lparr>o_log := o_log ob @ [CallUsage usage]\<rparr>)"

definition notifyTerminal :: "CompletionUsageObserver \<Rightarrow> CompletionUsageObserver" where
  "notifyTerminal ob =
     (if o_terminalNotified ob then ob
      else let ob = ob\<lparr>o_terminalNotified := True\<rparr> in
        if o_onTerminal ob then ob\<lparr>o_log := o_log ob @ [CallTerminal]\<rparr> else ob)"

definition emitEvidence :: "CompletionUsageEvidence \<Rightarrow> CompletionUsageObserver \<Rightarrow> CompletionUsageObserver" where
  "emitEvidence evidence ob =
     (if o_evidenceNotified ob then ob
      else let ob = ob\<lparr>o_evidenceNotified := True\<rparr> in
        if o_onEvidence ob then ob\<lparr>o_log := o_log ob @ [CallEvidence evidence]\<rparr> else ob)"

definition evidence_of :: "CompletionUsageEvidenceOutcome \<Rightarrow> CompletionUsage \<Rightarrow> CompletionUsageEvidence" where
  "evidence_of out usage = \<lparr>Outcome = out, Usage = usage\<rparr>"

definition finishStreaming :: "CompletionUsageObserver \<Rightarrow> CompletionUsageObserver" where
  "finishStreaming ob =
     (if o_finished ob then ob
      else let ob = ob\<lparr>o_finished := True\<rparr>;
               ob = (if o_candidateValid ob \<and> \<not> o_candidateInvalid ob then
                       emitEvidence (evidence_of CompletionUsageAvailable (o_candidate ob))
                         (emit (o_candidate ob) ob)
                     else if o_candidateInvalid ob then
                       emitEvidence (evidence_of CompletionUsageMalformed zero_usage) ob
                     else emitEvidence (evidence_of CompletionUsageUnavailable zero_usage) ob)
           in notifyTerminal ob)"

section \<open>Server-sent events\<close>

text \<open>The effect of one event's data on the candidate, before the event buffers are reset.\<close>

definition noteUsage ::
  "clock \<Rightarrow> bytes \<Rightarrow> CompletionUsageObserver \<Rightarrow> CompletionUsageObserver" where
  "noteUsage clk data ob =
     (case decodeCompletionUsageEvidence data True (o_format ob) of
        (usage, CompletionUsageAvailable) \<Rightarrow>
          (let usage = usage\<lparr>ObservedAt := Some (clk (o_ticks ob))\<rparr>;
               ob = ob\<lparr>o_ticks := Suc (o_ticks ob)\<rparr> in
           if o_candidateValid ob then ob\<lparr>o_candidateInvalid := True\<rparr>
           else ob\<lparr>o_candidate := usage, o_candidateValid := True\<rparr>)
      | (usage, CompletionUsageMalformed) \<Rightarrow> ob\<lparr>o_candidateInvalid := True\<rparr>
      | (usage, CompletionUsageUnavailable) \<Rightarrow> ob)"

definition usageMarker :: bytes where
  "usageMarker = [DQUOTE] @ ''usage'' @ [DQUOTE]"

definition finishSSEEvent :: "clock \<Rightarrow> CompletionUsageObserver \<Rightarrow> CompletionUsageObserver" where
  "finishSSEEvent clk ob =
     (let (terminal, ob) =
        (if \<not> o_eventLimited ob \<and> o_eventHasData ob then
           (let data = trim_space (o_eventData ob);
                terminal = (data = ''[DONE]'')
            in (terminal,
                if length data > 0 \<and> \<not> terminal \<and> contains data usageMarker
                then noteUsage clk data ob else ob))
         else if o_eventLimited ob then (False, ob\<lparr>o_candidateInvalid := True\<rparr>)
         else (False, ob));
        ob = ob\<lparr>o_eventData := [], o_eventLimited := False, o_eventHasData := False\<rparr>
      in if terminal then notifyTerminal (ob\<lparr>o_terminalSeen := True\<rparr>) else ob)"

definition processSSELine :: "clock \<Rightarrow> CompletionUsageObserver \<Rightarrow> CompletionUsageObserver" where
  "processSSELine clk ob =
     (let line = trim_suffix [CR] (o_line ob);
          ob = ob\<lparr>o_line := []\<rparr>
      in if length line = 0 then finishSSEEvent clk ob
         else if o_eventLimited ob \<or> line ! 0 = CHR '':'' \<or> \<not> has_prefix ''data:'' line then ob
         else
           (let data = trim_prefix '' '' (trim_prefix ''data:'' line);
                additional = length data + (if o_eventHasData ob then 1 else 0)
            in if length (o_eventData ob) + additional > maximumCompletionUsageSSEBytes then
                 ob\<lparr>o_eventData := [], o_eventLimited := True\<rparr>
               else
                 ob\<lparr>o_eventData := (if o_eventHasData ob then o_eventData ob @ [LF] else o_eventData ob) @ data,
                    o_eventHasData := True\<rparr>))"

fun observeSSE :: "clock \<Rightarrow> bytes \<Rightarrow> CompletionUsageObserver \<Rightarrow> CompletionUsageObserver" where
  "observeSSE clk [] ob = ob"
| "observeSSE clk (value # chunk) ob =
     (if value = LF then
        (let ob = processSSELine clk ob in
         if o_finished ob \<or> o_terminalSeen ob then ob else observeSSE clk chunk ob)
      else if length (o_line ob) < maximumCompletionUsageSSEBytes then
        observeSSE clk chunk (ob\<lparr>o_line := o_line ob @ [value]\<rparr>)
      else observeSSE clk chunk (ob\<lparr>o_eventLimited := True\<rparr>))"

section \<open>JSON bodies\<close>

text \<open>The capacity loop of \<open>observeJSON\<close>. The source replaces a capacity of 0 by 1 before the loop;
  repeating that test in every round changes nothing, since a doubled capacity is not 0.\<close>

function growCapacity :: "nat \<Rightarrow> nat \<Rightarrow> nat" where
  "growCapacity required capacity0 =
     (let capacity = (if capacity0 = 0 then 1 else capacity0) in
      if capacity < required then
        (if capacity \<ge> maximumCompletionUsageJSONBytes div 2 then maximumCompletionUsageJSONBytes
         else growCapacity required (capacity * 2))
      else capacity)"
  by pat_completeness auto
termination
  by (relation "measure (\<lambda>(required, capacity). required - capacity)") auto

declare growCapacity.simps [simp del]

definition observeJSON :: "bytes \<Rightarrow> CompletionUsageObserver \<Rightarrow> CompletionUsageObserver" where
  "observeJSON chunk ob =
     (if o_jsonLimited ob then ob
      else if int (length chunk) > int maximumCompletionUsageJSONBytes - int (length (o_jsonBody ob)) then
        ob\<lparr>o_jsonBody := [], o_jsonCap := 0, o_jsonLimited := True\<rparr>
      else
        (let required = length (o_jsonBody ob) + length chunk;
             ob = (if required > o_jsonCap ob
                   then ob\<lparr>o_jsonCap := growCapacity required (o_jsonCap ob)\<rparr> else ob)
         in ob\<lparr>o_jsonBody := o_jsonBody ob @ chunk\<rparr>))"

section \<open>Exported operations\<close>

text \<open>A nil observer is \<open>None\<close>; every exported method accepts it.\<close>

definition Observe ::
  "clock \<Rightarrow> bytes \<Rightarrow> CompletionUsageObserver option \<Rightarrow> CompletionUsageObserver option" where
  "Observe clk chunk obs =
     (case obs of
        None \<Rightarrow> None
      | Some ob \<Rightarrow>
          if o_finished ob \<or> o_terminalSeen ob \<or> length chunk = 0 then Some ob
          else if \<not> o_streaming ob then Some (observeJSON chunk ob)
          else Some (observeSSE clk chunk ob))"

definition finishJSON :: "clock \<Rightarrow> CompletionUsageObserver \<Rightarrow> CompletionUsageObserver" where
  "finishJSON clk ob =
     (let ob = ob\<lparr>o_finished := True\<rparr> in
      notifyTerminal
       (if o_jsonLimited ob then emitEvidence (evidence_of CompletionUsageMalformed zero_usage) ob
        else if length (o_jsonBody ob) = 0 then
          emitEvidence (evidence_of CompletionUsageUnavailable zero_usage) ob
        else
          (case decodeCompletionUsageEvidence (o_jsonBody ob) False (o_format ob) of
             (usage, outcome) \<Rightarrow>
               if outcome = CompletionUsageAvailable then
                 (let usage = usage\<lparr>ObservedAt := Some (clk (o_ticks ob))\<rparr>;
                      ob = ob\<lparr>o_ticks := Suc (o_ticks ob)\<rparr>
                  in emitEvidence (evidence_of outcome usage) (emit usage ob))
               else emitEvidence (evidence_of outcome usage) ob)))"

text \<open>The streaming half of \<open>Finish\<close>: the second step, then both with the early return between.\<close>

definition finishPending :: "clock \<Rightarrow> CompletionUsageObserver \<Rightarrow> CompletionUsageObserver" where
  "finishPending clk ob =
     finishStreaming
       (if \<not> o_terminalSeen ob \<and> (o_eventHasData ob \<or> o_eventLimited ob)
        then finishSSEEvent clk ob else ob)"

definition finishSSE :: "clock \<Rightarrow> CompletionUsageObserver \<Rightarrow> CompletionUsageObserver" where
  "finishSSE clk ob =
     (if \<not> o_terminalSeen ob \<and> length (o_line ob) > 0 then
        (let ob = processSSELine clk ob in
         if o_finished ob \<or> o_terminalSeen ob then finishStreaming ob else finishPending clk ob)
      else finishPending clk ob)"

definition Finish ::
  "clock \<Rightarrow> CompletionUsageObserver option \<Rightarrow> CompletionUsageObserver option" where
  "Finish clk obs =
     (case obs of
        None \<Rightarrow> None
      | Some ob \<Rightarrow>
          if o_finished ob then Some ob
          else if o_streaming ob then Some (finishSSE clk ob)
          else Some (finishJSON clk ob))"

definition TerminalSeen :: "CompletionUsageObserver option \<Rightarrow> bool" where
  "TerminalSeen obs = (case obs of None \<Rightarrow> False | Some ob \<Rightarrow> o_terminalSeen ob)"

section \<open>Capacity\<close>

lemma growCapacity_ge: "required \<le> maximumCompletionUsageJSONBytes \<Longrightarrow> required \<le> growCapacity required c"
proof (induction required c rule: growCapacity.induct)
  case (1 required c)
  then show ?case
    by (subst growCapacity.simps) (auto simp: Let_def)
qed

lemma growCapacity_le:
  "\<lbrakk>c \<le> maximumCompletionUsageJSONBytes; required \<le> maximumCompletionUsageJSONBytes\<rbrakk>
    \<Longrightarrow> growCapacity required c \<le> maximumCompletionUsageJSONBytes"
proof (induction required c rule: growCapacity.induct)
  case (1 required c)
  then show ?case
    by (subst growCapacity.simps) (auto simp: Let_def maximumCompletionUsageJSONBytes_def)
qed

lemma growCapacity_stop: "\<lbrakk>required \<le> c; 0 < c\<rbrakk> \<Longrightarrow> growCapacity required c = c"
  by (subst growCapacity.simps) simp

lemma growCapacity_zero: "growCapacity required 0 = growCapacity required 1"
  by (subst (1 2) growCapacity.simps) simp

text \<open>Growing in two steps reaches the same capacity as growing at once.\<close>

lemma growCapacity_trans:
  "\<lbrakk>r1 \<le> r2; r2 \<le> maximumCompletionUsageJSONBytes\<rbrakk>
    \<Longrightarrow> growCapacity r2 (growCapacity r1 c) = growCapacity r2 c"
proof (induction r1 c rule: growCapacity.induct)
  case (1 r1 c0)
  define c where "c = (if c0 = 0 then 1 else c0)"
  have pos: "0 < c" by (simp add: c_def)
  have norm: "growCapacity r c0 = growCapacity r c" for r
    by (simp add: c_def growCapacity_zero)
  show ?case
  proof (cases "c < r1")
    case False
    then show ?thesis unfolding norm using pos by (simp add: growCapacity_stop)
  next
    case less: True
    show ?thesis
    proof (cases "c \<ge> maximumCompletionUsageJSONBytes div 2")
      case True
      with less 1 pos show ?thesis
        unfolding norm
        by (simp add: growCapacity.simps [of r1 c] growCapacity.simps [of r2 c] growCapacity_stop)
    next
      case False
      have "growCapacity r2 (growCapacity r1 (c * 2)) = growCapacity r2 (c * 2)"
        using "1.IH" [OF c_def less False] "1.prems" by simp
      with less False "1.prems" pos show ?thesis
        unfolding norm
        by (simp add: growCapacity.simps [of r1 c] growCapacity.simps [of r2 c])
    qed
  qed
qed

section \<open>Chunk independence\<close>

abbreviation stopped :: "CompletionUsageObserver \<Rightarrow> bool" where
  "stopped ob \<equiv> o_finished ob \<or> o_terminalSeen ob"

lemma observeSSE_append:
  "\<not> stopped ob \<Longrightarrow>
     observeSSE clk (a @ b) ob =
       (if stopped (observeSSE clk a ob) then observeSSE clk a ob
        else observeSSE clk b (observeSSE clk a ob))"
  by (induction a arbitrary: ob) (auto simp: Let_def)

text \<open>What the buffers of an observer may hold.\<close>

definition buffers_ok :: "CompletionUsageObserver \<Rightarrow> bool" where
  "buffers_ok ob \<longleftrightarrow>
     length (o_line ob) \<le> maximumCompletionUsageSSEBytes \<and>
     length (o_eventData ob) \<le> maximumCompletionUsageSSEBytes \<and>
     length (o_jsonBody ob) \<le> o_jsonCap ob \<and>
     o_jsonCap ob \<le> maximumCompletionUsageJSONBytes"

text \<open>The three outcomes of \<open>observeJSON\<close> in closed form.\<close>

definition capacityFor :: "nat \<Rightarrow> nat \<Rightarrow> nat" where
  "capacityFor required c = (if required > c then growCapacity required c else c)"

lemma capacityFor_trans:
  assumes "r1 \<le> r2" and "r2 \<le> maximumCompletionUsageJSONBytes"
  shows "capacityFor r2 (capacityFor r1 c) = capacityFor r2 c"
proof (cases "c < r1")
  case True
  moreover have "r1 \<le> growCapacity r1 c" using assms by (intro growCapacity_ge) simp
  ultimately show ?thesis
    using assms growCapacity_trans [of r1 r2 c] growCapacity_stop [of r2 "growCapacity r1 c"]
    by (auto simp: capacityFor_def)
qed (simp add: capacityFor_def)

lemma capacityFor_bounds:
  assumes "c \<le> maximumCompletionUsageJSONBytes" and "required \<le> maximumCompletionUsageJSONBytes"
  shows "required \<le> capacityFor required c" "capacityFor required c \<le> maximumCompletionUsageJSONBytes"
  using assms growCapacity_ge growCapacity_le by (auto simp: capacityFor_def)

lemma observeJSON_limited: "o_jsonLimited ob \<Longrightarrow> observeJSON chunk ob = ob"
  by (simp add: observeJSON_def)

lemma observeJSON_over:
  "\<lbrakk>\<not> o_jsonLimited ob; \<not> length (o_jsonBody ob) + length chunk \<le> maximumCompletionUsageJSONBytes\<rbrakk>
    \<Longrightarrow> observeJSON chunk ob = ob\<lparr>o_jsonBody := [], o_jsonCap := 0, o_jsonLimited := True\<rparr>"
  by (simp add: observeJSON_def)

lemma observeJSON_fits:
  "\<lbrakk>\<not> o_jsonLimited ob; length (o_jsonBody ob) + length chunk \<le> maximumCompletionUsageJSONBytes\<rbrakk>
    \<Longrightarrow> observeJSON chunk ob = ob\<lparr>o_jsonBody := o_jsonBody ob @ chunk,
          o_jsonCap := capacityFor (length (o_jsonBody ob) + length chunk) (o_jsonCap ob)\<rparr>"
  by (simp add: observeJSON_def Let_def capacityFor_def)

lemma observeJSON_append:
  "observeJSON (a @ b) ob = observeJSON b (observeJSON a ob)"
proof -
  let ?n = "length (o_jsonBody ob)"
  consider (limited) "o_jsonLimited ob"
    | (over_a) "\<not> o_jsonLimited ob" "\<not> ?n + length a \<le> maximumCompletionUsageJSONBytes"
    | (over_b) "\<not> o_jsonLimited ob" "?n + length a \<le> maximumCompletionUsageJSONBytes"
        "\<not> ?n + length a + length b \<le> maximumCompletionUsageJSONBytes"
    | (fits) "\<not> o_jsonLimited ob" "?n + length a + length b \<le> maximumCompletionUsageJSONBytes"
    by linarith
  then show ?thesis
  proof cases
    case fits
    then show ?thesis
      by (simp add: observeJSON_fits capacityFor_trans add.assoc)
  next
    case over_a
    then show ?thesis by (simp add: observeJSON_over observeJSON_limited)
  next
    case over_b
    then show ?thesis by (simp add: observeJSON_over observeJSON_fits add.assoc)
  qed (simp add: observeJSON_limited)
qed

section \<open>Bounded buffers\<close>

lemma SSE_le_JSON: "0 < maximumCompletionUsageSSEBytes" "0 < maximumCompletionUsageJSONBytes"
  by (simp_all add: maximumCompletionUsageSSEBytes_def maximumCompletionUsageJSONBytes_def)

text \<open>The notifications in closed form: one flag and the log.\<close>

lemma emit_eq:
  "emit u ob = ob\<lparr>o_log := o_log ob @ (if o_callback ob then [CallUsage u] else [])\<rparr>"
  by (simp add: emit_def)

lemma notifyTerminal_eq:
  "notifyTerminal ob = ob\<lparr>o_terminalNotified := True,
     o_log := o_log ob @ (if \<not> o_terminalNotified ob \<and> o_onTerminal ob then [CallTerminal] else [])\<rparr>"
  by (cases ob) (simp add: notifyTerminal_def)

lemma emitEvidence_eq:
  "emitEvidence e ob = ob\<lparr>o_evidenceNotified := True,
     o_log := o_log ob @ (if \<not> o_evidenceNotified ob \<and> o_onEvidence ob then [CallEvidence e] else [])\<rparr>"
  by (cases ob) (simp add: emitEvidence_def)

lemmas notify_eqs = emit_eq notifyTerminal_eq emitEvidence_eq

text \<open>What one event, and one line, leave alone, and what they do to the flags and the log.\<close>

definition isDone :: "CompletionUsageObserver \<Rightarrow> bool" where
  "isDone ob \<longleftrightarrow> \<not> o_eventLimited ob \<and> o_eventHasData ob \<and> trim_space (o_eventData ob) = ''[DONE]''"

lemma noteUsage_frame [simp]:
  "o_streaming (noteUsage clk data ob) = o_streaming ob"
  "o_format (noteUsage clk data ob) = o_format ob"
  "o_callback (noteUsage clk data ob) = o_callback ob"
  "o_onTerminal (noteUsage clk data ob) = o_onTerminal ob"
  "o_onEvidence (noteUsage clk data ob) = o_onEvidence ob"
  "o_finished (noteUsage clk data ob) = o_finished ob"
  "o_evidenceNotified (noteUsage clk data ob) = o_evidenceNotified ob"
  "o_jsonBody (noteUsage clk data ob) = o_jsonBody ob"
  "o_jsonCap (noteUsage clk data ob) = o_jsonCap ob"
  "o_jsonLimited (noteUsage clk data ob) = o_jsonLimited ob"
  "o_terminalSeen (noteUsage clk data ob) = o_terminalSeen ob"
  "o_terminalNotified (noteUsage clk data ob) = o_terminalNotified ob"
  "o_log (noteUsage clk data ob) = o_log ob"
  "o_line (noteUsage clk data ob) = o_line ob"
  "o_eventData (noteUsage clk data ob) = o_eventData ob"
  "o_eventLimited (noteUsage clk data ob) = o_eventLimited ob"
  "o_eventHasData (noteUsage clk data ob) = o_eventHasData ob"
  by (simp_all add: noteUsage_def Let_def split: prod.split CompletionUsageEvidenceOutcome.split)

lemma finishSSEEvent_frame [simp]:
  "o_streaming (finishSSEEvent clk ob) = o_streaming ob"
  "o_format (finishSSEEvent clk ob) = o_format ob"
  "o_callback (finishSSEEvent clk ob) = o_callback ob"
  "o_onTerminal (finishSSEEvent clk ob) = o_onTerminal ob"
  "o_onEvidence (finishSSEEvent clk ob) = o_onEvidence ob"
  "o_finished (finishSSEEvent clk ob) = o_finished ob"
  "o_evidenceNotified (finishSSEEvent clk ob) = o_evidenceNotified ob"
  "o_jsonBody (finishSSEEvent clk ob) = o_jsonBody ob"
  "o_jsonCap (finishSSEEvent clk ob) = o_jsonCap ob"
  "o_jsonLimited (finishSSEEvent clk ob) = o_jsonLimited ob"
  "o_line (finishSSEEvent clk ob) = o_line ob"
  "o_eventData (finishSSEEvent clk ob) = []"
  "o_eventLimited (finishSSEEvent clk ob) = False"
  "o_eventHasData (finishSSEEvent clk ob) = False"
  by (simp_all add: finishSSEEvent_def notifyTerminal_eq Let_def)

lemma finishSSEEvent_terminal [simp]:
  "o_terminalSeen (finishSSEEvent clk ob) = (o_terminalSeen ob \<or> isDone ob)"
  "o_terminalNotified (finishSSEEvent clk ob) = (o_terminalNotified ob \<or> isDone ob)"
  "o_log (finishSSEEvent clk ob) =
     o_log ob @ (if isDone ob \<and> \<not> o_terminalNotified ob \<and> o_onTerminal ob then [CallTerminal] else [])"
  by (auto simp: finishSSEEvent_def notifyTerminal_eq Let_def isDone_def)

definition lineEndsEvent :: "CompletionUsageObserver \<Rightarrow> bool" where
  "lineEndsEvent ob \<longleftrightarrow> trim_suffix [CR] (o_line ob) = []"

lemma isDone_line [simp]: "isDone (ob\<lparr>o_line := l\<rparr>) = isDone ob"
  by (simp add: isDone_def)

lemma processSSELine_frame [simp]:
  "o_streaming (processSSELine clk ob) = o_streaming ob"
  "o_format (processSSELine clk ob) = o_format ob"
  "o_callback (processSSELine clk ob) = o_callback ob"
  "o_onTerminal (processSSELine clk ob) = o_onTerminal ob"
  "o_onEvidence (processSSELine clk ob) = o_onEvidence ob"
  "o_finished (processSSELine clk ob) = o_finished ob"
  "o_evidenceNotified (processSSELine clk ob) = o_evidenceNotified ob"
  "o_jsonBody (processSSELine clk ob) = o_jsonBody ob"
  "o_jsonCap (processSSELine clk ob) = o_jsonCap ob"
  "o_jsonLimited (processSSELine clk ob) = o_jsonLimited ob"
  "o_line (processSSELine clk ob) = []"
  by (simp_all add: processSSELine_def Let_def)

lemma processSSELine_terminal [simp]:
  "o_terminalSeen (processSSELine clk ob) = (o_terminalSeen ob \<or> (lineEndsEvent ob \<and> isDone ob))"
  "o_terminalNotified (processSSELine clk ob) = (o_terminalNotified ob \<or> (lineEndsEvent ob \<and> isDone ob))"
  "o_log (processSSELine clk ob) =
     o_log ob @ (if lineEndsEvent ob \<and> isDone ob \<and> \<not> o_terminalNotified ob \<and> o_onTerminal ob
                 then [CallTerminal] else [])"
  by (auto simp: processSSELine_def Let_def lineEndsEvent_def)

lemma observeSSE_frame [simp]:
  "o_streaming (observeSSE clk chunk ob) = o_streaming ob"
  "o_format (observeSSE clk chunk ob) = o_format ob"
  "o_callback (observeSSE clk chunk ob) = o_callback ob"
  "o_onTerminal (observeSSE clk chunk ob) = o_onTerminal ob"
  "o_onEvidence (observeSSE clk chunk ob) = o_onEvidence ob"
  "o_finished (observeSSE clk chunk ob) = o_finished ob"
  "o_evidenceNotified (observeSSE clk chunk ob) = o_evidenceNotified ob"
  "o_jsonBody (observeSSE clk chunk ob) = o_jsonBody ob"
  "o_jsonCap (observeSSE clk chunk ob) = o_jsonCap ob"
  "o_jsonLimited (observeSSE clk chunk ob) = o_jsonLimited ob"
  by (induction chunk arbitrary: ob) (simp_all add: Let_def)

lemma observeJSON_frame [simp]:
  "o_streaming (observeJSON chunk ob) = o_streaming ob"
  "o_format (observeJSON chunk ob) = o_format ob"
  "o_callback (observeJSON chunk ob) = o_callback ob"
  "o_onTerminal (observeJSON chunk ob) = o_onTerminal ob"
  "o_onEvidence (observeJSON chunk ob) = o_onEvidence ob"
  "o_finished (observeJSON chunk ob) = o_finished ob"
  "o_evidenceNotified (observeJSON chunk ob) = o_evidenceNotified ob"
  "o_terminalSeen (observeJSON chunk ob) = o_terminalSeen ob"
  "o_terminalNotified (observeJSON chunk ob) = o_terminalNotified ob"
  "o_log (observeJSON chunk ob) = o_log ob"
  "o_line (observeJSON chunk ob) = o_line ob"
  "o_eventData (observeJSON chunk ob) = o_eventData ob"
  "o_eventLimited (observeJSON chunk ob) = o_eventLimited ob"
  "o_eventHasData (observeJSON chunk ob) = o_eventHasData ob"
  "o_ticks (observeJSON chunk ob) = o_ticks ob"
  "o_candidate (observeJSON chunk ob) = o_candidate ob"
  "o_candidateValid (observeJSON chunk ob) = o_candidateValid ob"
  "o_candidateInvalid (observeJSON chunk ob) = o_candidateInvalid ob"
  by (simp_all add: observeJSON_def Let_def)

lemma finishStreaming_frame [simp]:
  "o_streaming (finishStreaming ob) = o_streaming ob"
  "o_format (finishStreaming ob) = o_format ob"
  "o_callback (finishStreaming ob) = o_callback ob"
  "o_onTerminal (finishStreaming ob) = o_onTerminal ob"
  "o_onEvidence (finishStreaming ob) = o_onEvidence ob"
  "o_jsonBody (finishStreaming ob) = o_jsonBody ob"
  "o_jsonCap (finishStreaming ob) = o_jsonCap ob"
  "o_jsonLimited (finishStreaming ob) = o_jsonLimited ob"
  "o_terminalSeen (finishStreaming ob) = o_terminalSeen ob"
  "o_line (finishStreaming ob) = o_line ob"
  "o_eventData (finishStreaming ob) = o_eventData ob"
  "o_eventLimited (finishStreaming ob) = o_eventLimited ob"
  "o_eventHasData (finishStreaming ob) = o_eventHasData ob"
  "o_finished (finishStreaming ob)"
  by (simp_all add: finishStreaming_def Let_def notify_eqs)

lemma finishJSON_frame [simp]:
  "o_streaming (finishJSON clk ob) = o_streaming ob"
  "o_format (finishJSON clk ob) = o_format ob"
  "o_callback (finishJSON clk ob) = o_callback ob"
  "o_onTerminal (finishJSON clk ob) = o_onTerminal ob"
  "o_onEvidence (finishJSON clk ob) = o_onEvidence ob"
  "o_jsonBody (finishJSON clk ob) = o_jsonBody ob"
  "o_jsonCap (finishJSON clk ob) = o_jsonCap ob"
  "o_jsonLimited (finishJSON clk ob) = o_jsonLimited ob"
  "o_terminalSeen (finishJSON clk ob) = o_terminalSeen ob"
  "o_line (finishJSON clk ob) = o_line ob"
  "o_eventData (finishJSON clk ob) = o_eventData ob"
  "o_eventLimited (finishJSON clk ob) = o_eventLimited ob"
  "o_eventHasData (finishJSON clk ob) = o_eventHasData ob"
  "o_finished (finishJSON clk ob)"
  by (simp_all add: finishJSON_def Let_def notify_eqs split: prod.split)

section \<open>Invariant\<close>

lemma buffers_processSSELine:
  assumes "buffers_ok ob"
  shows "buffers_ok (processSSELine clk ob)"
  using assms
  by (auto simp: buffers_ok_def) (auto simp: processSSELine_def Let_def)

lemma buffers_finishSSEEvent: "buffers_ok ob \<Longrightarrow> buffers_ok (finishSSEEvent clk ob)"
  by (simp add: buffers_ok_def)

lemma buffers_observeSSE: "buffers_ok ob \<Longrightarrow> buffers_ok (observeSSE clk chunk ob)"
proof (induction chunk arbitrary: ob)
  case (Cons c chunk)
  have "buffers_ok (ob\<lparr>o_line := o_line ob @ [c]\<rparr>)" if "length (o_line ob) < maximumCompletionUsageSSEBytes"
    using Cons.prems that by (simp add: buffers_ok_def)
  moreover have "buffers_ok (ob\<lparr>o_eventLimited := True\<rparr>)" using Cons.prems by (simp add: buffers_ok_def)
  ultimately show ?case using Cons by (simp add: Let_def buffers_processSSELine)
qed simp

lemma buffers_observeJSON:
  assumes "buffers_ok ob"
  shows "buffers_ok (observeJSON chunk ob)"
proof (cases "o_jsonLimited ob")
  case False
  note ob = assms [unfolded buffers_ok_def]
  show ?thesis
  proof (cases "length (o_jsonBody ob) + length chunk \<le> maximumCompletionUsageJSONBytes")
    case True
    with False ob capacityFor_bounds [of "o_jsonCap ob" "length (o_jsonBody ob) + length chunk"]
    show ?thesis by (simp add: buffers_ok_def observeJSON_fits)
  next
    case over: False
    with False ob show ?thesis by (simp add: buffers_ok_def observeJSON_over)
  qed
qed (simp add: assms observeJSON_limited)

text \<open>The log an observer may have: nothing before the response is over; the terminal call as soon
  as \<open>[DONE]\<close> is seen; and when it finishes, the result calls and (unless made already) the terminal
  call.\<close>

definition terminal_call :: "CompletionUsageObserver \<Rightarrow> callback_event list" where
  "terminal_call ob = (if o_onTerminal ob then [CallTerminal] else [])"

definition result_calls ::
  "CompletionUsageObserver \<Rightarrow> CompletionUsage \<times> CompletionUsageEvidenceOutcome \<Rightarrow> callback_event list" where
  "result_calls ob r =
     (if snd r = CompletionUsageAvailable \<and> o_callback ob then [CallUsage (fst r)] else []) @
     (if o_onEvidence ob then [CallEvidence (evidence_of (snd r) (fst r))] else [])"

definition log_of ::
  "CompletionUsageObserver \<Rightarrow> CompletionUsage \<times> CompletionUsageEvidenceOutcome \<Rightarrow> callback_event list" where
  "log_of ob r =
     (if o_terminalSeen ob then terminal_call ob @ (if o_finished ob then result_calls ob r else [])
      else if o_finished ob then result_calls ob r @ terminal_call ob
      else [])"

definition result_ok :: "CompletionUsage \<times> CompletionUsageEvidenceOutcome \<Rightarrow> bool" where
  "result_ok r \<longleftrightarrow> (snd r \<noteq> CompletionUsageAvailable \<longrightarrow> fst r = zero_usage)"

definition obs_inv :: "CompletionUsageObserver \<Rightarrow> bool" where
  "obs_inv ob \<longleftrightarrow>
     buffers_ok ob \<and>
     (o_terminalSeen ob \<longrightarrow> o_streaming ob) \<and>
     (o_evidenceNotified ob \<longleftrightarrow> o_finished ob) \<and>
     (o_terminalNotified ob \<longleftrightarrow> stopped ob) \<and>
     (\<exists>r. result_ok r \<and> o_log ob = log_of ob r)"

text \<open>The result a streaming observer delivers when it finishes.\<close>

definition stream_result :: "CompletionUsageObserver \<Rightarrow> CompletionUsage \<times> CompletionUsageEvidenceOutcome" where
  "stream_result ob =
     (if o_candidateInvalid ob then malformed
      else if o_candidateValid ob then (o_candidate ob, CompletionUsageAvailable)
      else unavailable)"

definition body_result :: "clock \<Rightarrow> CompletionUsageObserver \<Rightarrow> CompletionUsage \<times> CompletionUsageEvidenceOutcome" where
  "body_result clk ob =
     (if o_jsonLimited ob then malformed
      else if o_jsonBody ob = [] then unavailable
      else case decodeCompletionUsageEvidence (o_jsonBody ob) False (o_format ob) of
        (usage, outcome) \<Rightarrow>
          if outcome = CompletionUsageAvailable
          then (usage\<lparr>ObservedAt := Some (clk (o_ticks ob))\<rparr>, outcome) else (usage, outcome))"

lemma stream_result_ok: "result_ok (stream_result ob)"
  by (simp add: result_ok_def stream_result_def)

lemma body_result_ok: "result_ok (body_result clk ob)"
  by (auto simp: result_ok_def body_result_def split: prod.split dest: decode_unavailable_zero)

lemma finishStreaming_log:
  assumes "\<not> o_finished ob" and "\<not> o_evidenceNotified ob"
    and "o_terminalNotified ob \<longleftrightarrow> o_terminalSeen ob"
    and "o_log ob = (if o_terminalSeen ob then terminal_call ob else [])"
  shows "o_log (finishStreaming ob) = log_of (finishStreaming ob) (stream_result ob)"
    and "o_evidenceNotified (finishStreaming ob)" and "o_terminalNotified (finishStreaming ob)"
  using assms
  by (auto simp: finishStreaming_def Let_def notify_eqs log_of_def result_calls_def terminal_call_def
      stream_result_def)

lemma finishJSON_log:
  assumes "\<not> o_evidenceNotified ob" "\<not> o_terminalNotified ob" "\<not> o_terminalSeen ob" "o_log ob = []"
  shows "o_log (finishJSON clk ob) = log_of (finishJSON clk ob) (body_result clk ob)"
    and "o_evidenceNotified (finishJSON clk ob)" and "o_terminalNotified (finishJSON clk ob)"
  using assms
  by (auto simp: finishJSON_def Let_def notify_eqs log_of_def result_calls_def terminal_call_def
      body_result_def split: prod.split)

lemma result_ok_ex [simp]: "\<exists>a b. result_ok (a, b)"
  using stream_result_ok by (metis surj_pair)

lemma inv_new: "newCompletionUsageObserver strm fmt cb ot oe = Some ob \<Longrightarrow> obs_inv ob"
  by (auto simp: newCompletionUsageObserver_def obs_inv_def buffers_ok_def log_of_def
      split: if_splits)

text \<open>Before it stops, an observer has an empty log and no flag set.\<close>

lemma inv_running:
  "\<not> stopped ob \<Longrightarrow> obs_inv ob \<longleftrightarrow>
     buffers_ok ob \<and> \<not> o_evidenceNotified ob \<and> \<not> o_terminalNotified ob \<and> o_log ob = []"
  by (auto simp: obs_inv_def log_of_def)

lemma inv_done:
  "\<not> o_finished ob \<Longrightarrow> o_terminalSeen ob \<Longrightarrow> obs_inv ob \<longleftrightarrow>
     buffers_ok ob \<and> o_streaming ob \<and> \<not> o_evidenceNotified ob \<and> o_terminalNotified ob \<and>
     o_log ob = terminal_call ob"
  by (auto simp: obs_inv_def log_of_def)

lemma inv_processSSELine:
  assumes "obs_inv ob" "\<not> stopped ob" "o_streaming ob"
  shows "obs_inv (processSSELine clk ob)"
proof (cases "lineEndsEvent ob \<and> isDone ob")
  case True
  with assms show ?thesis
    by (simp add: inv_done inv_running buffers_processSSELine terminal_call_def)
next
  case False
  with assms show ?thesis
    by (auto simp: inv_running buffers_processSSELine)
qed

lemma inv_finishSSEEvent:
  assumes "obs_inv ob" "\<not> stopped ob" "o_streaming ob"
  shows "obs_inv (finishSSEEvent clk ob)"
proof (cases "isDone ob")
  case True
  with assms show ?thesis
    by (simp add: inv_done inv_running buffers_finishSSEEvent terminal_call_def)
next
  case False
  with assms show ?thesis
    by (simp add: inv_running buffers_finishSSEEvent)
qed

lemma inv_observeSSE:
  "\<lbrakk>obs_inv ob; \<not> stopped ob; o_streaming ob\<rbrakk> \<Longrightarrow> obs_inv (observeSSE clk chunk ob)"
proof (induction chunk arbitrary: ob)
  case (Cons c chunk)
  have "buffers_ok (ob\<lparr>o_line := o_line ob @ [c]\<rparr>)" if "length (o_line ob) < maximumCompletionUsageSSEBytes"
    using Cons.prems that by (simp add: obs_inv_def buffers_ok_def)
  moreover have "buffers_ok (ob\<lparr>o_eventLimited := True\<rparr>)"
    using Cons.prems by (simp add: obs_inv_def buffers_ok_def)
  moreover have "obs_inv (processSSELine clk ob)" using Cons.prems by (rule inv_processSSELine)
  moreover note Cons.IH [of "processSSELine clk ob"]
  ultimately show ?case
    using Cons.prems Cons.IH [of "ob\<lparr>o_line := o_line ob @ [c]\<rparr>"] Cons.IH [of "ob\<lparr>o_eventLimited := True\<rparr>"]
    by (simp add: Let_def inv_running del: processSSELine_terminal)
qed simp

lemma inv_observeJSON: "\<lbrakk>obs_inv ob; \<not> stopped ob\<rbrakk> \<Longrightarrow> obs_inv (observeJSON chunk ob)"
  by (simp add: inv_running buffers_observeJSON)

lemma inv_finishStreaming:
  assumes "obs_inv ob" "\<not> o_finished ob" "o_streaming ob"
  shows "obs_inv (finishStreaming ob)"
proof -
  have "\<not> o_evidenceNotified ob" "o_terminalNotified ob \<longleftrightarrow> o_terminalSeen ob"
    "o_log ob = (if o_terminalSeen ob then terminal_call ob else [])"
    using assms by (auto simp: obs_inv_def log_of_def)
  note log = finishStreaming_log [OF assms(2) this]
  have "buffers_ok (finishStreaming ob)"
    using assms by (simp add: obs_inv_def buffers_ok_def)
  with log assms(3) show ?thesis
    unfolding obs_inv_def using stream_result_ok [of ob] by (auto simp del: split_paired_Ex)
qed

lemma inv_finishJSON:
  assumes "obs_inv ob" "\<not> o_finished ob" "\<not> o_streaming ob"
  shows "obs_inv (finishJSON clk ob)"
proof -
  have run: "\<not> stopped ob" using assms by (auto simp: obs_inv_def)
  with assms have "\<not> o_evidenceNotified ob" "\<not> o_terminalNotified ob" "\<not> o_terminalSeen ob" "o_log ob = []"
    by (auto simp: inv_running)
  note log = finishJSON_log [OF this]
  have "buffers_ok (finishJSON clk ob)"
    using assms by (simp add: obs_inv_def buffers_ok_def)
  with log run show ?thesis
    unfolding obs_inv_def using body_result_ok [of clk ob] by (auto simp del: split_paired_Ex)
qed

lemma inv_finishPending:
  assumes "obs_inv ob" "\<not> o_finished ob" "o_streaming ob"
  shows "obs_inv (finishPending clk ob)"
  unfolding finishPending_def using assms
  by (auto intro!: inv_finishStreaming inv_finishSSEEvent)

lemma inv_finishSSE:
  assumes "obs_inv ob" "\<not> o_finished ob" "o_streaming ob"
  shows "obs_inv (finishSSE clk ob)"
  unfolding finishSSE_def Let_def using assms
  by (auto intro!: inv_finishStreaming inv_finishPending inv_processSSELine)

definition observer_inv :: "CompletionUsageObserver option \<Rightarrow> bool" where
  "observer_inv obs = (case obs of None \<Rightarrow> True | Some ob \<Rightarrow> obs_inv ob)"

lemma inv_Observe: "observer_inv obs \<Longrightarrow> observer_inv (Observe clk chunk obs)"
  by (auto simp: observer_inv_def Observe_def inv_observeSSE inv_observeJSON split: option.splits)

lemma inv_Finish: "observer_inv obs \<Longrightarrow> observer_inv (Finish clk obs)"
  by (auto simp: observer_inv_def Finish_def inv_finishSSE inv_finishJSON split: option.splits)

section \<open>The contract a response body relies on\<close>

text \<open>
  An observer of a byte stream: how the stream is cut into chunks does not matter, and once finished
  it ignores further calls.
\<close>

datatype observer_op = OpObserve bytes | OpFinish

locale chunk_observer =
  fixes observe :: "bytes \<Rightarrow> 's \<Rightarrow> 's"
    and finish :: "'s \<Rightarrow> 's"
    and invar :: "'s \<Rightarrow> bool"
  assumes observe_Nil: "observe [] s = s"
    and observe_append: "invar s \<Longrightarrow> observe (a @ b) s = observe b (observe a s)"
    and observe_finish: "invar s \<Longrightarrow> observe a (finish s) = finish s"
    and finish_finish: "invar s \<Longrightarrow> finish (finish s) = finish s"
    and invar_observe: "invar s \<Longrightarrow> invar (observe a s)"
    and invar_finish: "invar s \<Longrightarrow> invar (finish s)"
begin

fun run_op :: "observer_op \<Rightarrow> 's \<Rightarrow> 's" where
  "run_op (OpObserve a) s = observe a s"
| "run_op OpFinish s = finish s"

lemma invar_run: "invar s \<Longrightarrow> invar (fold run_op ops s)"
proof (induction ops arbitrary: s)
  case (Cons op ops)
  then show ?case by (cases op) (simp_all add: invar_observe invar_finish)
qed simp

lemma observe_chunks: "invar s \<Longrightarrow> fold observe cs s = observe (concat cs) s"
  by (induction cs arbitrary: s) (simp_all add: observe_Nil observe_append invar_observe)

lemma after_finish: "invar s \<Longrightarrow> fold run_op ops (finish s) = finish s"
proof (induction ops)
  case (Cons op ops)
  then show ?case by (cases op) (simp_all add: observe_finish finish_finish)
qed simp

lemma run_to_finish:
  assumes "invar s"
  shows "fold run_op (map OpObserve cs @ OpFinish # ops) s = finish (observe (concat cs) s)"
proof -
  have "fold run_op (map OpObserve cs) s = fold observe cs s"
    by (induction cs arbitrary: s) simp_all
  then show ?thesis
    using assms by (simp add: observe_chunks after_finish invar_observe)
qed

end

lemma Finish_finished: "Finish clk (Some ob) = Some ob' \<Longrightarrow> o_finished ob'"
  by (auto simp: Finish_def finishSSE_def finishPending_def Let_def split: if_splits)

lemma Finish_None [simp]: "Finish clk None = None"
  by (simp add: Finish_def)

lemma Observe_stopped: "stopped ob \<Longrightarrow> Observe clk a (Some ob) = Some ob"
  unfolding Observe_def by auto

lemma Observe_running:
  "\<lbrakk>\<not> stopped ob; a \<noteq> []\<rbrakk> \<Longrightarrow>
     Observe clk a (Some ob) = Some (if o_streaming ob then observeSSE clk a ob else observeJSON a ob)"
  by (simp add: Observe_def)

lemma Observe_Nil [simp]: "Observe clk [] obs = obs"
  by (simp add: Observe_def split: option.split)

lemma Observe_None [simp]: "Observe clk a None = None"
  by (simp add: Observe_def)

lemma Observe_append: "Observe clk (a @ b) obs = Observe clk b (Observe clk a obs)"
proof (cases obs)
  case (Some ob)
  consider "stopped ob" | "a = []" | "b = []" | (run) "\<not> stopped ob" "a \<noteq> []" "b \<noteq> []" by blast
  then show ?thesis
  proof cases
    case run
    show ?thesis
    proof (cases "o_streaming ob")
      case True
      with run Some show ?thesis
        by (simp add: Observe_running observeSSE_append)
           (simp add: Observe_stopped Observe_running)
    next
      case False
      with run Some show ?thesis
        by (simp add: Observe_running observeJSON_append)
    qed
  qed (use Some in \<open>simp_all add: Observe_stopped\<close>)
qed simp

interpretation usage_observer: chunk_observer "Observe clk" "Finish clk" observer_inv for clk
proof unfold_locales
  fix a b :: bytes and obs
  show "Observe clk [] obs = obs" by simp
  assume inv: "observer_inv obs"
  show "Observe clk (a @ b) obs = Observe clk b (Observe clk a obs)" by (rule Observe_append)
  have fin: "o_finished ob'" if "Finish clk obs = Some ob'" for ob'
    using that by (cases obs) (auto dest: Finish_finished)
  show "Observe clk a (Finish clk obs) = Finish clk obs"
    using fin by (cases "Finish clk obs") (simp_all add: Observe_stopped)
  show "Finish clk (Finish clk obs) = Finish clk obs"
    using fin by (cases "Finish clk obs") (simp_all add: Finish_def)
  show "observer_inv (Observe clk a obs)" using inv by (rule inv_Observe)
  show "observer_inv (Finish clk obs)" using inv by (rule inv_Finish)
qed

end
