(* ===== verification/Observer_Spec.thy ===== *)
theory Observer_Spec
  imports Observer
begin

text \<open>
  What the observer promises, stated without its buffers and flags: the events of a whole
  server-sent-event stream, the verdict on their outcomes, and the result of a plain JSON body; and
  the refinement lemmas that the incremental code delivers exactly these results, once.
\<close>

section \<open>Reference semantics of a stream\<close>

datatype sse_event = Oversized | Event bytes

fun join_lf :: "bytes list \<Rightarrow> bytes" where
  "join_lf [] = []"
| "join_lf [x] = x"
| "join_lf (x # xs) = x @ LF # join_lf xs"

text \<open>The text of a line: what the line buffer keeps, without a trailing carriage return.\<close>

definition line_text :: "bytes \<Rightarrow> bytes" where
  "line_text l = trim_suffix [CR] (take maximumCompletionUsageSSEBytes l)"

definition line_data :: "bytes \<Rightarrow> bytes option" where
  "line_data t = (if has_prefix ''data:'' t then Some (trim_prefix '' '' (trim_prefix ''data:'' t)) else None)"

definition flush :: "bool \<Rightarrow> bytes list \<Rightarrow> sse_event list" where
  "flush over parts = (if over then [Oversized] else if parts = [] then [] else [Event (join_lf parts)])"

text \<open>Lines to events: a blank line, or the end of the stream, ends an event. An event is oversized
  when a line or the joined data exceeds the limit.\<close>

definition next_pending :: "bool \<Rightarrow> bytes list \<Rightarrow> bytes \<Rightarrow> bool \<times> bytes list" where
  "next_pending over parts l =
     (if over \<or> length l > maximumCompletionUsageSSEBytes then (True, [])
      else case line_data (line_text l) of
        None \<Rightarrow> (False, parts)
      | Some d \<Rightarrow>
          if length (join_lf (parts @ [d])) > maximumCompletionUsageSSEBytes then (True, [])
          else (False, parts @ [d]))"

fun sse_events :: "bool \<Rightarrow> bytes list \<Rightarrow> bytes list \<Rightarrow> sse_event list" where
  "sse_events over parts [] = flush over parts"
| "sse_events over parts (l # ls) =
     (if line_text l = [] then flush over parts @ sse_events False [] ls
      else case next_pending over parts l of (over', parts') \<Rightarrow> sse_events over' parts' ls)"

definition stream_events :: "bytes \<Rightarrow> sse_event list" where
  "stream_events input = sse_events False [] (split_on LF input)"

definition is_done :: "sse_event \<Rightarrow> bool" where
  "is_done e = (case e of Event d \<Rightarrow> trim_space d = ''[DONE]'' | Oversized \<Rightarrow> False)"

definition event_outcome ::
  "CompletionUsageFormat \<Rightarrow> sse_event \<Rightarrow> CompletionUsage \<times> CompletionUsageEvidenceOutcome" where
  "event_outcome fmt e =
     (case e of
        Oversized \<Rightarrow> malformed
      | Event d \<Rightarrow>
          if contains (trim_space d) usageMarker
          then decodeCompletionUsageEvidence (trim_space d) True fmt else unavailable)"

type_synonym outcomes = "(CompletionUsage \<times> CompletionUsageEvidenceOutcome) list"

definition avail :: "outcomes \<Rightarrow> CompletionUsage list" where
  "avail outs = map fst (filter (\<lambda>r. snd r = CompletionUsageAvailable) outs)"

definition spoiled :: "outcomes \<Rightarrow> bool" where
  "spoiled outs \<longleftrightarrow> CompletionUsageMalformed \<in> snd ` set outs \<or> length (avail outs) \<ge> 2"

text \<open>The verdict: exactly one usable report and nothing suspicious.\<close>

definition verdict :: "clock \<Rightarrow> outcomes \<Rightarrow> CompletionUsage \<times> CompletionUsageEvidenceOutcome" where
  "verdict clk outs =
     (if spoiled outs then malformed
      else case avail outs of
        [] \<Rightarrow> unavailable
      | u # _ \<Rightarrow> (u\<lparr>ObservedAt := Some (clk 0)\<rparr>, CompletionUsageAvailable))"

definition stream_outcomes :: "CompletionUsageFormat \<Rightarrow> sse_event list \<Rightarrow> outcomes" where
  "stream_outcomes fmt evs = map (event_outcome fmt) (takeWhile (\<lambda>e. \<not> is_done e) evs)"

definition has_done :: "sse_event list \<Rightarrow> bool" where
  "has_done evs \<longleftrightarrow> (\<exists>e \<in> set evs. is_done e)"

text \<open>The calls a finished observer must have made, for a given result.\<close>

definition expected_calls ::
  "bool \<Rightarrow> bool \<Rightarrow> bool \<Rightarrow> bool \<Rightarrow> CompletionUsage \<times> CompletionUsageEvidenceOutcome \<Rightarrow> callback_event list" where
  "expected_calls callback onTerminal onEvidence done r =
     (let result = (if snd r = CompletionUsageAvailable \<and> callback then [CallUsage (fst r)] else []) @
                   (if onEvidence then [CallEvidence (evidence_of (snd r) (fst r))] else []);
          terminal = (if onTerminal then [CallTerminal] else [])
      in if done then terminal @ result else result @ terminal)"

lemma log_of_finished:
  "o_finished ob \<Longrightarrow> log_of ob r =
     expected_calls (o_callback ob) (o_onTerminal ob) (o_onEvidence ob) (o_terminalSeen ob) r"
  by (simp add: log_of_def expected_calls_def result_calls_def terminal_call_def)

section \<open>Simulation\<close>

lemma join_lf_snoc: "join_lf (parts @ [d]) = (if parts = [] then d else join_lf parts @ LF # d)"
  by (induction parts rule: join_lf.induct) auto

lemma avail_append: "avail (a @ b) = avail a @ avail b"
  by (simp add: avail_def)

definition cand_ok :: "clock \<Rightarrow> outcomes \<Rightarrow> CompletionUsageObserver \<Rightarrow> bool" where
  "cand_ok clk outs ob \<longleftrightarrow>
     o_candidateInvalid ob = spoiled outs \<and>
     o_candidateValid ob = (avail outs \<noteq> []) \<and>
     (avail outs \<noteq> [] \<longrightarrow> o_candidate ob = (hd (avail outs))\<lparr>ObservedAt := Some (clk 0)\<rparr>) \<and>
     o_ticks ob = length (avail outs)"

lemma cand_ok_result: "cand_ok clk outs ob \<Longrightarrow> stream_result ob = verdict clk outs"
  by (auto simp: cand_ok_def stream_result_def verdict_def split: list.splits)

definition pending_ok :: "bool \<Rightarrow> bytes list \<Rightarrow> CompletionUsageObserver \<Rightarrow> bool" where
  "pending_ok over parts ob \<longleftrightarrow>
     o_eventLimited ob = over \<and>
     (\<not> over \<longrightarrow> o_eventHasData ob = (parts \<noteq> []) \<and> o_eventData ob = join_lf parts)"

lemma avail_single: "avail [(u, out)] = (if out = CompletionUsageAvailable then [u] else [])"
  by (simp add: avail_def)

lemma spoiled_snoc:
  "spoiled (outs @ [(u, out)]) \<longleftrightarrow>
     spoiled outs \<or> out = CompletionUsageMalformed \<or> (out = CompletionUsageAvailable \<and> avail outs \<noteq> [])"
  by (cases "avail outs") (auto simp: spoiled_def avail_append avail_single)

lemma noteUsage_cand:
  assumes "cand_ok clk outs ob"
  shows "cand_ok clk (outs @ [decodeCompletionUsageEvidence data True (o_format ob)]) (noteUsage clk data ob)"
proof -
  obtain u out where d: "decodeCompletionUsageEvidence data True (o_format ob) = (u, out)"
    by (cases "decodeCompletionUsageEvidence data True (o_format ob)")
  note a = avail_single
  show ?thesis
  proof (cases out)
    case CompletionUsageUnavailable
    with assms d a show ?thesis
      by (simp add: cand_ok_def noteUsage_def spoiled_snoc avail_append)
  next
    case CompletionUsageMalformed
    with assms d a show ?thesis
      by (simp add: cand_ok_def noteUsage_def spoiled_snoc avail_append)
  next
    case CompletionUsageAvailable
    with assms d a show ?thesis
      by (cases "avail outs") (simp_all add: cand_ok_def noteUsage_def spoiled_snoc avail_append Let_def)
  qed
qed

lemma cand_ok_skip: "cand_ok clk outs ob \<Longrightarrow> cand_ok clk (outs @ [unavailable]) ob"
  by (simp add: cand_ok_def spoiled_snoc avail_append avail_single)

lemma cand_ok_frame:
  "cand_ok clk outs (ob\<lparr>o_line := l\<rparr>) = cand_ok clk outs ob"
  "cand_ok clk outs (ob\<lparr>o_eventLimited := b\<rparr>) = cand_ok clk outs ob"
  "cand_ok clk outs (ob\<lparr>o_eventData := d\<rparr>) = cand_ok clk outs ob"
  "cand_ok clk outs (ob\<lparr>o_eventHasData := h\<rparr>) = cand_ok clk outs ob"
  "cand_ok clk outs (ob\<lparr>o_terminalSeen := t\<rparr>) = cand_ok clk outs ob"
  "cand_ok clk outs (notifyTerminal ob) = cand_ok clk outs ob"
  by (simp_all add: cand_ok_def notifyTerminal_eq)

lemma marker_not_done: "contains d usageMarker \<Longrightarrow> d \<noteq> [] \<and> d \<noteq> ''[DONE]''"
  by (auto simp: usageMarker_def)

lemma finishSSEEvent_data:
  assumes "\<not> o_eventLimited ob" "o_eventHasData ob"
  shows "finishSSEEvent clk ob =
    (let d = trim_space (o_eventData ob);
         ob' = (if contains d usageMarker then noteUsage clk d ob else ob)
               \<lparr>o_eventData := [], o_eventLimited := False, o_eventHasData := False\<rparr>
     in if d = ''[DONE]'' then notifyTerminal (ob'\<lparr>o_terminalSeen := True\<rparr>) else ob')"
  using assms marker_not_done [of "trim_space (o_eventData ob)"]
  by (auto simp: finishSSEEvent_def Let_def)

lemma finishSSEEvent_pending: "pending_ok False [] (finishSSEEvent clk ob)"
  by (simp add: pending_ok_def)

lemma isDone_flush: "pending_ok over parts ob \<Longrightarrow> isDone ob \<longleftrightarrow> has_done (flush over parts)"
  by (auto simp: pending_ok_def isDone_def flush_def has_done_def is_done_def)

lemma finishSSEEvent_cand:
  assumes p: "pending_ok over parts ob" and c: "cand_ok clk outs ob"
  shows "cand_ok clk (outs @ stream_outcomes (o_format ob) (flush over parts)) (finishSSEEvent clk ob)"
proof -
  consider (over) over | (none) "\<not> over" "parts = []" | (data) "\<not> over" "parts \<noteq> []" by blast
  then show ?thesis
  proof cases
    case over
    with p c show ?thesis
      by (simp add: pending_ok_def finishSSEEvent_def flush_def stream_outcomes_def is_done_def
          event_outcome_def cand_ok_def spoiled_snoc avail_append avail_single)
  next
    case none
    with p c show ?thesis
      by (simp add: pending_ok_def finishSSEEvent_def flush_def stream_outcomes_def cand_ok_def)
  next
    case data
    let ?d = "trim_space (join_lf parts)"
    from data p have ob: "\<not> o_eventLimited ob" "o_eventHasData ob" "o_eventData ob = join_lf parts"
      by (auto simp: pending_ok_def)
    show ?thesis
    proof (cases "contains ?d usageMarker")
      case True
      with data marker_not_done [OF True] have "stream_outcomes (o_format ob) (flush over parts) =
          [decodeCompletionUsageEvidence ?d True (o_format ob)]"
        by (simp add: flush_def stream_outcomes_def is_done_def event_outcome_def)
      with True marker_not_done [OF True] ob noteUsage_cand [OF c, of ?d] show ?thesis
        by (simp add: finishSSEEvent_data Let_def cand_ok_frame)
    next
      case False
      with data have "stream_outcomes (o_format ob) (flush over parts) = (if ?d = ''[DONE]'' then [] else [unavailable])"
        by (simp add: flush_def stream_outcomes_def is_done_def event_outcome_def)
      with False ob c cand_ok_skip [OF c] show ?thesis
        by (cases "?d = ''[DONE]''") (simp_all add: finishSSEEvent_data Let_def cand_ok_frame del: contains.simps)
    qed
  qed
qed

text \<open>One whole line, from an empty line buffer.\<close>

definition line_step :: "clock \<Rightarrow> bytes \<Rightarrow> CompletionUsageObserver \<Rightarrow> CompletionUsageObserver" where
  "line_step clk l ob =
     processSSELine clk (ob\<lparr>o_line := take maximumCompletionUsageSSEBytes l,
       o_eventLimited := (o_eventLimited ob \<or> length l > maximumCompletionUsageSSEBytes)\<rparr>)"

lemma observeSSE_text:
  "\<lbrakk>LF \<notin> set l; length (o_line ob) \<le> maximumCompletionUsageSSEBytes\<rbrakk> \<Longrightarrow>
     observeSSE clk (l @ rest) ob =
       observeSSE clk rest (ob\<lparr>o_line := take maximumCompletionUsageSSEBytes (o_line ob @ l),
         o_eventLimited := (o_eventLimited ob \<or> length (o_line ob) + length l > maximumCompletionUsageSSEBytes)\<rparr>)"
proof (induction l arbitrary: ob)
  case (Cons c l)
  then have "c \<noteq> LF" by auto
  with Cons show ?case
  proof (cases "length (o_line ob) < maximumCompletionUsageSSEBytes")
    case True
    with \<open>c \<noteq> LF\<close> Cons.prems Cons.IH [of "ob\<lparr>o_line := o_line ob @ [c]\<rparr>"] show ?thesis by simp
  next
    case False
    with \<open>c \<noteq> LF\<close> Cons.prems Cons.IH [of "ob\<lparr>o_eventLimited := True\<rparr>"] show ?thesis by simp
  qed
qed simp

lemma SSE_limit_pos: "1 < maximumCompletionUsageSSEBytes"
  by (simp add: maximumCompletionUsageSSEBytes_def)

lemma line_text_blank: "line_text l = [] \<Longrightarrow> length l \<le> maximumCompletionUsageSSEBytes"
proof (rule ccontr)
  assume "line_text l = []" and "\<not> length l \<le> maximumCompletionUsageSSEBytes"
  then have "length (take maximumCompletionUsageSSEBytes l) \<le> 1"
    by (auto simp: line_text_def trim_suffix_def split: if_splits)
  with \<open>\<not> length l \<le> maximumCompletionUsageSSEBytes\<close> SSE_limit_pos show False by simp
qed

text \<open>A blank line ends the event; any other line leaves the candidate alone.\<close>

lemma line_step_blank:
  assumes "line_text l = []" "o_line ob = []"
  shows "line_step clk l ob = finishSSEEvent clk ob"
proof -
  have ob: "ob\<lparr>o_line := []\<rparr> = ob" using assms(2) by (cases ob) simp
  have "\<not> length l > maximumCompletionUsageSSEBytes" using line_text_blank [OF assms(1)] by simp
  then have "line_step clk l ob = processSSELine clk (ob\<lparr>o_line := take maximumCompletionUsageSSEBytes l\<rparr>)"
    by (simp add: line_step_def)
  also have "\<dots> = finishSSEEvent clk (ob\<lparr>o_line := []\<rparr>)"
    using assms(1) by (simp add: processSSELine_def line_text_def)
  finally show ?thesis by (simp add: ob)
qed

lemma data_not_comment: "has_prefix ''data:'' t \<Longrightarrow> t ! 0 \<noteq> CHR '':''"
  by (cases t) auto

lemma line_step_text:
  assumes "line_text l \<noteq> []" "pending_ok over parts ob" "next_pending over parts l = (over', parts')"
  shows "pending_ok over' parts' (line_step clk l ob)"
    and "cand_ok clk outs (line_step clk l ob) = cand_ok clk outs ob"
proof -
  show "cand_ok clk outs (line_step clk l ob) = cand_ok clk outs ob"
    using assms(1) by (simp add: line_step_def processSSELine_def line_text_def Let_def cand_ok_def)
  show "pending_ok over' parts' (line_step clk l ob)"
  proof (cases "over \<or> length l > maximumCompletionUsageSSEBytes")
    case True
    with assms show ?thesis
      by (auto simp: line_step_def processSSELine_def line_text_def Let_def pending_ok_def next_pending_def)
  next
    case False
    show ?thesis
    proof (cases "line_data (line_text l)")
      case None
      with False assms show ?thesis
        by (auto simp: line_step_def processSSELine_def line_text_def line_data_def Let_def pending_ok_def
            next_pending_def split: if_splits)
    next
      case (Some d)
      with False assms show ?thesis
        by (auto simp: line_step_def processSSELine_def line_text_def line_data_def Let_def pending_ok_def
            next_pending_def join_lf_snoc data_not_comment split: if_splits)
    qed
  qed
qed

lemma stream_outcomes_append:
  "stream_outcomes fmt (a @ b) = (if has_done a then stream_outcomes fmt a else stream_outcomes fmt a @ stream_outcomes fmt b)"
proof (cases "has_done a")
  case True
  then have "takeWhile (\<lambda>e. \<not> is_done e) (a @ b) = takeWhile (\<lambda>e. \<not> is_done e) a"
    by (auto simp: has_done_def takeWhile_append1)
  with True show ?thesis by (simp add: stream_outcomes_def)
next
  case False
  then have "takeWhile (\<lambda>e. \<not> is_done e) a = a" by (auto simp: takeWhile_eq_all_conv has_done_def)
  with False show ?thesis by (simp add: stream_outcomes_def has_done_def takeWhile_append2 del: takeWhile_eq_all_conv)
qed

lemma has_done_append [simp]: "has_done (a @ b) \<longleftrightarrow> has_done a \<or> has_done b"
  by (auto simp: has_done_def)

lemma no_events [simp]: "\<not> has_done []" "stream_outcomes fmt [] = []"
  by (simp_all add: has_done_def stream_outcomes_def)

text \<open>A state from which \<open>finishStreaming\<close> delivers the verdict on the given events.\<close>

definition ready ::
  "clock \<Rightarrow> outcomes \<Rightarrow> sse_event list \<Rightarrow> CompletionUsageObserver \<Rightarrow> CompletionUsageObserver \<Rightarrow> bool" where
  "ready clk outs evs ob ob' \<longleftrightarrow>
     cand_ok clk (outs @ stream_outcomes (o_format ob) evs) ob' \<and> o_terminalSeen ob' = has_done evs \<and>
     obs_inv ob' \<and> \<not> o_finished ob' \<and> o_streaming ob' \<and> o_format ob' = o_format ob \<and>
     o_callback ob' = o_callback ob \<and> o_onTerminal ob' = o_onTerminal ob \<and> o_onEvidence ob' = o_onEvidence ob"

abbreviation live :: "CompletionUsageObserver \<Rightarrow> bool" where
  "live ob \<equiv> obs_inv ob \<and> \<not> stopped ob \<and> o_streaming ob"

lemma live_buffers:
  "\<lbrakk>live ob; length l \<le> maximumCompletionUsageSSEBytes\<rbrakk> \<Longrightarrow> live (ob\<lparr>o_line := l, o_eventLimited := b\<rparr>)"
  by (auto simp: inv_running buffers_ok_def)

lemma live_line_step:
  assumes "live ob"
  shows "obs_inv (line_step clk l ob)"
  unfolding line_step_def using live_buffers [OF assms, of "take maximumCompletionUsageSSEBytes l"]
  by (intro inv_processSSELine) auto

lemma line_step_frame [simp]:
  "o_finished (line_step clk l ob) = o_finished ob" "o_streaming (line_step clk l ob) = o_streaming ob"
  "o_format (line_step clk l ob) = o_format ob" "o_callback (line_step clk l ob) = o_callback ob"
  "o_onTerminal (line_step clk l ob) = o_onTerminal ob" "o_onEvidence (line_step clk l ob) = o_onEvidence ob"
  "o_line (line_step clk l ob) = []"
  by (simp_all add: line_step_def)

lemma line_step_terminal:
  "line_text l \<noteq> [] \<Longrightarrow> o_terminalSeen (line_step clk l ob) = o_terminalSeen ob"
  by (simp add: line_step_def lineEndsEvent_def line_text_def)

lemma finishEvent_ready:
  assumes "live ob" "pending_ok over parts ob" "cand_ok clk outs ob"
  shows "ready clk outs (flush over parts) ob (finishSSEEvent clk ob)"
  using assms finishSSEEvent_cand [OF assms(2,3)] isDone_flush [OF assms(2)]
  by (auto simp: ready_def inv_finishSSEEvent)

lemma finishPending_ready:
  assumes "live ob" "pending_ok over parts ob" "cand_ok clk outs ob"
  shows "\<exists>ob'. finishPending clk ob = finishStreaming ob' \<and> ready clk outs (flush over parts) ob ob'"
proof (cases "o_eventHasData ob \<or> o_eventLimited ob")
  case True
  then have "finishPending clk ob = finishStreaming (finishSSEEvent clk ob)"
    using assms by (simp add: finishPending_def)
  with finishEvent_ready [OF assms] show ?thesis by blast
next
  case False
  with assms(2) have "flush over parts = []" by (auto simp: flush_def pending_ok_def)
  then have "ready clk outs (flush over parts) ob ob"
    using assms by (simp add: ready_def stream_outcomes_def has_done_def)
  moreover have "finishPending clk ob = finishStreaming ob" using False by (simp add: finishPending_def)
  ultimately show ?thesis by blast
qed

lemma finishPending_none:
  "pending_ok False [] ob \<Longrightarrow> finishPending clk ob = finishStreaming ob"
  by (simp add: finishPending_def pending_ok_def)

lemma split_on_single: "split_on x s = [w] \<Longrightarrow> s = w \<and> x \<notin> set w"
  by (induction s arbitrary: w) (auto split: if_splits list.splits)

lemma split_on_more:
  "split_on x s = w # w2 # ws \<Longrightarrow> \<exists>r. s = w @ x # r \<and> x \<notin> set w \<and> split_on x r = w2 # ws"
proof (induction s arbitrary: w)
  case (Cons c s)
  show ?case
  proof (cases "c = x")
    case True
    with Cons.prems show ?thesis by auto
  next
    case False
    then obtain w' where "split_on x s = w' # w2 # ws" "w = c # w'"
      using Cons.prems by (auto split: list.splits)
    with Cons.IH [of w'] False show ?thesis by auto
  qed
qed simp

lemma observeSSE_line:
  assumes "LF \<notin> set l" "o_line ob = []"
  shows "observeSSE clk (l @ LF # rest) ob =
     (if stopped (line_step clk l ob) then line_step clk l ob else observeSSE clk rest (line_step clk l ob))"
  using observeSSE_text [OF assms(1), of ob clk "LF # rest"] assms(2)
  by (simp add: line_step_def Let_def)

lemma observeSSE_tail:
  assumes "LF \<notin> set l" "o_line ob = []"
  shows "observeSSE clk l ob = ob\<lparr>o_line := take maximumCompletionUsageSSEBytes l,
      o_eventLimited := (o_eventLimited ob \<or> length l > maximumCompletionUsageSSEBytes)\<rparr>"
  using observeSSE_text [OF assms(1), of ob clk "[]"] assms(2) by simp

text \<open>The unterminated rest of the stream.\<close>

lemma tail_ready:
  assumes "LF \<notin> set l" "o_line ob = []" "live ob" "pending_ok over parts ob" "cand_ok clk outs ob"
  shows "\<exists>ob'. finishSSE clk (observeSSE clk l ob) = finishStreaming ob' \<and>
           ready clk outs (sse_events over parts [l]) ob ob'"
proof (cases "l = []")
  case True
  have "finishSSE clk (observeSSE clk l ob) = finishPending clk ob"
    using True assms(2) by (simp add: finishSSE_def)
  moreover have "sse_events over parts [l] = flush over parts"
    using True by (simp add: line_text_def trim_suffix_def flush_def)
  ultimately show ?thesis using finishPending_ready [OF assms(3-5)] by simp
next
  case False
  let ?ob = "line_step clk l ob"
  have "take maximumCompletionUsageSSEBytes l \<noteq> []" using False SSE_limit_pos by simp
  then have fin: "finishSSE clk (observeSSE clk l ob) =
      (if stopped ?ob then finishStreaming ?ob else finishPending clk ?ob)"
    using assms(3) by (simp add: observeSSE_tail [OF assms(1,2)] finishSSE_def line_step_def Let_def)
  show ?thesis
  proof (cases "line_text l = []")
    case True
    note step = line_step_blank [OF True assms(2), of clk]
    have "finishSSE clk (observeSSE clk l ob) = finishStreaming ?ob"
      unfolding fin using finishPending_none [OF finishSSEEvent_pending] by (simp add: step)
    moreover have "sse_events over parts [l] = flush over parts"
      using True by (simp add: flush_def)
    ultimately show ?thesis using finishEvent_ready [OF assms(3-5)] by (auto simp: step)
  next
    case nonblank: False
    obtain over' parts' where nxt: "next_pending over parts l = (over', parts')"
      by (cases "next_pending over parts l")
    note step = line_step_text [OF nonblank assms(4) nxt]
    have live: "live ?ob" using assms(3) live_line_step [of ob clk l] line_step_terminal [OF nonblank] by auto
    then have "finishSSE clk (observeSSE clk l ob) = finishPending clk ?ob" unfolding fin by simp
    moreover have "sse_events over parts [l] = flush over' parts'" using nonblank nxt by simp
    ultimately show ?thesis
      using finishPending_ready [OF live step(1), of clk outs] step(2) assms(5) by (auto simp: ready_def)
  qed
qed

text \<open>The whole stream, line by line.\<close>

lemma stream_ready:
  "\<lbrakk>split_on LF input = ls; o_line ob = []; live ob; pending_ok over parts ob; cand_ok clk outs ob\<rbrakk> \<Longrightarrow>
     \<exists>ob'. finishSSE clk (observeSSE clk input ob) = finishStreaming ob' \<and>
           ready clk outs (sse_events over parts ls) ob ob'"
proof (induction ls arbitrary: input ob over parts outs)
  case (Cons l ls)
  show ?case
  proof (cases ls)
    case Nil
    with Cons.prems split_on_single [of LF input l] tail_ready [of l ob over parts clk outs]
    show ?thesis by simp
  next
    case (Cons l2 ls2)
    with Cons.prems obtain rest where rest: "input = l @ LF # rest" "LF \<notin> set l" "split_on LF rest = ls"
      using split_on_more [of LF input l l2 ls2] by auto
    let ?ob = "line_step clk l ob"
    note obs = observeSSE_line [OF rest(2) Cons.prems(2), of clk rest, folded rest(1)]
    show ?thesis
    proof (cases "line_text l = []")
      case True
      note step = line_step_blank [OF True Cons.prems(2), of clk]
      have evs: "sse_events over parts (l # ls) = flush over parts @ sse_events False [] ls"
        using True by simp
      have ready: "ready clk outs (flush over parts) ob ?ob"
        unfolding step by (rule finishEvent_ready [OF Cons.prems(3-5)])
      show ?thesis
      proof (cases "has_done (flush over parts)")
        case dn: True
        with ready have "stopped ?ob" by (simp add: ready_def)
        then have "finishSSE clk (observeSSE clk input ob) = finishStreaming ?ob"
          using ready dn by (simp add: obs finishSSE_def finishPending_def ready_def)
        with ready dn show ?thesis
          unfolding evs by (intro exI [of _ ?ob]) (simp add: ready_def stream_outcomes_append)
      next
        case False
        with ready have live: "live ?ob" "cand_ok clk (outs @ stream_outcomes (o_format ob) (flush over parts)) ?ob"
          by (simp_all add: ready_def)
        have "pending_ok False [] ?ob" unfolding step by (rule finishSSEEvent_pending)
        from Cons.IH [OF rest(3) _ live(1) this live(2)] live obs False show ?thesis
          unfolding evs by (auto simp: ready_def stream_outcomes_append)
      qed
    next
      case nonblank: False
      obtain over' parts' where nxt: "next_pending over parts l = (over', parts')"
        by (cases "next_pending over parts l")
      note step = line_step_text [OF nonblank Cons.prems(4) nxt]
      have live: "live ?ob"
        using Cons.prems(3) live_line_step [of ob clk l] line_step_terminal [OF nonblank] by auto
      from Cons.IH [OF rest(3) _ live step(1)] live obs step(2) Cons.prems(5) nonblank nxt show ?thesis
        by (auto simp: ready_def)
    qed
  qed
qed simp

section \<open>Runs\<close>

definition apply_op :: "clock \<Rightarrow> observer_op \<Rightarrow> CompletionUsageObserver option \<Rightarrow> CompletionUsageObserver option" where
  "apply_op clk op obs = (case op of OpObserve a \<Rightarrow> Observe clk a obs | OpFinish \<Rightarrow> Finish clk obs)"

definition run_ops ::
  "clock \<Rightarrow> observer_op list \<Rightarrow> CompletionUsageObserver option \<Rightarrow> CompletionUsageObserver option" where
  "run_ops clk ops obs = fold (apply_op clk) ops obs"

lemma run_ops_eq: "run_ops clk = fold (usage_observer.run_op clk)"
proof -
  have "apply_op clk = usage_observer.run_op clk"
  proof (intro ext)
    fix op obs
    show "apply_op clk op obs = usage_observer.run_op clk op obs" by (cases op) (simp_all add: apply_op_def)
  qed
  then show ?thesis by (intro ext) (simp add: run_ops_def)
qed

lemma inv_new_Some:
  "newCompletionUsageObserver strm fmt cb ot oe = Some ob \<Longrightarrow> observer_inv (Some ob)"
  using inv_new by (simp add: observer_inv_def)

lemma run_to_Finish:
  "observer_inv obs \<Longrightarrow>
     run_ops clk (map OpObserve chunks @ OpFinish # ops) obs = Finish clk (Observe clk (concat chunks) obs)"
  unfolding run_ops_eq by (rule usage_observer.run_to_finish)

lemma Observe_streaming:
  "\<lbrakk>\<not> stopped ob; o_streaming ob\<rbrakk> \<Longrightarrow> Observe clk a (Some ob) = Some (observeSSE clk a ob)"
  by (cases "a = []") (simp_all add: Observe_running)

text \<open>An observer nothing has happened to, whatever capacity its JSON buffer has.\<close>

definition fresh_observer ::
  "bool \<Rightarrow> CompletionUsageFormat \<Rightarrow> bool \<Rightarrow> bool \<Rightarrow> bool \<Rightarrow> CompletionUsageObserver \<Rightarrow> bool" where
  "fresh_observer strm fmt cb ot oe ob \<longleftrightarrow>
     o_streaming ob = strm \<and> o_format ob = fmt \<and> o_callback ob = cb \<and> o_onTerminal ob = ot \<and>
     o_onEvidence ob = oe \<and> \<not> stopped ob \<and> o_line ob = [] \<and> pending_ok False [] ob \<and>
     (\<forall>clk. cand_ok clk [] ob) \<and> o_jsonBody ob = [] \<and> \<not> o_jsonLimited ob \<and> o_ticks ob = 0 \<and> obs_inv ob"

lemma fresh_new:
  assumes "newCompletionUsageObserver strm fmt cb ot oe = Some ob"
  shows "fresh_observer strm fmt cb ot oe ob"
  using assms inv_new [OF assms]
  by (auto simp: fresh_observer_def newCompletionUsageObserver_def pending_ok_def cand_ok_def spoiled_def
      avail_def split: if_splits)

lemma fresh_capacity:
  assumes "fresh_observer strm fmt cb ot oe ob" "n \<le> maximumCompletionUsageJSONBytes"
  shows "fresh_observer strm fmt cb ot oe (ob\<lparr>o_jsonCap := n\<rparr>)"
  using assms inv_running [of ob] unfolding fresh_observer_def
  by (simp add: pending_ok_def cand_ok_def avail_def inv_running buffers_ok_def)

lemma fresh_fields:
  assumes "fresh_observer strm fmt cb ot oe ob"
  shows "o_streaming ob = strm" "o_format ob = fmt" "o_callback ob = cb" "o_onTerminal ob = ot"
    "o_onEvidence ob = oe" "\<not> stopped ob" "o_line ob = []" "pending_ok False [] ob" "cand_ok clk [] ob"
    "o_jsonBody ob = []" "\<not> o_jsonLimited ob" "o_ticks ob = 0" "obs_inv ob" "observer_inv (Some ob)"
  using assms by (auto simp: fresh_observer_def observer_inv_def)

lemma finishStreaming_calls:
  assumes "ready clk outs evs ob ob'"
  shows "o_log (finishStreaming ob') =
    expected_calls (o_callback ob) (o_onTerminal ob) (o_onEvidence ob) (has_done evs)
      (verdict clk (outs @ stream_outcomes (o_format ob) evs))"
proof -
  have "\<not> o_evidenceNotified ob'" "o_terminalNotified ob' \<longleftrightarrow> o_terminalSeen ob'"
    "o_log ob' = (if o_terminalSeen ob' then terminal_call ob' else [])"
    using assms by (auto simp: ready_def obs_inv_def log_of_def)
  note log = finishStreaming_log(1) [OF _ this]
  with assms show ?thesis
    by (auto simp: ready_def log_of_finished cand_ok_result)
qed

lemma fresh_stream_calls:
  assumes "fresh_observer True fmt cb ot oe ob0"
  shows "\<exists>ob. Finish clk (Observe clk input (Some ob0)) = Some ob \<and>
    o_log ob = expected_calls cb ot oe (has_done (stream_events input))
      (verdict clk (stream_outcomes fmt (stream_events input)))"
proof -
  note new = fresh_fields [OF assms]
  have live: "live ob0" using new by auto
  obtain ob' where ob': "finishSSE clk (observeSSE clk input ob0) = finishStreaming ob'"
    "ready clk [] (stream_events input) ob0 ob'"
    using stream_ready [OF refl new(7) live new(8) new(9)] unfolding stream_events_def by blast
  have "Finish clk (Observe clk input (Some ob0)) = Some (finishStreaming ob')"
    using new ob'(1) by (simp add: Observe_streaming Finish_def)
  with finishStreaming_calls [OF ob'(2)] new show ?thesis by simp
qed

text \<open>The result of a plain JSON response.\<close>

definition json_result ::
  "clock \<Rightarrow> CompletionUsageFormat \<Rightarrow> bytes \<Rightarrow> CompletionUsage \<times> CompletionUsageEvidenceOutcome" where
  "json_result clk fmt body =
     (if length body > maximumCompletionUsageJSONBytes then malformed
      else if body = [] then unavailable
      else case decodeCompletionUsageEvidence body False fmt of
        (usage, outcome) \<Rightarrow>
          (if outcome = CompletionUsageAvailable then usage\<lparr>ObservedAt := Some (clk 0)\<rparr> else usage, outcome))"

lemma Observe_json:
  "\<lbrakk>\<not> stopped ob; \<not> o_streaming ob; a \<noteq> []\<rbrakk> \<Longrightarrow> Observe clk a (Some ob) = Some (observeJSON a ob)"
  by (simp add: Observe_running)

lemma body_result_json:
  assumes "o_jsonBody ob = []" "\<not> o_jsonLimited ob" "o_ticks ob = 0" "body \<noteq> []"
  shows "body_result clk (observeJSON body ob) = json_result clk (o_format ob) body"
proof (cases "length body > maximumCompletionUsageJSONBytes")
  case True
  with assms show ?thesis by (simp add: observeJSON_over body_result_def json_result_def)
next
  case False
  with assms show ?thesis
    by (simp add: observeJSON_fits body_result_def json_result_def split: prod.split)
qed

lemma fresh_json_calls:
  assumes "fresh_observer False fmt cb ot oe ob0"
  shows "\<exists>ob. Finish clk (Observe clk body (Some ob0)) = Some ob \<and>
    o_log ob = expected_calls cb ot oe False (json_result clk fmt body)"
proof -
  note new = fresh_fields [OF assms]
  define ob where "ob = (if body = [] then ob0 else observeJSON body ob0)"
  have obs: "Observe clk body (Some ob0) = Some ob"
    using new by (simp add: ob_def Observe_json)
  have inv: "observer_inv (Some ob)"
    using inv_Observe [OF new(14), of clk body] by (simp add: obs)
  have cfg: "\<not> stopped ob" "\<not> o_streaming ob" "o_callback ob = cb" "o_onTerminal ob = ot" "o_onEvidence ob = oe"
    using new by (auto simp: ob_def)
  with inv have run: "\<not> o_evidenceNotified ob" "\<not> o_terminalNotified ob" "\<not> o_terminalSeen ob" "o_log ob = []"
    by (auto simp: observer_inv_def inv_running)
  have "body_result clk ob = json_result clk fmt body"
    using new body_result_json [of ob0 body clk] by (auto simp: ob_def body_result_def json_result_def)
  then have "o_log (finishJSON clk ob) = expected_calls cb ot oe False (json_result clk fmt body)"
    using finishJSON_log(1) [OF run, of clk] cfg by (simp add: log_of_finished)
  moreover have "Finish clk (Observe clk body (Some ob0)) = Some (finishJSON clk ob)"
    using cfg by (simp add: obs Finish_def)
  ultimately show ?thesis by blast
qed

section \<open>Properties\<close>

text \<open>C1: however a streaming response is cut into chunks, and whatever is called afterwards, the
  observer makes exactly the calls the reference semantics of the whole stream prescribes: the
  verdict on the events before the first \<open>[DONE]\<close> event, delivered once, with the terminal call
  before the result if \<open>[DONE]\<close> was seen and after it otherwise.\<close>

theorem streaming_observer_refines:
  assumes "newCompletionUsageObserver True fmt cb ot oe = Some ob0"
  shows "\<exists>ob. run_ops clk (map OpObserve chunks @ OpFinish # ops) (Some ob0) = Some ob \<and>
    o_log ob = expected_calls cb ot oe (has_done (stream_events (concat chunks)))
      (verdict clk (stream_outcomes fmt (stream_events (concat chunks))))"
  unfolding run_to_Finish [OF inv_new_Some [OF assms]] by (rule fresh_stream_calls [OF fresh_new [OF assms]])

text \<open>C2: a plain JSON response, however it is cut into chunks, is judged as one document: malformed
  when it exceeds the limit, unavailable when it is empty, and otherwise as the decoder classifies the
  whole body; the calls are made once, the terminal call last.\<close>

theorem json_observer_refines:
  assumes "newCompletionUsageObserver False fmt cb ot oe = Some ob0"
  shows "\<exists>ob. run_ops clk (map OpObserve chunks @ OpFinish # ops) (Some ob0) = Some ob \<and>
    o_log ob = expected_calls cb ot oe False (json_result clk fmt (concat chunks))"
  unfolding run_to_Finish [OF inv_new_Some [OF assms]] by (rule fresh_json_calls [OF fresh_new [OF assms]])

fun is_usage :: "callback_event \<Rightarrow> bool" where
  "is_usage (CallUsage _) = True" | "is_usage _ = False"

fun is_evidence :: "callback_event \<Rightarrow> bool" where
  "is_evidence (CallEvidence _) = True" | "is_evidence _ = False"

lemma log_of_counts:
  "count_by (\<lambda>e. e = CallTerminal) (log_of ob r) = (if stopped ob \<and> o_onTerminal ob then 1 else 0)"
  "count_by is_evidence (log_of ob r) = (if o_finished ob \<and> o_onEvidence ob then 1 else 0)"
  "count_by is_usage (log_of ob r) =
     (if o_finished ob \<and> o_callback ob \<and> snd r = CompletionUsageAvailable then 1 else 0)"
  by (auto simp: log_of_def result_calls_def terminal_call_def)

lemma apply_op_Some:
  "\<exists>ob'. apply_op clk op (Some ob) = Some ob' \<and>
     o_callback ob' = o_callback ob \<and> o_onTerminal ob' = o_onTerminal ob \<and> o_onEvidence ob' = o_onEvidence ob"
proof (cases op)
  case (OpObserve a)
  then show ?thesis by (simp add: apply_op_def Observe_def)
next
  case OpFinish
  then show ?thesis
    by (simp add: apply_op_def Finish_def finishSSE_def finishPending_def Let_def)
qed

lemma run_ops_Some:
  "\<exists>ob'. run_ops clk ops (Some ob) = Some ob' \<and>
     o_callback ob' = o_callback ob \<and> o_onTerminal ob' = o_onTerminal ob \<and> o_onEvidence ob' = o_onEvidence ob"
proof (induction ops arbitrary: ob)
  case (Cons op ops)
  obtain ob1 where "apply_op clk op (Some ob) = Some ob1"
    "o_callback ob1 = o_callback ob" "o_onTerminal ob1 = o_onTerminal ob" "o_onEvidence ob1 = o_onEvidence ob"
    using apply_op_Some by blast
  with Cons.IH [of ob1] show ?case by (simp add: run_ops_def)
qed (simp add: run_ops_def)

lemma run_ops_finished:
  assumes inv: "observer_inv obs" and fin: "OpFinish \<in> set ops" and run: "run_ops clk ops obs = Some ob"
  shows "o_finished ob"
proof -
  obtain pre post where ops: "ops = pre @ OpFinish # post" using fin by (meson split_list)
  let ?s = "fold (usage_observer.run_op clk) pre obs"
  have inv': "observer_inv ?s" using inv by (rule usage_observer.invar_run)
  have "run_ops clk ops obs = Finish clk ?s"
    unfolding run_ops_eq ops using usage_observer.after_finish [OF inv'] by simp
  with run show ?thesis by (cases ?s) (auto dest: Finish_finished)
qed

text \<open>C3: whatever sequence of calls an observer receives, it makes each kind of callback at most once,
  never makes one that was not registered, and reports usage only together with evidence that it is
  available; after a \<open>Finish\<close>, the evidence and the terminal callback have each been made exactly once.\<close>

theorem observer_calls_once:
  assumes "newCompletionUsageObserver strm fmt cb ot oe = Some ob0"
    and "run_ops clk ops (Some ob0) = Some ob"
  shows "count_by (\<lambda>e. e = CallTerminal) (o_log ob) \<le> (if ot then 1 else 0) \<and>
    count_by is_evidence (o_log ob) \<le> (if oe then 1 else 0) \<and>
    count_by is_usage (o_log ob) \<le> (if cb then 1 else 0) \<and>
    (\<forall>u. CallUsage u \<in> set (o_log ob) \<longrightarrow> oe \<longrightarrow>
       CallEvidence (evidence_of CompletionUsageAvailable u) \<in> set (o_log ob)) \<and>
    (OpFinish \<in> set ops \<longrightarrow>
       count_by (\<lambda>e. e = CallTerminal) (o_log ob) = (if ot then 1 else 0) \<and>
       count_by is_evidence (o_log ob) = (if oe then 1 else 0))"
proof -
  have inv0: "observer_inv (Some ob0)" by (rule inv_new_Some [OF assms(1)])
  have "observer_inv (Some ob)"
    using usage_observer.invar_run [OF inv0, of clk ops] assms(2) by (simp add: run_ops_eq)
  then obtain r where r: "o_log ob = log_of ob r" by (auto simp: observer_inv_def obs_inv_def)
  have cfg: "o_callback ob = cb" "o_onTerminal ob = ot" "o_onEvidence ob = oe"
    using run_ops_Some [of clk ops ob0] assms(2) fresh_fields(1-5) [OF fresh_new [OF assms(1)]] by auto
  have "\<forall>u. CallUsage u \<in> set (o_log ob) \<longrightarrow> oe \<longrightarrow>
      CallEvidence (evidence_of CompletionUsageAvailable u) \<in> set (o_log ob)"
    by (auto simp: r log_of_def result_calls_def terminal_call_def cfg split: if_splits)
  moreover have "OpFinish \<in> set ops \<Longrightarrow> o_finished ob"
    using run_ops_finished [OF inv0 _ assms(2)] .
  ultimately show ?thesis by (simp add: r log_of_counts cfg)
qed

text \<open>C4: an observer never holds more than the limits: 64 KiB of a line, 64 KiB of event data and
  4 MiB of a JSON body, and the capacity it reserves for the body stays within the same 4 MiB.\<close>

theorem observer_memory_bounded:
  assumes "newCompletionUsageObserver strm fmt cb ot oe = Some ob0"
    and "run_ops clk ops (Some ob0) = Some ob"
  shows "length (o_line ob) \<le> 65536 \<and> length (o_eventData ob) \<le> 65536 \<and>
    length (o_jsonBody ob) \<le> o_jsonCap ob \<and> o_jsonCap ob \<le> 4194304"
proof -
  have "observer_inv (Some ob)"
    using usage_observer.invar_run [OF inv_new_Some [OF assms(1)], of clk ops] assms(2)
    by (simp add: run_ops_eq)
  then have "buffers_ok ob" by (simp add: observer_inv_def obs_inv_def)
  then show ?thesis
    by (simp add: buffers_ok_def maximumCompletionUsageSSEBytes_def maximumCompletionUsageJSONBytes_def)
qed

section \<open>Concrete runs\<close>

definition sample_payload :: bytes where
  "sample_payload = jq ''{`choices`:[],`usage`:{`completion_tokens`:5}}''"

lemma sample_decode: "decodeCompletionUsageEvidence sample_payload True CompletionUsageFormatCompletions =
   (zero_usage\<lparr>CompletionTokens := 5\<rparr>, CompletionUsageAvailable)"
  by code_simp

lemma line_text_short: "length l \<le> 65536 \<Longrightarrow> line_text l = trim_suffix [CR] l"
  by (simp add: line_text_def maximumCompletionUsageSSEBytes_def)

lemma sample_split: "split_on LF (''data: '' @ sample_payload @ [LF, LF] @ ''data: [DONE]'' @ [LF, LF]) = [''data: '' @ sample_payload, [], ''data: [DONE]'', [], []]"
  by code_simp
lemma sample_events: "stream_events (''data: '' @ sample_payload @ [LF, LF] @ ''data: [DONE]'' @ [LF, LF]) = [Event sample_payload, Event ''[DONE]'']"
  unfolding stream_events_def sample_split
  by (simp add: line_text_short sample_payload_def jq_def trim_suffix_def next_pending_def flush_def line_data_def maximumCompletionUsageSSEBytes_def
   has_suffix_def has_prefix_def trim_prefix_def)
lemma sample_outcomes:
  "stream_outcomes CompletionUsageFormatCompletions [Event sample_payload, Event ''[DONE]''] =
     [(zero_usage\<lparr>CompletionTokens := 5\<rparr>, CompletionUsageAvailable)]"
proof -
  have t: "trim_space sample_payload = sample_payload" "contains sample_payload usageMarker" by code_simp+
  then have "sample_payload \<noteq> ''[DONE]''" "trim_space ''[DONE]'' = ''[DONE]''" by code_simp+
  with t show ?thesis by (simp add: stream_outcomes_def is_done_def event_outcome_def sample_decode)
qed

definition sample_stream :: "bytes list" where
  "sample_stream = [''dat'', ''a: '' @ sample_payload @ [LF, LF] @ ''data: [DONE]'', [LF, LF]]"

theorem streaming_observer_refines_witness:
  "\<exists>ob0 ob. newCompletionUsageObserver True CompletionUsageFormatCompletions True True True = Some ob0 \<and>
     run_ops (\<lambda>n. 7) (map OpObserve sample_stream @ OpFinish # [OpFinish]) (Some ob0) = Some ob \<and>
     o_log ob = [CallTerminal,
       CallUsage (zero_usage\<lparr>CompletionTokens := 5, ObservedAt := Some 7\<rparr>),
       CallEvidence (evidence_of CompletionUsageAvailable (zero_usage\<lparr>CompletionTokens := 5, ObservedAt := Some 7\<rparr>))]"
proof -
  obtain ob0 where new: "newCompletionUsageObserver True CompletionUsageFormatCompletions True True True = Some ob0"
    by (simp add: newCompletionUsageObserver_def)
  have cat: "concat sample_stream = ''data: '' @ sample_payload @ [LF, LF] @ ''data: [DONE]'' @ [LF, LF]"
    by (simp add: sample_stream_def)
  have "is_done (Event ''[DONE]'')" by code_simp
  then have hd: "has_done [Event sample_payload, Event ''[DONE]'']" by (simp add: has_done_def)
  show ?thesis
    using streaming_observer_refines [OF new, of "\<lambda>n. 7" sample_stream "[OpFinish]"] new hd
    unfolding cat sample_events sample_outcomes
    by (simp add: verdict_def spoiled_def avail_def expected_calls_def)
qed

lemma sample_body_decode: "decodeCompletionUsageEvidence (jq ''{`usage`:{`output_tokens`:5}}'') False CompletionUsageFormatResponses =
   (zero_usage\<lparr>CompletionTokens := 5\<rparr>, CompletionUsageAvailable)"
  by code_simp

theorem json_observer_refines_witness:
  "\<exists>ob0 ob. newCompletionUsageObserver False CompletionUsageFormatResponses True False True = Some ob0 \<and>
     run_ops (\<lambda>n. 7) (map OpObserve [jq ''{`usage`:{`outp'', jq ''ut_tokens`:5}}''] @ OpFinish # []) (Some ob0) = Some ob \<and>
     o_log ob = [CallUsage (zero_usage\<lparr>CompletionTokens := 5, ObservedAt := Some 7\<rparr>),
       CallEvidence (evidence_of CompletionUsageAvailable (zero_usage\<lparr>CompletionTokens := 5, ObservedAt := Some 7\<rparr>))]"
proof -
  obtain ob0 where new: "newCompletionUsageObserver False CompletionUsageFormatResponses True False True = Some ob0"
    by (simp add: newCompletionUsageObserver_def)
  have cat: "concat [jq ''{`usage`:{`outp'', jq ''ut_tokens`:5}}''] = jq ''{`usage`:{`output_tokens`:5}}''"
    by (simp add: jq_def)
  have len: "length (jq ''{`usage`:{`output_tokens`:5}}'') = 29" by (simp add: jq_def)
  then have "jq ''{`usage`:{`output_tokens`:5}}'' \<noteq> []" by auto
  with len have "json_result (\<lambda>n. 7) CompletionUsageFormatResponses (jq ''{`usage`:{`output_tokens`:5}}'') =
      (zero_usage\<lparr>CompletionTokens := 5, ObservedAt := Some 7\<rparr>, CompletionUsageAvailable)"
    by (simp add: json_result_def sample_body_decode maximumCompletionUsageJSONBytes_def)
  with json_observer_refines [OF new, of "\<lambda>n. 7" "[jq ''{`usage`:{`outp'', jq ''ut_tokens`:5}}'']" "[]"] new
  show ?thesis unfolding cat by (simp add: expected_calls_def)
qed

lemma sample_run:
  obtains ob0 ob where "newCompletionUsageObserver True CompletionUsageFormatResponses False True True = Some ob0"
    "run_ops (\<lambda>n. 7) [OpObserve ''data: [DONE]'', OpFinish] (Some ob0) = Some ob"
proof -
  obtain ob0 where new: "newCompletionUsageObserver True CompletionUsageFormatResponses False True True = Some ob0"
    by (simp add: newCompletionUsageObserver_def)
  obtain ob where "run_ops (\<lambda>n. 7) [OpObserve ''data: [DONE]'', OpFinish] (Some ob0) = Some ob"
    using run_ops_Some by blast
  with new show ?thesis by (rule that)
qed

theorem observer_calls_once_witness:
  "\<exists>ob0 ob. newCompletionUsageObserver True CompletionUsageFormatResponses False True True = Some ob0 \<and>
     run_ops (\<lambda>n. 7) [OpObserve ''data: [DONE]'', OpFinish] (Some ob0) = Some ob \<and>
     count_by (\<lambda>e. e = CallTerminal) (o_log ob) = 1 \<and> count_by is_evidence (o_log ob) = 1 \<and>
     count_by is_usage (o_log ob) = 0"
proof -
  obtain ob0 ob where run: "newCompletionUsageObserver True CompletionUsageFormatResponses False True True = Some ob0"
    "run_ops (\<lambda>n. 7) [OpObserve ''data: [DONE]'', OpFinish] (Some ob0) = Some ob"
    by (rule sample_run)
  from observer_calls_once [OF run] run show ?thesis by auto
qed

theorem observer_memory_bounded_witness:
  "\<exists>ob0 ob. newCompletionUsageObserver True CompletionUsageFormatResponses False True True = Some ob0 \<and>
     run_ops (\<lambda>n. 7) [OpObserve ''data: [DONE]'', OpFinish] (Some ob0) = Some ob \<and>
     length (o_line ob) \<le> 65536 \<and> length (o_eventData ob) \<le> 65536 \<and> o_jsonCap ob \<le> 4194304"
proof -
  obtain ob0 ob where run: "newCompletionUsageObserver True CompletionUsageFormatResponses False True True = Some ob0"
    "run_ops (\<lambda>n. 7) [OpObserve ''data: [DONE]'', OpFinish] (Some ob0) = Some ob"
    by (rule sample_run)
  from observer_memory_bounded [OF run] run show ?thesis by blast
qed

end
