(* ===== verification/Go_Io.thy ===== *)
theory Go_Io
  imports Prelude
begin

text \<open>
  The parts of Go's \<open>io\<close> the sources use: errors, readers, and \<open>io.Copy\<close>.
\<close>

datatype io_error = EOF | ErrNoProgress | ErrShortWrite | ErrInvalidWrite | IOErr string

text \<open>\<open>Read\<close> into a buffer of the given length: the bytes read, the error, the source afterwards.\<close>

type_synonym 's reader = "'s \<Rightarrow> nat \<Rightarrow> bytes \<times> io_error option \<times> 's"

section \<open>Copying\<close>

text \<open>A source as the results of its reads, one after another; after the last one it is at its end. It
  offers no \<open>WriteTo\<close> of its own.\<close>

type_synonym source = "(bytes \<times> io_error option) list"

text \<open>\<open>io.Writer\<close>, on writers with a state of any type: the count, the error, the writer afterwards.\<close>

type_synonym 'w byte_writer = "bytes \<Rightarrow> 'w \<Rightarrow> (nat \<times> io_error option) \<times> 'w"

text \<open>What one write of a piece that was read contributes: the count, and the error that ends the copy.\<close>

definition copied :: "bytes \<Rightarrow> nat \<times> io_error option \<Rightarrow> nat \<times> io_error option" where
  "copied bs res =
     (case res of (nw, ew) \<Rightarrow>
        (let (nw, ew) = (if length bs < nw then (0, if ew = None then Some ErrInvalidWrite else ew) else (nw, ew))
         in (nw, if ew = None \<and> nw \<noteq> length bs then Some ErrShortWrite else ew)))"

fun io_Copy :: "'w byte_writer \<Rightarrow> source \<Rightarrow> nat \<Rightarrow> 'w \<Rightarrow> (nat \<times> io_error option) \<times> 'w" where
  "io_Copy put [] n w = ((n, None), w)"
| "io_Copy put ((bs, er) # src) n w =
     (let ((nw, ew), w') = (if bs = [] then ((0, None), w) else (case put bs w of (res, w') \<Rightarrow> (copied bs res, w')))
      in if ew \<noteq> None then ((n + nw, ew), w')
         else if er = None then io_Copy put src (n + nw) w'
         else ((n + nw, if er = Some EOF then None else er), w'))"

text \<open>The bytes a source delivers up to its first error.\<close>

fun source_bytes :: "source \<Rightarrow> bytes" where
  "source_bytes [] = []"
| "source_bytes ((bs, er) # src) = bs @ (if er = None then source_bytes src else [])"

text \<open>A property of the writer that writes keep is kept by a copy, and one that a write establishes is
  established by a copy of any bytes.\<close>

lemma io_Copy_keeps:
  assumes "P w" and "\<And>bs w. P w \<Longrightarrow> P (snd (put bs w))"
  shows "P (snd (io_Copy put src n w))"
  using assms(1)
proof (induction src arbitrary: n w)
  case (Cons x src)
  obtain bs er where x: "x = (bs, er)" by (cases x)
  obtain res w' where r: "(if bs = [] then ((0, None), w) else (case put bs w of (res, w') \<Rightarrow> (copied bs res, w'))) = (res, w')"
    by fastforce
  have "P w'" using Cons.prems assms(2) [of w bs] r by (auto split: if_splits prod.splits)
  with Cons.IH show ?case unfolding x io_Copy.simps r by (simp add: split_beta)
qed simp

lemma io_Copy_empty: "source_bytes src = [] \<Longrightarrow> snd (io_Copy put src n w) = w"
  by (induction src arbitrary: n) (auto split: if_splits)

lemma io_Copy_first:
  assumes "source_bytes src \<noteq> []" "P w" "\<And>bs w. P w \<Longrightarrow> Q (snd (put bs w))" "\<And>bs w. Q w \<Longrightarrow> Q (snd (put bs w))"
  shows "Q (snd (io_Copy put src n w))"
  using assms(1,2)
proof (induction src arbitrary: n w)
  case (Cons x src)
  obtain bs er where x: "x = (bs, er)" by (cases x)
  show ?case
  proof (cases "bs = []")
    case True
    with Cons show ?thesis by (simp add: x split: if_splits)
  next
    case False
    obtain res w' where r: "put bs w = (res, w')" by fastforce
    then have "Q w'" using assms(3) [of w bs] Cons.prems(2) by simp
    with io_Copy_keeps [of Q] assms(4) False r show ?thesis by (simp add: x split_beta)
  qed
qed simp

end
