(* ===== verification/Usage_Body.thy ===== *)
theory Usage_Body
  imports Observer_Spec Go_Io
begin

text \<open>
  The response body that feeds the observer (\<open>completion_usage.go\<close>, \<open>completionUsageBody\<close>). The
  body wraps a source, an \<open>io.ReadCloser\<close> that is a parameter of the model, and shows the observer
  the bytes it passes on. It decides when the response is complete: at the end of the source, at a
  known content length, or, for a JSON body of unknown length with a terminal callback, by looking
  one byte ahead through a \<open>bufio.Reader\<close>.
\<close>

section \<open>Buffered readers\<close>

record bufio =
  br_buf :: bytes
  br_err :: "io_error option"

definition NewReaderSize :: bufio where
  "NewReaderSize = \<lparr>br_buf = [], br_err = None\<rparr>"

text \<open>\<open>bufio.Reader.Read\<close>, with \<open>readErr\<close>, which hands the pending error out and clears it.\<close>

definition bufio_Read :: "'s reader \<Rightarrow> nat \<Rightarrow> bufio \<Rightarrow> 's \<Rightarrow> bytes \<times> io_error option \<times> bufio \<times> 's" where
  "bufio_Read read k b s =
     (if k = 0 then
        (if br_buf b \<noteq> [] then ([], None, b, s) else ([], br_err b, b\<lparr>br_err := None\<rparr>, s))
      else if br_buf b \<noteq> [] then (take k (br_buf b), None, b\<lparr>br_buf := drop k (br_buf b)\<rparr>, s)
      else if br_err b \<noteq> None then ([], br_err b, b\<lparr>br_err := None\<rparr>, s)
      else if k \<ge> completionUsageLookaheadBytes then
        (case read s k of (bs, e, s') \<Rightarrow> (bs, e, b\<lparr>br_err := None\<rparr>, s'))
      else
        (case read s completionUsageLookaheadBytes of (bs, e, s') \<Rightarrow>
           if bs = [] then ([], e, b\<lparr>br_err := None\<rparr>, s')
           else (take k bs, None, b\<lparr>br_buf := drop k bs, br_err := e\<rparr>, s')))"

text \<open>\<open>bufio.Reader.fill\<close> on an empty buffer: at most \<open>maxConsecutiveEmptyReads\<close> reads.\<close>

fun bufio_fill :: "'s reader \<Rightarrow> nat \<Rightarrow> bufio \<Rightarrow> 's \<Rightarrow> bufio \<times> 's" where
  "bufio_fill read 0 b s = (b\<lparr>br_err := Some ErrNoProgress\<rparr>, s)"
| "bufio_fill read (Suc i) b s =
     (case read s completionUsageLookaheadBytes of (bs, e, s') \<Rightarrow>
        (let b = b\<lparr>br_buf := br_buf b @ bs\<rparr> in
         if e \<noteq> None then (b\<lparr>br_err := e\<rparr>, s')
         else if bs \<noteq> [] then (b, s')
         else bufio_fill read i b s'))"

text \<open>\<open>bufio.Reader.Peek(1)\<close>: its error. The loop around \<open>fill\<close> runs at most once, since \<open>fill\<close>
  leaves a byte or an error (lemma \<open>bufio_fill_progress\<close>).\<close>

definition bufio_Peek1 :: "'s reader \<Rightarrow> bufio \<Rightarrow> 's \<Rightarrow> io_error option \<times> bufio \<times> 's" where
  "bufio_Peek1 read b s =
     (case (if br_buf b = [] \<and> br_err b = None then bufio_fill read 100 b s else (b, s)) of
        (b, s) \<Rightarrow> if br_buf b = [] then (br_err b, b\<lparr>br_err := None\<rparr>, s) else (None, b, s))"

lemma bufio_fill_progress:
  "bufio_fill read i b s = (b', s') \<Longrightarrow> br_buf b' \<noteq> [] \<or> br_err b' \<noteq> None"
  by (induction read i b s rule: bufio_fill.induct) (auto simp: Let_def split: prod.splits if_splits)

section \<open>The body\<close>

record 's completionUsageBody =
  b_source :: 's
  b_lookahead :: "bufio option"
  b_observer :: "CompletionUsageObserver option"
  b_remaining :: int
  b_hasExpectedLength :: bool
  b_expectedLengthBad :: bool

text \<open>What the constructors return: the source itself, or the source wrapped.\<close>

datatype 's read_closer = Plain 's | Wrapped "'s completionUsageBody"

definition observeCompletionUsageBody ::
  "'s option \<Rightarrow> bool \<Rightarrow> CompletionUsageFormat \<Rightarrow> int \<Rightarrow> bool \<Rightarrow> bool \<Rightarrow> bool \<Rightarrow> 's read_closer option" where
  "observeCompletionUsageBody source strm fmt contentLength callback onTerminal onEvidence =
     (case source of
        None \<Rightarrow> None
      | Some s \<Rightarrow>
          if \<not> callback \<and> \<not> onTerminal \<and> \<not> onEvidence then Some (Plain s)
          else
            (let observer = newCompletionUsageObserver strm fmt callback onTerminal onEvidence;
                 observer = (if \<not> strm \<and> contentLength > 0 \<and> contentLength \<le> int maximumCompletionUsageJSONBytes
                             then map_option (\<lambda>ob. ob\<lparr>o_jsonBody := [], o_jsonCap := nat contentLength\<rparr>) observer
                             else observer);
                 body = \<lparr>b_source = s, b_lookahead = None, b_observer = observer, b_remaining = -1,
                         b_hasExpectedLength = False, b_expectedLengthBad = False\<rparr>
             in Some (Wrapped
                  (if \<not> strm \<and> onTerminal \<and> contentLength \<ge> 0
                   then body\<lparr>b_remaining := contentLength, b_hasExpectedLength := True\<rparr>
                   else if \<not> strm \<and> onTerminal then body\<lparr>b_lookahead := Some NewReaderSize\<rparr>
                   else body))))"

definition ObserveCompletionUsageBody :: "'s option \<Rightarrow> bool \<Rightarrow> bool \<Rightarrow> 's read_closer option" where
  "ObserveCompletionUsageBody source strm callback =
     observeCompletionUsageBody source strm CompletionUsageFormatCompletions (-1) callback False False"

definition ObserveCompletionUsageBodyWithTerminal ::
  "'s option \<Rightarrow> bool \<Rightarrow> bool \<Rightarrow> bool \<Rightarrow> 's read_closer option" where
  "ObserveCompletionUsageBodyWithTerminal source strm callback onTerminal =
     observeCompletionUsageBody source strm CompletionUsageFormatCompletions (-1) callback onTerminal False"

definition ObserveCompletionUsageBodyWithTerminalLength ::
  "'s option \<Rightarrow> bool \<Rightarrow> int \<Rightarrow> bool \<Rightarrow> bool \<Rightarrow> 's read_closer option" where
  "ObserveCompletionUsageBodyWithTerminalLength source strm contentLength callback onTerminal =
     observeCompletionUsageBody source strm CompletionUsageFormatCompletions contentLength callback onTerminal False"

definition ObserveCompletionUsageEvidenceBodyForFormatLength ::
  "'s option \<Rightarrow> bool \<Rightarrow> CompletionUsageFormat \<Rightarrow> int \<Rightarrow> bool \<Rightarrow> 's read_closer option" where
  "ObserveCompletionUsageEvidenceBodyForFormatLength source strm fmt contentLength callback =
     observeCompletionUsageBody source strm fmt contentLength False False callback"

definition ObserveCompletionUsageEvidenceBodyForFormat ::
  "'s option \<Rightarrow> bool \<Rightarrow> CompletionUsageFormat \<Rightarrow> bool \<Rightarrow> 's read_closer option" where
  "ObserveCompletionUsageEvidenceBodyForFormat source strm fmt callback =
     ObserveCompletionUsageEvidenceBodyForFormatLength source strm fmt (-1) callback"

definition ObserveCompletionUsageEvidenceBody :: "'s option \<Rightarrow> bool \<Rightarrow> bool \<Rightarrow> 's read_closer option" where
  "ObserveCompletionUsageEvidenceBody source strm callback =
     ObserveCompletionUsageEvidenceBodyForFormat source strm CompletionUsageFormatCompletions callback"

definition observeExpectedLength ::
  "clock \<Rightarrow> nat \<Rightarrow> io_error option \<Rightarrow> 's completionUsageBody \<Rightarrow> 's completionUsageBody" where
  "observeExpectedLength clk n err b =
     (if b_expectedLengthBad b \<or> b_observer b = None then b
      else if int n > b_remaining b then b\<lparr>b_expectedLengthBad := True\<rparr>
      else
        (let b = b\<lparr>b_remaining := b_remaining b - int n\<rparr> in
         if b_remaining b = 0 \<and> (err = None \<or> err = Some EOF)
         then b\<lparr>b_observer := Finish clk (b_observer b)\<rparr>
         else if err = Some EOF then b\<lparr>b_expectedLengthBad := True\<rparr>
         else b))"

text \<open>\<open>completionUsageBody.Read\<close>: the inner read, then the observer, then the end of the body.\<close>

definition body_inner_read ::
  "'s reader \<Rightarrow> nat \<Rightarrow> 's completionUsageBody \<Rightarrow> bytes \<times> io_error option \<times> 's completionUsageBody" where
  "body_inner_read read k b =
     (case b_lookahead b of
        Some l \<Rightarrow>
          (case bufio_Read read k l (b_source b) of
             (bs, e, l', s') \<Rightarrow> (bs, e, b\<lparr>b_source := s', b_lookahead := Some l'\<rparr>))
      | None \<Rightarrow> (case read (b_source b) k of (bs, e, s') \<Rightarrow> (bs, e, b\<lparr>b_source := s'\<rparr>)))"

definition body_peek :: "clock \<Rightarrow> 's reader \<Rightarrow> 's completionUsageBody \<Rightarrow> 's completionUsageBody" where
  "body_peek clk read b =
     (case b_lookahead b of
        None \<Rightarrow> b
      | Some l \<Rightarrow>
          (case bufio_Peek1 read l (b_source b) of
             (peekErr, l', s') \<Rightarrow>
               (let b = b\<lparr>b_source := s', b_lookahead := Some l'\<rparr> in
                if peekErr = Some EOF then b\<lparr>b_observer := Finish clk (b_observer b)\<rparr> else b)))"

definition body_Read ::
  "clock \<Rightarrow> 's reader \<Rightarrow> nat \<Rightarrow> 's completionUsageBody \<Rightarrow> bytes \<times> io_error option \<times> 's completionUsageBody" where
  "body_Read clk read k b =
     (case body_inner_read read k b of
        (bs, e, b) \<Rightarrow>
          (let n = length bs;
               b = (if n > 0 then b\<lparr>b_observer := Observe clk bs (b_observer b)\<rparr> else b)
           in (bs, e,
               if b_hasExpectedLength b then observeExpectedLength clk n e b
               else if e = Some EOF then b\<lparr>b_observer := Finish clk (b_observer b)\<rparr>
               else if e = None \<and> n > 0 then body_peek clk read b
               else b)))"

definition body_Close :: "('s \<Rightarrow> io_error option \<times> 's) \<Rightarrow> 's completionUsageBody \<Rightarrow> io_error option \<times> 's completionUsageBody" where
  "body_Close close b = (case close (b_source b) of (e, s') \<Rightarrow> (e, b\<lparr>b_source := s'\<rparr>))"

section \<open>Sequences of reads\<close>

type_synonym read_result = "bytes \<times> io_error option"

fun run_reads ::
  "('b \<Rightarrow> nat \<Rightarrow> bytes \<times> io_error option \<times> 'b) \<Rightarrow> nat list \<Rightarrow> 'b \<Rightarrow> read_result list \<times> 'b" where
  "run_reads rd [] b = ([], b)"
| "run_reads rd (k # ks) b =
     (case rd b k of (bs, e, b') \<Rightarrow> case run_reads rd ks b' of (rs, b'') \<Rightarrow> ((bs, e) # rs, b''))"

definition delivered :: "read_result list \<Rightarrow> bytes" where
  "delivered rs = concat (map fst rs)"

lemma delivered_simps [simp]:
  "delivered [] = []" "delivered ((bs, e) # rs) = bs @ delivered rs" "delivered (rs @ qs) = delivered rs @ delivered qs"
  by (simp_all add: delivered_def)

abbreviation body_reader :: "clock \<Rightarrow> 's reader \<Rightarrow> 's completionUsageBody reader" where
  "body_reader clk read \<equiv> \<lambda>b k. body_Read clk read k b"

lemma run_reads_snoc:
  "run_reads rd (ks @ [k]) b =
     (case run_reads rd ks b of (rs, b') \<Rightarrow> case rd b' k of (bs, e, b'') \<Rightarrow> (rs @ [(bs, e)], b''))"
  by (induction ks arbitrary: b) (auto split: prod.splits)

section \<open>Byte sources\<close>

text \<open>
  The contract of an \<open>io.Reader\<close> that delivers a known content and then the end of file: every read
  with room takes bytes from the front, at least one while there are any, and the end of file comes
  with the last bytes or after them, again and again.
\<close>

locale byte_source =
  fixes read :: "'s reader" and content :: "'s \<Rightarrow> bytes" and ok :: "'s \<Rightarrow> bool"
  assumes read_law:
    "\<lbrakk>0 < k; ok s; read s k = (bs, e, s')\<rbrakk> \<Longrightarrow>
       ok s' \<and> content s = bs @ content s' \<and> length bs \<le> k \<and>
       (content s = [] \<longrightarrow> e = Some EOF) \<and>
       (content s \<noteq> [] \<longrightarrow> bs \<noteq> [] \<and> (e = None \<or> e = Some EOF \<and> content s' = []))"
begin

lemma run_reads_content:
  "\<lbrakk>run_reads read ks s = (rs, s'); ok s; 0 \<notin> set ks\<rbrakk> \<Longrightarrow> ok s' \<and> content s = delivered rs @ content s'"
proof (induction ks arbitrary: s rs)
  case (Cons k ks)
  obtain bs e s1 where r: "read s k = (bs, e, s1)" by (metis prod_cases3)
  obtain rs1 where rs1: "run_reads read ks s1 = (rs1, s')" "rs = (bs, e) # rs1"
    using Cons.prems(1) r by (auto split: prod.splits)
  have "ok s1 \<and> content s = bs @ content s1" using read_law [OF _ Cons.prems(2) r] Cons.prems(3) by auto
  with Cons.IH [OF rs1(1)] Cons.prems(3) rs1(2) show ?case by simp
qed simp

text \<open>A read that reports the end of file has delivered everything.\<close>

lemma read_EOF: "\<lbrakk>0 < k; ok s; read s k = (bs, Some EOF, s')\<rbrakk> \<Longrightarrow> content s' = []"
  using read_law [of k s bs "Some EOF" s'] by (cases "content s = []") auto

text \<open>Reading with a buffer in front: the pending error is an end of file that has been seen.\<close>

definition buffered_content :: "bufio \<times> 's \<Rightarrow> bytes" where
  "buffered_content bs = br_buf (fst bs) @ content (snd bs)"

definition buffered_ok :: "bufio \<times> 's \<Rightarrow> bool" where
  "buffered_ok bs \<longleftrightarrow> ok (snd bs) \<and>
     (br_err (fst bs) = None \<or> br_err (fst bs) = Some EOF \<and> content (snd bs) = [])"

lemma look_pos: "0 < completionUsageLookaheadBytes"
  by (simp add: completionUsageLookaheadBytes_def)

lemma bufio_Read_law:
  assumes k: "0 < k" and inv: "buffered_ok (b, s)" and rd: "bufio_Read read k b s = (bs, e, b', s')"
  shows "buffered_ok (b', s') \<and> buffered_content (b, s) = bs @ buffered_content (b', s') \<and> length bs \<le> k \<and>
    (buffered_content (b, s) = [] \<longrightarrow> e = Some EOF) \<and>
    (buffered_content (b, s) \<noteq> [] \<longrightarrow> bs \<noteq> [] \<and> (e = None \<or> e = Some EOF \<and> buffered_content (b', s') = []))"
proof -
  consider (buf) "br_buf b \<noteq> []" | (err) "br_buf b = []" "br_err b \<noteq> None"
    | (big) "br_buf b = []" "br_err b = None" "completionUsageLookaheadBytes \<le> k"
    | (small) "br_buf b = []" "br_err b = None" "k < completionUsageLookaheadBytes" by linarith
  then show ?thesis
  proof cases
    case buf
    with k inv rd show ?thesis
      by (auto simp: bufio_Read_def buffered_ok_def buffered_content_def split: if_splits)
  next
    case err
    with k inv rd show ?thesis
      by (auto simp: bufio_Read_def buffered_ok_def buffered_content_def split: if_splits)
  next
    case big
    obtain qs f t where r: "read s k = (qs, f, t)" by (metis prod_cases3)
    have "ok s" using inv by (simp add: buffered_ok_def)
    note law = read_law [OF k this r]
    have eqs: "bs = qs" "e = f" "b' = b\<lparr>br_err := None\<rparr>" "s' = t"
      using big k rd r by (simp_all add: bufio_Read_def)
    have c: "buffered_content (b, s) = content s" "buffered_content (b', s') = content t"
      using big by (simp_all add: buffered_content_def eqs)
    have "buffered_ok (b', s')" using law by (simp add: buffered_ok_def eqs)
    with law show ?thesis unfolding c unfolding eqs by blast
  next
    case small
    obtain qs f t where r: "read s completionUsageLookaheadBytes = (qs, f, t)" by (metis prod_cases3)
    have "ok s" using inv by (simp add: buffered_ok_def)
    note law = read_law [OF look_pos this r]
    show ?thesis
    proof (cases "qs = []")
      case True
      with small k rd r law show ?thesis
        by (auto simp: bufio_Read_def buffered_ok_def buffered_content_def)
    next
      case False
      with small k rd r law show ?thesis
        by (auto simp: bufio_Read_def buffered_ok_def buffered_content_def)
    qed
  qed
qed

lemma buffered_source: "byte_source (\<lambda>(b, s) k. case bufio_Read read k b s of (bs, e, b', s') \<Rightarrow> (bs, e, b', s'))
    buffered_content buffered_ok"
proof (unfold_locales, goal_cases)
  case (1 k st bs e st')
  obtain b s b' s' where st: "st = (b, s)" "st' = (b', s')" by (metis prod.collapse)
  with 1 show ?case
    unfolding st by (intro bufio_Read_law) (simp_all split: prod.splits)
qed

text \<open>Looking one byte ahead reports the end of file exactly when everything has been delivered, and
  changes neither the content nor what is left.\<close>

lemma bufio_Peek1_law:
  assumes inv: "buffered_ok (b, s)" and pk: "bufio_Peek1 read b s = (e, b', s')"
  shows "buffered_ok (b', s') \<and> buffered_content (b', s') = buffered_content (b, s) \<and>
    (if buffered_content (b, s) = [] then e = Some EOF else e = None)"
proof (cases "br_buf b = [] \<and> br_err b = None")
  case True
  obtain qs f t where r: "read s completionUsageLookaheadBytes = (qs, f, t)" by (metis prod_cases3)
  have "ok s" using inv by (simp add: buffered_ok_def)
  note law = read_law [OF look_pos this r]
  have fill: "bufio_fill read 100 b s = (b\<lparr>br_buf := qs, br_err := f\<rparr>, t)"
  proof -
    have some: "f \<noteq> None \<or> qs \<noteq> []" using law by (cases "content s = []") simp_all
    have b: "b\<lparr>br_buf := qs\<rparr> = b\<lparr>br_buf := qs, br_err := None\<rparr>" using True by (cases b) simp
    have "(100 :: nat) = Suc 99" by simp
    then show ?thesis using True r some b by (simp only: bufio_fill.simps) (auto simp: Let_def)
  qed
  have c: "buffered_content (b, s) = content s" using True by (simp add: buffered_content_def)
  show ?thesis
  proof (cases "content s = []")
    case empty: True
    with law have q: "qs = []" "f = Some EOF" "content t = []" "ok t" by auto
    with True pk fill have "e = Some EOF" "b' = b\<lparr>br_buf := [], br_err := None\<rparr>" "s' = t"
      by (auto simp: bufio_Peek1_def)
    with q empty show ?thesis unfolding c by (simp add: buffered_ok_def buffered_content_def)
  next
    case full: False
    with law have q: "qs \<noteq> []" "f = None \<or> f = Some EOF \<and> content t = []" "ok t" "content s = qs @ content t" by auto
    with True pk fill have "e = None" "b' = b\<lparr>br_buf := qs, br_err := f\<rparr>" "s' = t"
      by (auto simp: bufio_Peek1_def)
    with q show ?thesis unfolding c by (auto simp: buffered_ok_def buffered_content_def)
  qed
next
  case False
  with inv pk show ?thesis
    by (auto simp: bufio_Peek1_def buffered_ok_def buffered_content_def split: if_splits)
qed

text \<open>The body itself is again such a source: it changes nothing of what the client reads.\<close>

definition body_content :: "'s completionUsageBody \<Rightarrow> bytes" where
  "body_content b =
     (case b_lookahead b of None \<Rightarrow> content (b_source b) | Some l \<Rightarrow> buffered_content (l, b_source b))"

definition body_ok :: "'s completionUsageBody \<Rightarrow> bool" where
  "body_ok b = (case b_lookahead b of None \<Rightarrow> ok (b_source b) | Some l \<Rightarrow> buffered_ok (l, b_source b))"

lemma body_frame [simp]:
  "body_content (b\<lparr>b_observer := obs\<rparr>) = body_content b" "body_ok (b\<lparr>b_observer := obs\<rparr>) = body_ok b"
  "body_content (b\<lparr>b_remaining := r\<rparr>) = body_content b" "body_ok (b\<lparr>b_remaining := r\<rparr>) = body_ok b"
  "body_content (b\<lparr>b_expectedLengthBad := c\<rparr>) = body_content b" "body_ok (b\<lparr>b_expectedLengthBad := c\<rparr>) = body_ok b"
  by (simp_all add: body_content_def body_ok_def split: option.split)

lemma observeExpectedLength_frame [simp]:
  "body_content (observeExpectedLength clk n e b) = body_content b"
  "body_ok (observeExpectedLength clk n e b) = body_ok b"
  by (simp_all add: observeExpectedLength_def Let_def)

lemma body_peek_law:
  assumes "body_ok b"
  shows "body_ok (body_peek clk read b) \<and> body_content (body_peek clk read b) = body_content b"
proof (cases "b_lookahead b")
  case (Some l)
  obtain pe l' s' where pk: "bufio_Peek1 read l (b_source b) = (pe, l', s')" by (metis prod_cases3)
  from assms Some have "buffered_ok (l, b_source b)" by (simp add: body_ok_def)
  from bufio_Peek1_law [OF this pk] Some pk show ?thesis
    by (auto simp: body_peek_def body_ok_def body_content_def Let_def)
qed (use assms in \<open>simp add: body_peek_def\<close>)

lemma body_inner_law:
  assumes k: "0 < k" and ok: "body_ok b" and rd: "body_inner_read read k b = (bs, e, b')"
  shows "body_ok b' \<and> body_content b = bs @ body_content b' \<and> length bs \<le> k \<and>
    (body_content b = [] \<longrightarrow> e = Some EOF) \<and>
    (body_content b \<noteq> [] \<longrightarrow> bs \<noteq> [] \<and> (e = None \<or> e = Some EOF \<and> body_content b' = []))"
proof (cases "b_lookahead b")
  case None
  obtain qs f t where r: "read (b_source b) k = (qs, f, t)" by (metis prod_cases3)
  have eqs: "bs = qs" "e = f" "b' = b\<lparr>b_source := t\<rparr>"
    using rd r None by (simp_all add: body_inner_read_def)
  have c: "body_content b = content (b_source b)" "body_content b' = content t" "body_ok b' = ok t"
    using None by (simp_all add: body_content_def body_ok_def eqs)
  have "ok (b_source b)" using ok None by (simp add: body_ok_def)
  from read_law [OF k this r] show ?thesis unfolding c unfolding eqs .
next
  case (Some l)
  obtain qs f l' t where r: "bufio_Read read k l (b_source b) = (qs, f, l', t)" by (metis prod_cases4)
  have eqs: "bs = qs" "e = f" "b' = b\<lparr>b_source := t, b_lookahead := Some l'\<rparr>"
    using rd r Some by (simp_all add: body_inner_read_def)
  have c: "body_content b = buffered_content (l, b_source b)" "body_content b' = buffered_content (l', t)"
    "body_ok b' = buffered_ok (l', t)"
    using Some by (simp_all add: body_content_def body_ok_def eqs)
  have "buffered_ok (l, b_source b)" using ok Some by (simp add: body_ok_def)
  from bufio_Read_law [OF k this r] show ?thesis unfolding c unfolding eqs .
qed

text \<open>Everything after the inner read leaves the content alone.\<close>

lemma body_Read_inner:
  assumes k: "0 < k" and ok: "body_ok b" and rd: "body_Read clk read k b = (bs, e, b')"
  obtains b1 where "body_inner_read read k b = (bs, e, b1)" "body_ok b'" "body_content b' = body_content b1"
proof -
  obtain qs f b1 where r: "body_inner_read read k b = (qs, f, b1)" by (metis prod_cases3)
  have ok1: "body_ok b1" using body_inner_law [OF k ok r] by blast
  have "body_ok b'" "body_content b' = body_content b1"
    using rd r ok1 body_peek_law by (auto simp: body_Read_def Let_def)
  moreover have "bs = qs" "e = f" using rd r by (auto simp: body_Read_def Let_def)
  ultimately show thesis using that r by blast
qed

lemma body_source: "byte_source (body_reader clk read) body_content body_ok"
proof (unfold_locales, goal_cases)
  case (1 k b bs e b')
  from body_Read_inner [OF 1] obtain b1 where b1: "body_inner_read read k b = (bs, e, b1)"
    "body_ok b'" "body_content b' = body_content b1" .
  from body_inner_law [OF 1(1,2) b1(1)] b1(2) show ?case unfolding b1(3) by blast
qed

text \<open>What a sequence of reads returns: bytes until the end of file, which comes when all is read.\<close>

lemma run_reads_results:
  assumes "run_reads read ks s = (rs, s')" "ok s" "0 \<notin> set ks"
  shows "(\<forall>(bs, e) \<in> set rs. e = None \<and> bs \<noteq> [] \<or> e = Some EOF)"
    and "Some EOF \<in> snd ` set rs \<Longrightarrow> content s' = []"
proof -
  have "(\<forall>(bs, e) \<in> set rs. e = None \<and> bs \<noteq> [] \<or> e = Some EOF) \<and> (Some EOF \<in> snd ` set rs \<longrightarrow> content s' = [])"
    using assms
  proof (induction ks arbitrary: s rs)
    case (Cons k ks)
    obtain bs e s1 where r: "read s k = (bs, e, s1)" by (metis prod_cases3)
    obtain rs1 where rs1: "run_reads read ks s1 = (rs1, s')" "rs = (bs, e) # rs1"
      using Cons.prems(1) r by (auto split: prod.splits)
    have k: "0 < k" using Cons.prems(3) by auto
    note law = read_law [OF k Cons.prems(2) r]
    have IH: "(\<forall>(bs, e) \<in> set rs1. e = None \<and> bs \<noteq> [] \<or> e = Some EOF)" "Some EOF \<in> snd ` set rs1 \<longrightarrow> content s' = []"
      using Cons.IH [OF rs1(1)] law Cons.prems(3) by auto
    have e: "e = None \<and> bs \<noteq> [] \<or> e = Some EOF" using law by (cases "content s = []") auto
    have "content s' = []" if "e = Some EOF"
    proof -
      have "content s1 = []" using read_EOF [OF k Cons.prems(2)] r that by blast
      then show ?thesis using run_reads_content [OF rs1(1)] law Cons.prems(3) by auto
    qed
    with IH e rs1(2) show ?case by auto
  qed simp
  then show "(\<forall>(bs, e) \<in> set rs. e = None \<and> bs \<noteq> [] \<or> e = Some EOF)"
    and "Some EOF \<in> snd ` set rs \<Longrightarrow> content s' = []" by blast+
qed

end

text \<open>\<open>bytes.Reader\<close>, a source that holds its whole content.\<close>

definition bytesReader_Read :: "bytes reader" where
  "bytesReader_Read s k = (if k > 0 \<and> s = [] then ([], Some EOF, []) else (take k s, None, drop k s))"

interpretation bytes_reader: byte_source bytesReader_Read "\<lambda>s. s" "\<lambda>s. True"
  by unfold_locales (auto simp: bytesReader_Read_def split: if_splits)

end
