(* ===== verification/Usage_Body_Props.thy ===== *)
theory Usage_Body_Props
  imports Usage_Body
begin

text \<open>
  What the observed body guarantees: the client reads the source's bytes unchanged, and the observer
  is finished exactly when the body is complete, for each of the three ways the code detects that.
\<close>

section \<open>New bodies\<close>

lemma new_body:
  assumes "observeCompletionUsageBody (Some s) strm fmt len cb ot oe = Some (Wrapped b)"
  obtains ob where "b_observer b = Some ob" "fresh_observer strm fmt cb ot oe ob" "b_source b = s"
    "b_hasExpectedLength b \<longleftrightarrow> \<not> strm \<and> ot \<and> 0 \<le> len" "\<not> b_expectedLengthBad b"
    "b_hasExpectedLength b \<longrightarrow> b_remaining b = len"
    "b_lookahead b = (if \<not> strm \<and> ot \<and> len < 0 then Some NewReaderSize else None)"
proof -
  have some: "cb \<or> ot \<or> oe" using assms by (auto simp: observeCompletionUsageBody_def split: if_splits)
  then obtain ob where ob: "newCompletionUsageObserver strm fmt cb ot oe = Some ob"
    by (auto simp: newCompletionUsageObserver_def)
  define ob' where "ob' = (if \<not> strm \<and> len > 0 \<and> len \<le> int maximumCompletionUsageJSONBytes
      then ob\<lparr>o_jsonBody := [], o_jsonCap := nat len\<rparr> else ob)"
  have fr: "fresh_observer strm fmt cb ot oe ob" by (rule fresh_new [OF ob])
  have "ob\<lparr>o_jsonBody := []\<rparr> = ob" using fresh_fields(10) [OF fr] by (cases ob) simp
  then have "ob' = ob \<or> ob' = ob\<lparr>o_jsonCap := nat len\<rparr> \<and> nat len \<le> maximumCompletionUsageJSONBytes"
    unfolding ob'_def by (cases ob) auto
  then have fr': "fresh_observer strm fmt cb ot oe ob'" using fr fresh_capacity by auto
  have b: "b = (let body = \<lparr>b_source = s, b_lookahead = None, b_observer = Some ob', b_remaining = -1,
        b_hasExpectedLength = False, b_expectedLengthBad = False\<rparr>
      in if \<not> strm \<and> ot \<and> len \<ge> 0 then body\<lparr>b_remaining := len, b_hasExpectedLength := True\<rparr>
         else if \<not> strm \<and> ot then body\<lparr>b_lookahead := Some NewReaderSize\<rparr> else body)"
  proof -
    have obs: "(if \<not> strm \<and> len > 0 \<and> len \<le> int maximumCompletionUsageJSONBytes
        then map_option (\<lambda>ob. ob\<lparr>o_jsonBody := [], o_jsonCap := nat len\<rparr>) (newCompletionUsageObserver strm fmt cb ot oe)
        else newCompletionUsageObserver strm fmt cb ot oe) = Some ob'"
      unfolding ob ob'_def by simp
    show ?thesis
      using assms some unfolding observeCompletionUsageBody_def Let_def obs by auto
  qed
  show thesis
    by (rule that [of ob']) (use fr' in \<open>simp_all add: b Let_def\<close>)
qed

lemma Finish_Some: "\<exists>ob'. Finish clk (Some ob) = Some ob' \<and> o_finished ob'"
proof -
  have "\<exists>ob'. Finish clk (Some ob) = Some ob'" by (simp add: Finish_def)
  with Finish_finished show ?thesis by blast
qed

lemma Finish_Finish [simp]: "Finish clk (Finish clk obs) = Finish clk obs"
proof (cases obs)
  case (Some ob)
  with Finish_Some [of clk ob] obtain ob' where "Finish clk obs = Some ob'" "o_finished ob'" by auto
  then show ?thesis by (simp add: Finish_def [of clk "Some ob'"])
qed simp

lemma Observe_Finish [simp]: "Observe clk a (Finish clk obs) = Finish clk obs"
proof (cases obs)
  case (Some ob)
  with Finish_Some [of clk ob] show ?thesis by (auto simp: Observe_stopped)
qed simp

lemma Observe_Some_ex: "\<exists>ob'. Observe clk a (Some ob) = Some ob'"
  by (simp add: Observe_def)

text \<open>Until it is told to finish, the observer of a JSON body makes no call.\<close>

lemma unfinished_json:
  assumes "fresh_observer False fmt cb ot oe ob"
  shows "\<exists>ob'. Observe clk a (Some ob) = Some ob' \<and> \<not> o_finished ob' \<and> o_log ob' = []"
proof -
  obtain ob' where ob': "Observe clk a (Some ob) = Some ob'" using Observe_Some_ex by blast
  then have "\<not> stopped ob'" using fresh_fields(1,6) [OF assms] by (auto simp: Observe_def split: if_splits)
  moreover have "obs_inv ob'"
    using inv_Observe [OF fresh_fields(14) [OF assms], of clk a] ob' by (simp add: observer_inv_def)
  ultimately show ?thesis using ob' inv_running by blast
qed

section \<open>Transparency\<close>

lemma no_EOF_length:
  "\<lbrakk>\<forall>(bs, e) \<in> set rs. e = None \<and> bs \<noteq> [] \<or> e = Some EOF; Some EOF \<notin> snd ` set rs\<rbrakk> \<Longrightarrow>
     length rs \<le> length (delivered rs)"
proof (induction rs)
  case (Cons r rs)
  obtain bs e where "r = (bs, e)" by (cases r)
  with Cons show ?case by (cases bs) auto
qed simp

lemma run_reads_length: "run_reads rd ks b = (rs, b') \<Longrightarrow> length rs = length ks"
  by (induction ks arbitrary: b rs) (auto split: prod.splits)

context byte_source
begin

lemma new_body_ok:
  assumes "observeCompletionUsageBody (Some s) strm fmt len cb ot oe = Some (Wrapped b)" "ok s"
  shows "body_ok b" "body_content b = content s"
proof -
  obtain ob where "b_source b = s" "b_lookahead b = (if \<not> strm \<and> ot \<and> len < 0 then Some NewReaderSize else None)"
    by (rule new_body [OF assms(1)])
  with assms(2) show "body_ok b" "body_content b = content s"
    by (auto simp: body_ok_def body_content_def buffered_ok_def buffered_content_def NewReaderSize_def)
qed

lemmas body_run_content = byte_source.run_reads_content [OF body_source]
lemmas body_run_results = byte_source.run_reads_results [OF body_source]

end

text \<open>C9: a client of the observed body reads the bytes of the source unchanged and in order, and
  nothing else: every read returns at least one byte or the end of file, the end of file comes only
  when all bytes have been delivered, and it does come.\<close>

theorem body_bytes_unchanged:
  assumes "byte_source read content ok" and "ok s" and "0 \<notin> set ks"
    and "observeCompletionUsageBody (Some s) strm fmt len cb ot oe = Some (Wrapped b0)"
    and "run_reads (body_reader clk read) ks b0 = (rs, b)"
  shows "(\<exists>rest. content s = delivered rs @ rest) \<and>
    (\<forall>(bs, e) \<in> set rs. e = None \<and> bs \<noteq> [] \<or> e = Some EOF) \<and>
    (Some EOF \<in> snd ` set rs \<longrightarrow> delivered rs = content s) \<and>
    (length ks > length (content s) \<longrightarrow> Some EOF \<in> snd ` set rs)"
proof -
  note new = byte_source.new_body_ok [OF assms(1,4,2)]
  note run = byte_source.body_run_content [OF assms(1,5) new(1) assms(3)]
    and res = byte_source.body_run_results [OF assms(1,5) new(1) assms(3)]
  have c: "content s = delivered rs @ byte_source.body_content content b" using run new(2) by simp
  moreover have "Some EOF \<in> snd ` set rs" if "length ks > length (content s)"
  proof (rule ccontr)
    assume "Some EOF \<notin> snd ` set rs"
    with no_EOF_length [OF res(1)] run_reads_length [OF assms(5)] that c show False by auto
  qed
  ultimately show ?thesis using res by auto
qed

section \<open>Known content length\<close>

text \<open>Bytes delivered by the reads up to and including number \<open>j\<close>.\<close>

definition total :: "read_result list \<Rightarrow> nat \<Rightarrow> nat" where
  "total rs j = length (delivered (take (Suc j) rs))"

text \<open>The reads deliver a complete body of \<open>len\<close> bytes: one of them reaches that length without a
  read error, and no read before it reports the end of file too early.\<close>

definition complete_at :: "int \<Rightarrow> read_result list \<Rightarrow> nat \<Rightarrow> bool" where
  "complete_at len rs k \<longleftrightarrow>
     int (total rs k) = len \<and> (snd (rs ! k) = None \<or> snd (rs ! k) = Some EOF) \<and>
     (\<forall>j < k. snd (rs ! j) = Some EOF \<longrightarrow> int (total rs j) = len)"

definition complete :: "int \<Rightarrow> read_result list \<Rightarrow> bool" where
  "complete len rs \<longleftrightarrow> (\<exists>k < length rs. complete_at len rs k)"

definition short_EOF :: "int \<Rightarrow> read_result list \<Rightarrow> bool" where
  "short_EOF len rs \<longleftrightarrow> (\<exists>j < length rs. snd (rs ! j) = Some EOF \<and> int (total rs j) < len)"

lemma total_snoc [simp]: "j < length rs \<Longrightarrow> total (rs @ [r]) j = total rs j"
  by (simp add: total_def)

lemma total_last [simp]: "total (rs @ [(bs, e)]) (length rs) = length (delivered rs) + length bs"
  by (simp add: total_def)

lemma total_le: "j < length rs \<Longrightarrow> total rs j \<le> length (delivered rs)"
proof -
  have "length (delivered (take (Suc j) rs @ drop (Suc j) rs)) \<ge> total rs j"
    unfolding delivered_simps by (simp add: total_def)
  then show ?thesis by simp
qed

lemma ex_less_snoc: "(\<exists>j < length (rs @ [r]). P j) \<longleftrightarrow> P (length rs) \<or> (\<exists>j < length rs. P j)"
  by (auto simp: less_Suc_eq)

lemma short_EOF_snoc:
  "short_EOF len (rs @ [(bs, e)]) \<longleftrightarrow>
     short_EOF len rs \<or> (e = Some EOF \<and> int (length (delivered rs) + length bs) < len)"
proof -
  have "(\<exists>j < length rs. snd ((rs @ [(bs, e)]) ! j) = Some EOF \<and> int (total (rs @ [(bs, e)]) j) < len) \<longleftrightarrow>
      short_EOF len rs"
    unfolding short_EOF_def by (intro ex_cong1 conj_cong refl) (simp_all add: nth_append)
  then show ?thesis unfolding short_EOF_def [of len "rs @ [(bs, e)]"] ex_less_snoc by auto
qed

lemma complete_at_snoc: "k < length rs \<Longrightarrow> complete_at len (rs @ [r]) k = complete_at len rs k"
proof -
  assume k: "k < length rs"
  have t: "total (rs @ [r]) j = total rs j" "(rs @ [r]) ! j = rs ! j" if "j \<le> k" for j
    using that k by (simp_all add: nth_append)
  have "(\<forall>j < k. snd ((rs @ [r]) ! j) = Some EOF \<longrightarrow> int (total (rs @ [r]) j) = len) \<longleftrightarrow>
      (\<forall>j < k. snd (rs ! j) = Some EOF \<longrightarrow> int (total rs j) = len)"
    using t by (metis less_imp_le)
  with t [OF order_refl] show ?thesis by (simp only: complete_at_def)
qed

lemma complete_at_last:
  "complete_at len (rs @ [(bs, e)]) (length rs) \<longleftrightarrow>
     int (length (delivered rs) + length bs) = len \<and> (e = None \<or> e = Some EOF) \<and> \<not> short_EOF len rs"
proof (cases "int (length (delivered rs) + length bs) = len")
  case True
  have "int (total rs j) = len \<longleftrightarrow> \<not> int (total rs j) < len" if "j < length rs" for j
    using total_le [OF that] True by linarith
  then have "(\<forall>j < length rs. snd (rs ! j) = Some EOF \<longrightarrow> int (total rs j) = len) \<longleftrightarrow> \<not> short_EOF len rs"
    unfolding short_EOF_def by blast
  with True show ?thesis by (simp add: complete_at_def nth_append)
qed (simp add: complete_at_def)

lemma complete_snoc:
  "complete len (rs @ [(bs, e)]) \<longleftrightarrow>
     complete len rs \<or> (int (length (delivered rs) + length bs) = len \<and> (e = None \<or> e = Some EOF) \<and> \<not> short_EOF len rs)"
proof -
  have "complete len (rs @ [(bs, e)]) \<longleftrightarrow>
      complete_at len (rs @ [(bs, e)]) (length rs) \<or> (\<exists>k < length rs. complete_at len (rs @ [(bs, e)]) k)"
    unfolding complete_def ex_less_snoc ..
  also have "(\<exists>k < length rs. complete_at len (rs @ [(bs, e)]) k) \<longleftrightarrow> complete len rs"
    unfolding complete_def by (intro ex_cong1 conj_cong refl) (rule complete_at_snoc)
  finally show ?thesis unfolding complete_at_last by blast
qed

lemma complete_le: "complete len rs \<Longrightarrow> len \<le> int (length (delivered rs))"
  using total_le by (fastforce simp: complete_def complete_at_def)

text \<open>One read of a body with an expected length, whatever the source does.\<close>

lemma known_read:
  assumes "b_hasExpectedLength b" "b_lookahead b = None" "body_Read clk read k b = (bs, e, b')"
  shows "\<exists>s'. b' = observeExpectedLength clk (length bs) e (b\<lparr>b_source := s', b_observer := Observe clk bs (b_observer b)\<rparr>)"
proof -
  obtain qs f t where r: "read (b_source b) k = (qs, f, t)" by (metis prod_cases3)
  then have "bs = qs" "e = f" using assms by (auto simp: body_Read_def body_inner_read_def Let_def)
  moreover have "b\<lparr>b_source := t, b_observer := b_observer b\<rparr> = b\<lparr>b_source := t\<rparr>" by (cases b) simp
  ultimately show ?thesis
    using assms r by (intro exI [of _ t]) (cases "bs = []"; simp add: body_Read_def body_inner_read_def Let_def)
qed

definition known_inv ::
  "clock \<Rightarrow> int \<Rightarrow> CompletionUsageObserver \<Rightarrow> read_result list \<Rightarrow> 's completionUsageBody \<Rightarrow> bool" where
  "known_inv clk len ob rs b \<longleftrightarrow>
     b_hasExpectedLength b \<and> b_lookahead b = None \<and>
     b_observer b = (if complete len rs then Finish clk (Observe clk (take (nat len) (delivered rs)) (Some ob))
                     else Observe clk (delivered rs) (Some ob)) \<and>
     (\<not> b_expectedLengthBad b \<longrightarrow> b_remaining b = len - int (length (delivered rs)) \<and> 0 \<le> b_remaining b) \<and>
     (\<not> complete len rs \<longrightarrow>
        (b_expectedLengthBad b \<longleftrightarrow> int (length (delivered rs)) > len \<or> short_EOF len rs))"

lemma known_step:
  assumes inv: "known_inv clk len ob rs b" and rd: "body_Read clk read k b = (bs, e, b')"
  shows "known_inv clk len ob (rs @ [(bs, e)]) b'"
proof -
  obtain t where b': "b' = observeExpectedLength clk (length bs) e (b\<lparr>b_source := t, b_observer := Observe clk bs (b_observer b)\<rparr>)"
    using known_read [OF _ _ rd] inv by (auto simp: known_inv_def)
  let ?d = "delivered rs" and ?d' = "delivered rs @ bs"
  have some: "Observe clk bs (b_observer b) \<noteq> None"
    using inv Observe_Some_ex Finish_Some unfolding known_inv_def
    by (metis Observe_Finish option.distinct(1))
  show ?thesis
  proof (cases "complete len rs")
    case True
    define fin where "fin = Finish clk (Observe clk (take (nat len) ?d) (Some ob))"
    have "take (nat len) ?d' = take (nat len) ?d" using complete_le [OF True] by simp
    then have fin': "Finish clk (Observe clk (take (nat len) ?d') (Some ob)) = fin" by (simp only: fin_def)
    have obs: "b_observer b = fin" "Observe clk bs fin = fin" "Finish clk fin = fin"
      using inv True by (simp_all add: known_inv_def fin_def)
    with inv True some fin' show ?thesis
      by (auto simp: known_inv_def b' observeExpectedLength_def Let_def complete_snoc simp del: take_append)
  next
    case False
    have obs: "Observe clk bs (b_observer b) = Observe clk ?d' (Some ob)"
      using inv False by (simp add: known_inv_def Observe_append)
    show ?thesis
    proof (cases "b_expectedLengthBad b")
      case True
      with inv False obs some show ?thesis
        by (auto simp: known_inv_def b' observeExpectedLength_def complete_snoc short_EOF_snoc)
    next
      case ok: False
      with inv False have r: "b_remaining b = len - int (length ?d)" "0 \<le> b_remaining b"
        "\<not> int (length ?d) > len" "\<not> short_EOF len rs"
        by (auto simp: known_inv_def)
      show ?thesis
        using inv False ok obs some r
        by (auto simp: known_inv_def b' observeExpectedLength_def Let_def complete_snoc short_EOF_snoc)
    qed
  qed
qed

lemma known_run:
  "\<lbrakk>known_inv clk len ob [] b0; run_reads (body_reader clk read) ks b0 = (rs, b)\<rbrakk> \<Longrightarrow> known_inv clk len ob rs b"
proof (induction ks arbitrary: rs b rule: rev_induct)
  case (snoc k ks)
  obtain rs1 b1 where run: "run_reads (body_reader clk read) ks b0 = (rs1, b1)" by fastforce
  obtain bs e b2 where rd: "body_Read clk read k b1 = (bs, e, b2)" by (metis prod_cases3)
  from snoc.IH [OF snoc.prems(1) run] have "known_inv clk len ob rs1 b1" .
  from known_step [OF this rd] snoc.prems(2) run rd show ?case by (simp add: run_reads_snoc)
qed simp

text \<open>C10: with a terminal callback and a known content length, the observer of a JSON body is finished
  exactly when one of the reads ends at that length, without a read error and with no end of file
  before it, whatever errors the source returns. So it is never finished for a body that is cut off, nor
  for one that overruns within a read; bytes that only later reads deliver come too late to be noticed.
  Once finished it has judged exactly the first \<open>len\<close> bytes and made its calls, the terminal call among
  them; before that it has made none.\<close>

theorem known_length_terminal:
  assumes "observeCompletionUsageBody (Some s) False fmt len cb True oe = Some (Wrapped b0)" and "0 \<le> len"
    and "run_reads (body_reader clk read) ks b0 = (rs, b)"
  shows "\<exists>ob. b_observer b = Some ob \<and> (o_finished ob \<longleftrightarrow> complete len rs) \<and>
    o_log ob = (if complete len rs
                then expected_calls cb True oe False (json_result clk fmt (take (nat len) (delivered rs))) else []) \<and>
    (int (length (delivered rs)) < len \<longrightarrow> \<not> o_finished ob) \<and>
    ((\<forall>k < length rs. int (total rs k) \<noteq> len) \<longrightarrow> \<not> o_finished ob)"
proof -
  obtain ob0 where new: "b_observer b0 = Some ob0" "fresh_observer False fmt cb True oe ob0"
    "b_hasExpectedLength b0" "\<not> b_expectedLengthBad b0" "b_remaining b0 = len" "b_lookahead b0 = None"
    using new_body [OF assms(1)] assms(2) by (metis linorder_not_less)
  have "known_inv clk len ob0 [] b0"
    using new assms(2) by (simp add: known_inv_def complete_def short_EOF_def)
  note inv = known_run [OF this assms(3)]
  have "\<exists>ob. b_observer b = Some ob \<and> (o_finished ob \<longleftrightarrow> complete len rs) \<and>
    o_log ob = (if complete len rs
                then expected_calls cb True oe False (json_result clk fmt (take (nat len) (delivered rs))) else [])"
  proof (cases "complete len rs")
    case True
    then have "b_observer b = Finish clk (Observe clk (take (nat len) (delivered rs)) (Some ob0))"
      using inv by (simp add: known_inv_def)
    with fresh_json_calls [OF new(2), of clk "take (nat len) (delivered rs)"] True show ?thesis
      by (metis Finish_Finish Finish_Some option.inject)
  next
    case False
    then have "b_observer b = Observe clk (delivered rs) (Some ob0)" using inv by (simp add: known_inv_def)
    with unfinished_json [OF new(2)] False show ?thesis by simp
  qed
  moreover have "\<not> complete len rs" if "int (length (delivered rs)) < len" using that complete_le by fastforce
  moreover have "\<not> complete len rs" if "\<forall>k < length rs. int (total rs k) \<noteq> len"
    using that by (auto simp: complete_def complete_at_def)
  ultimately show ?thesis by blast
qed

section \<open>Looking ahead, and plain end of file\<close>

text \<open>After a read, the observer has seen its bytes, and it is finished if the body is complete:
  when all bytes are delivered (with a lookahead) or when the end of file was returned (without).\<close>

definition observed :: "clock \<Rightarrow> bool \<Rightarrow> bytes \<Rightarrow> CompletionUsageObserver option \<Rightarrow> CompletionUsageObserver option" where
  "observed clk fin d obs = (if fin then Finish clk (Observe clk d obs) else Observe clk d obs)"

lemma observed_step: "(fin \<Longrightarrow> bs = []) \<Longrightarrow> (fin \<Longrightarrow> fin') \<Longrightarrow>
    (if fin' then Finish clk (Observe clk bs (observed clk fin d obs)) else Observe clk bs (observed clk fin d obs))
      = observed clk fin' (d @ bs) obs"
  by (auto simp: observed_def Observe_append)

lemma Observe_nonempty:
  "(if 0 < length bs then b\<lparr>b_observer := Observe clk bs (b_observer b)\<rparr> else b) =
     b\<lparr>b_observer := Observe clk bs (b_observer b)\<rparr>"
  by (cases "bs = []") (cases b; simp)+

lemma body_Read_eq:
  assumes "body_inner_read read k b = (bs, e, b1)"
    and "b2 = b1\<lparr>b_observer := Observe clk bs (b_observer b1)\<rparr>"
  shows "body_Read clk read k b = (bs, e,
    if b_hasExpectedLength b2 then observeExpectedLength clk (length bs) e b2
    else if e = Some EOF then b2\<lparr>b_observer := Finish clk (b_observer b2)\<rparr>
    else if e = None \<and> 0 < length bs then body_peek clk read b2 else b2)"
  unfolding body_Read_def assms(1) prod.case Let_def Observe_nonempty assms(2) ..

context byte_source
begin

lemma plain_read:
  assumes "b_lookahead b = None" "\<not> b_hasExpectedLength b" "body_Read clk read k b = (bs, e, b')"
  shows "b_lookahead b' = None \<and> \<not> b_hasExpectedLength b' \<and>
    b_observer b' = (if e = Some EOF then Finish clk (Observe clk bs (b_observer b)) else Observe clk bs (b_observer b))"
proof -
  obtain qs f t where "read (b_source b) k = (qs, f, t)" by (metis prod_cases3)
  then have r: "body_inner_read read k b = (qs, f, b\<lparr>b_source := t\<rparr>)"
    using assms(1) by (simp add: body_inner_read_def)
  from body_Read_eq [OF this refl, of clk] assms show ?thesis
    by (auto simp: body_peek_def)
qed

lemma look_read:
  assumes l: "b_lookahead b = Some l" and n: "\<not> b_hasExpectedLength b" and k: "0 < k" and ok: "body_ok b"
    and rd: "body_Read clk read k b = (bs, e, b')"
  shows "b_lookahead b' \<noteq> None \<and> \<not> b_hasExpectedLength b' \<and>
    b_observer b' = (if body_content b' = [] then Finish clk (Observe clk bs (b_observer b))
                     else Observe clk bs (b_observer b))"
proof -
  obtain b1 where b1: "body_inner_read read k b = (bs, e, b1)" "body_content b' = body_content b1"
    by (rule body_Read_inner [OF k ok rd])
  note law = body_inner_law [OF k ok b1(1)]
  obtain l1 where l1: "b_lookahead b1 = Some l1" "b_observer b1 = b_observer b" "\<not> b_hasExpectedLength b1"
    using b1(1) l n by (auto simp: body_inner_read_def split: prod.splits)
  define b2 where "b2 = b1\<lparr>b_observer := Observe clk bs (b_observer b)\<rparr>"
  have b': "b' = (if e = Some EOF then b2\<lparr>b_observer := Finish clk (b_observer b2)\<rparr>
      else if e = None \<and> 0 < length bs then body_peek clk read b2 else b2)"
    using body_Read_eq [OF b1(1) b2_def [folded l1(2)]] rd l1 by (simp add: b2_def)
  show ?thesis
  proof (cases "e = Some EOF")
    case True
    then have "body_content b1 = []" using law by (metis append_is_Nil_conv option.distinct(1))
    with True l1 b1(2) show ?thesis by (simp add: b' b2_def)
  next
    case False
    with law have bs: "bs \<noteq> []" "e = None" by blast+
    obtain pe l' s' where pk: "bufio_Peek1 read l1 (b_source b1) = (pe, l', s')" by (metis prod_cases3)
    have "buffered_ok (l1, b_source b1)" using law l1 by (simp add: body_ok_def)
    from bufio_Peek1_law [OF this pk] have pe: "pe = Some EOF \<longleftrightarrow> body_content b1 = []"
      using l1 by (auto simp: body_content_def split: if_splits)
    with bs pk l1 b1(2) show ?thesis
      by (auto simp: b' b2_def body_peek_def Let_def)
  qed
qed

lemma plain_run:
  assumes "b_lookahead b0 = None" "\<not> b_hasExpectedLength b0" "body_ok b0" "0 \<notin> set ks"
    and "run_reads (body_reader clk read) ks b0 = (rs, b)"
  shows "b_lookahead b = None \<and> \<not> b_hasExpectedLength b \<and>
    b_observer b = observed clk (Some EOF \<in> snd ` set rs) (delivered rs) (b_observer b0)"
  using assms(4,5)
proof (induction ks arbitrary: rs b rule: rev_induct)
  case Nil
  with assms show ?case by (simp add: observed_def)
next
  case (snoc k ks)
  obtain rs1 b1 where run: "run_reads (body_reader clk read) ks b0 = (rs1, b1)" by fastforce
  obtain bs e b2 where rd: "body_Read clk read k b1 = (bs, e, b2)" by (metis prod_cases3)
  have ks: "0 < k" "0 \<notin> set ks" using snoc.prems(1) by auto
  note IH = snoc.IH [OF ks(2) run]
  have c: "body_ok b1" "Some EOF \<in> snd ` set rs1 \<Longrightarrow> body_content b1 = []"
    using body_run_content [OF run assms(3) ks(2)] body_run_results(2) [OF run assms(3) ks(2)] by auto
  have seen: "Some EOF \<in> snd ` set rs1 \<Longrightarrow> bs = [] \<and> e = Some EOF"
    using byte_source.read_law [OF body_source ks(1) c(1) rd] c(2) by auto
  have rs: "rs = rs1 @ [(bs, e)]" "b = b2" using snoc.prems(2) run rd by (auto simp: run_reads_snoc)
  have "Some EOF \<in> snd ` set rs \<longleftrightarrow> e = Some EOF" using seen by (auto simp: rs(1))
  moreover have "b_lookahead b2 = None \<and> \<not> b_hasExpectedLength b2 \<and>
      b_observer b2 = observed clk (e = Some EOF) (delivered rs1 @ bs) (b_observer b0)"
    using plain_read [OF _ _ rd] IH observed_step [of "Some EOF \<in> snd ` set rs1" bs "e = Some EOF"] seen by auto
  ultimately show ?case by (simp add: rs)
qed

lemma look_run:
  assumes "b_lookahead b0 \<noteq> None" "\<not> b_hasExpectedLength b0" "body_ok b0" "0 \<notin> set ks"
    and "run_reads (body_reader clk read) ks b0 = (rs, b)"
  shows "b_lookahead b \<noteq> None \<and> \<not> b_hasExpectedLength b \<and>
    b_observer b = observed clk (ks \<noteq> [] \<and> body_content b = []) (delivered rs) (b_observer b0)"
  using assms(4,5)
proof (induction ks arbitrary: rs b rule: rev_induct)
  case Nil
  with assms show ?case by (simp add: observed_def)
next
  case (snoc k ks)
  obtain rs1 b1 where run: "run_reads (body_reader clk read) ks b0 = (rs1, b1)" by fastforce
  obtain bs e b2 where rd: "body_Read clk read k b1 = (bs, e, b2)" by (metis prod_cases3)
  have ks: "0 < k" "0 \<notin> set ks" using snoc.prems(1) by auto
  note IH = snoc.IH [OF ks(2) run]
  have ok: "body_ok b1" using body_run_content [OF run assms(3) ks(2)] by blast
  then obtain l where l: "b_lookahead b1 = Some l" using IH by auto
  have "body_content b1 = bs @ body_content b2"
    using byte_source.read_law [OF body_source ks(1) ok rd] by blast
  then have seen: "body_content b1 = [] \<Longrightarrow> bs = [] \<and> body_content b2 = []" by simp
  have rs: "rs = rs1 @ [(bs, e)]" "b = b2" using snoc.prems(2) run rd by (auto simp: run_reads_snoc)
  have "b_lookahead b2 \<noteq> None \<and> \<not> b_hasExpectedLength b2 \<and>
      b_observer b2 = observed clk (body_content b2 = []) (delivered rs1 @ bs) (b_observer b0)"
    using look_read [OF l _ ks(1) ok rd] IH
      observed_step [of "ks \<noteq> [] \<and> body_content b1 = []" bs "body_content b2 = []"] seen by auto
  then show ?case by (simp add: rs)
qed

end

text \<open>C11: with a terminal callback and no content length, the observer of a JSON body is finished as
  soon as the client has read the last byte, before it asks for the end of file (an empty body at
  the first read), and not earlier; it has then judged the whole body and made its calls.\<close>

theorem lookahead_terminal:
  assumes "byte_source read content ok" and "ok s" and "0 \<notin> set ks" and "len < 0"
    and "observeCompletionUsageBody (Some s) False fmt len cb True oe = Some (Wrapped b0)"
    and "run_reads (body_reader clk read) ks b0 = (rs, b)"
  shows "\<exists>ob. b_observer b = Some ob \<and>
    (o_finished ob \<longleftrightarrow> ks \<noteq> [] \<and> delivered rs = content s) \<and>
    o_log ob = (if ks \<noteq> [] \<and> delivered rs = content s
                then expected_calls cb True oe False (json_result clk fmt (content s)) else [])"
proof -
  note new_ok = byte_source.new_body_ok [OF assms(1,5,2)]
  obtain ob0 where new: "b_observer b0 = Some ob0" "fresh_observer False fmt cb True oe ob0"
    "\<not> b_hasExpectedLength b0" "b_lookahead b0 \<noteq> None"
    by (rule new_body [OF assms(5)]) (use assms(4) in auto)
  note run = byte_source.look_run [OF assms(1) new(4,3) new_ok(1) assms(3,6)]
  have fin: "byte_source.body_content content b = [] \<longleftrightarrow> delivered rs = content s"
    using byte_source.body_run_content [OF assms(1,6) new_ok(1) assms(3)] new_ok(2) by simp
  show ?thesis
  proof (cases "ks \<noteq> [] \<and> delivered rs = content s")
    case True
    with run fin new(1) have "b_observer b = Finish clk (Observe clk (content s) (Some ob0))"
      by (simp add: observed_def)
    with fresh_json_calls [OF new(2), of clk "content s"] True show ?thesis
      by (metis Finish_Finish Finish_Some option.inject)
  next
    case False
    with run fin new(1) have "b_observer b = Observe clk (delivered rs) (Some ob0)"
      by (auto simp: observed_def)
    with unfinished_json [OF new(2)] False show ?thesis by auto
  qed
qed

text \<open>C12: the observer of a streaming body, read to its end in any pieces, has made exactly the calls
  the reference semantics prescribes for the whole content of the source.\<close>

theorem streaming_body_refines:
  assumes "byte_source read content ok" and "ok s" and "0 \<notin> set ks"
    and "observeCompletionUsageBody (Some s) True fmt len cb ot oe = Some (Wrapped b0)"
    and "run_reads (body_reader clk read) ks b0 = (rs, b)" and "length ks > length (content s)"
  shows "\<exists>ob. b_observer b = Some ob \<and>
    o_log ob = expected_calls cb ot oe (has_done (stream_events (content s)))
      (verdict clk (stream_outcomes fmt (stream_events (content s))))"
proof -
  note new_ok = byte_source.new_body_ok [OF assms(1,4,2)]
  obtain ob0 where new: "b_observer b0 = Some ob0" "fresh_observer True fmt cb ot oe ob0"
    "\<not> b_hasExpectedLength b0" "b_lookahead b0 = None"
    by (rule new_body [OF assms(4)]) auto
  note run = byte_source.plain_run [OF assms(1) new(4,3) new_ok(1) assms(3,5)]
    and res = byte_source.body_run_results [OF assms(1,5) new_ok(1) assms(3)]
    and c = byte_source.body_run_content [OF assms(1,5) new_ok(1) assms(3)]
  have eof: "Some EOF \<in> snd ` set rs"
  proof (rule ccontr)
    assume "Some EOF \<notin> snd ` set rs"
    with no_EOF_length [OF res(1)] run_reads_length [OF assms(5)] assms(6) c new_ok(2) show False by auto
  qed
  then have "delivered rs = content s" using res(2) c new_ok(2) by simp
  with run eof new(1) have "b_observer b = Finish clk (Observe clk (content s) (Some ob0))"
    by (simp add: observed_def)
  with fresh_stream_calls [OF new(2), of clk "content s"] show ?thesis by simp
qed

section \<open>Concrete bodies\<close>

lemma wrapped_ex:
  assumes "cb \<or> ot \<or> oe"
  obtains b0 where "observeCompletionUsageBody (Some s) strm fmt len cb ot oe = Some (Wrapped b0)"
  using assms by (auto simp: observeCompletionUsageBody_def Let_def)

lemmas bytes_source = bytes_reader.byte_source_axioms

theorem body_bytes_unchanged_witness:
  "\<exists>b0 rs b. observeCompletionUsageBody (Some ''abc'') True CompletionUsageFormatResponses 3 True False False = Some (Wrapped b0) \<and>
     run_reads (body_reader (\<lambda>n. 7) bytesReader_Read) [2, 2, 2, 2] b0 = (rs, b) \<and> delivered rs = ''abc''"
proof -
  obtain b0 where b0: "observeCompletionUsageBody (Some ''abc'') True CompletionUsageFormatResponses 3 True False False = Some (Wrapped b0)"
    by (rule wrapped_ex [of True False False]) simp
  obtain rs b where run: "run_reads (body_reader (\<lambda>n. 7) bytesReader_Read) [2, 2, 2, 2] b0 = (rs, b)" by fastforce
  have "0 \<notin> set [2, 2, 2, 2 :: nat]" by simp
  from body_bytes_unchanged [OF bytes_source TrueI this b0 run] b0 run show ?thesis by auto
qed

lemma observeExpectedLength_keeps:
  "b_source (observeExpectedLength clk n e b) = b_source b" "b_lookahead (observeExpectedLength clk n e b) = b_lookahead b"
  by (simp_all add: observeExpectedLength_def Let_def)

theorem known_length_terminal_witness:
  "\<exists>b0 rs b ob. observeCompletionUsageBody (Some ''{}x'') False CompletionUsageFormatResponses 2 False True False = Some (Wrapped b0) \<and>
     run_reads (body_reader (\<lambda>n. 7) bytesReader_Read) [2, 1] b0 = (rs, b) \<and> delivered rs = ''{}x'' \<and>
     b_observer b = Some ob \<and> o_finished ob \<and> o_log ob = [CallTerminal]"
proof -
  obtain b0 where b0: "observeCompletionUsageBody (Some ''{}x'') False CompletionUsageFormatResponses 2 False True False = Some (Wrapped b0)"
    by (rule wrapped_ex [of False True False]) simp
  have new: "b_source b0 = ''{}x''" "b_lookahead b0 = None" "b_hasExpectedLength b0" by (rule new_body [OF b0]; simp)+
  obtain rs b where run: "run_reads (body_reader (\<lambda>n. 7) bytesReader_Read) [2, 1] b0 = (rs, b)" by fastforce
  then have rs: "rs = [(''{}'', None), (''x'', None)]"
    using new by (auto simp: body_Read_def body_inner_read_def bytesReader_Read_def observeExpectedLength_keeps Let_def split: if_splits)
  have c: "complete 2 rs" unfolding complete_def rs by (intro exI [of _ 0]) (simp add: complete_at_def total_def)
  have "(0 :: int) \<le> 2" by simp
  from known_length_terminal [OF b0 this run] b0 run c rs show ?thesis
    by (fastforce simp: expected_calls_def)
qed

theorem lookahead_terminal_witness:
  "\<exists>b0 rs b ob. observeCompletionUsageBody (Some ''{}'') False CompletionUsageFormatResponses (-1) False True False = Some (Wrapped b0) \<and>
     run_reads (body_reader (\<lambda>n. 7) bytesReader_Read) [5] b0 = (rs, b) \<and> rs = [(''{}'', None)] \<and>
     b_observer b = Some ob \<and> o_finished ob \<and> o_log ob = [CallTerminal]"
proof -
  obtain b0 where b0: "observeCompletionUsageBody (Some ''{}'') False CompletionUsageFormatResponses (-1) False True False = Some (Wrapped b0)"
    by (rule wrapped_ex [of False True False]) simp
  then have src: "b_source b0 = ''{}''" "b_lookahead b0 = Some NewReaderSize"
    by (auto simp: observeCompletionUsageBody_def Let_def)
  obtain rs b where run: "run_reads (body_reader (\<lambda>n. 7) bytesReader_Read) [5] b0 = (rs, b)" by fastforce
  then have rs: "rs = [(''{}'', None)]"
    using src by (auto simp: body_Read_def body_inner_read_def bytesReader_Read_def bufio_Read_def NewReaderSize_def
        completionUsageLookaheadBytes_def Let_def)
  have "0 \<notin> set [5 :: nat]" "(-1 :: int) < 0" by simp_all
  from lookahead_terminal [OF bytes_source TrueI this b0 run] b0 run rs show ?thesis
    by (fastforce simp: expected_calls_def)
qed

theorem streaming_body_refines_witness:
  "\<exists>b0 rs b ob. observeCompletionUsageBody (Some ''data: [DONE]'') True CompletionUsageFormatResponses (-1) False True False = Some (Wrapped b0) \<and>
     run_reads (body_reader (\<lambda>n. 7) bytesReader_Read) (replicate 13 1) b0 = (rs, b) \<and>
     b_observer b = Some ob \<and> o_log ob = [CallTerminal]"
proof -
  obtain b0 where b0: "observeCompletionUsageBody (Some ''data: [DONE]'') True CompletionUsageFormatResponses (-1) False True False = Some (Wrapped b0)"
    by (rule wrapped_ex [of False True False]) simp
  obtain rs b where run: "run_reads (body_reader (\<lambda>n. 7) bytesReader_Read) (replicate 13 1) b0 = (rs, b)" by fastforce
  have "0 \<notin> set (replicate 13 (1 :: nat))" by simp
  from streaming_body_refines [OF bytes_source TrueI this b0 run] b0 run show ?thesis
    by (cases "has_done (stream_events ''data: [DONE]'')") (simp_all add: expected_calls_def)
qed

end
