(* ===== verification/Usage_Props.thy ===== *)
theory Usage_Props
  imports Usage_Decode
begin

text \<open>
  What the usage decoder guarantees: token counts and durations in range, results with nothing in
  them unless usage is available, and that a printed usage report is read back.
\<close>

section \<open>Range of decoded values\<close>

lemma fold_members_inv:
  assumes "\<And>k raw v st st'. \<lbrakk>f k raw v st = Some st'; P st\<rbrakk> \<Longrightarrow> P st'"
  shows "\<lbrakk>fold_members f ms st = Some st'; P st\<rbrakk> \<Longrightarrow> P st'"
  using assms by (induction ms arbitrary: st) (auto split: option.splits)

lemma unmarshal_struct_inv:
  assumes "\<And>k raw v st st'. \<lbrakk>f k raw v st = Some st'; P st\<rbrakk> \<Longrightarrow> P st'"
  shows "\<lbrakk>unmarshal_struct f v st = Some st'; P st\<rbrakk> \<Longrightarrow> P st'"
  unfolding unmarshal_struct_def
  using fold_members_inv [of f P, OF assms] by (auto split: json.splits)

lemma unmarshal_ptr_inv:
  assumes "\<And>v st st'. \<lbrakk>dec v st = Some st'; P st\<rbrakk> \<Longrightarrow> P st'"
  shows "\<lbrakk>unmarshal_ptr dec zero v p = Some p'; P zero; pred_option P p\<rbrakk> \<Longrightarrow> pred_option P p'"
  unfolding unmarshal_ptr_def
  by (auto split: if_splits option.splits dest: assms)

lemma unmarshal_int64_ok: "unmarshal_int64 v = Some p \<Longrightarrow> pred_option int64_ok p"
  by (auto simp: unmarshal_int64_def split: json.splits dest: parse_int64_range)

definition value_ok :: "completionUsageValue \<Rightarrow> bool" where
  "value_ok u \<longleftrightarrow> pred_option int64_ok (uv_PromptTokens u) \<and> pred_option int64_ok (uv_CompletionTokens u)"

definition resp_value_ok :: "responsesUsageValue \<Rightarrow> bool" where
  "resp_value_ok u \<longleftrightarrow> pred_option int64_ok (InputTokens u) \<and> pred_option int64_ok (OutputTokens u)"

definition env_ok :: "completionUsageEnvelope \<Rightarrow> bool" where
  "env_ok e \<longleftrightarrow> pred_option value_ok (env_Usage e)"

definition resp_env_ok :: "responsesUsageEnvelope \<Rightarrow> bool" where
  "resp_env_ok e \<longleftrightarrow> pred_option resp_value_ok (resp_Usage e)"

definition resp_event_ok :: "responsesUsageEvent \<Rightarrow> bool" where
  "resp_event_ok e \<longleftrightarrow> pred_option resp_env_ok (ev_Response e)"

lemma store_usage_value_ok: "\<lbrakk>store_usage_value k raw v u = Some u'; value_ok u\<rbrakk> \<Longrightarrow> value_ok u'"
  by (auto simp: store_usage_value_def value_ok_def split: if_splits dest: unmarshal_int64_ok)

lemma store_responses_value_ok:
  "\<lbrakk>store_responses_value k raw v u = Some u'; resp_value_ok u\<rbrakk> \<Longrightarrow> resp_value_ok u'"
  by (auto simp: store_responses_value_def resp_value_ok_def split: if_splits dest: unmarshal_int64_ok)

lemma store_envelope_ok: "\<lbrakk>store_envelope k raw v e = Some e'; env_ok e\<rbrakk> \<Longrightarrow> env_ok e'"
  using unmarshal_ptr_inv [of "unmarshal_struct store_usage_value" value_ok,
      OF unmarshal_struct_inv [of store_usage_value value_ok, OF store_usage_value_ok]]
  by (auto simp: store_envelope_def env_ok_def value_ok_def split: if_splits)

lemma store_responses_envelope_ok:
  "\<lbrakk>store_responses_envelope k raw v e = Some e'; resp_env_ok e\<rbrakk> \<Longrightarrow> resp_env_ok e'"
  using unmarshal_ptr_inv [of "unmarshal_struct store_responses_value" resp_value_ok,
      OF unmarshal_struct_inv [of store_responses_value resp_value_ok, OF store_responses_value_ok]]
  by (auto simp: store_responses_envelope_def resp_env_ok_def resp_value_ok_def split: if_splits)

lemma store_responses_event_ok:
  "\<lbrakk>store_responses_event k raw v e = Some e'; resp_event_ok e\<rbrakk> \<Longrightarrow> resp_event_ok e'"
  using unmarshal_ptr_inv [of "unmarshal_struct store_responses_envelope" resp_env_ok,
      OF unmarshal_struct_inv [of store_responses_envelope resp_env_ok, OF store_responses_envelope_ok]]
  by (auto simp: store_responses_event_def resp_event_ok_def resp_env_ok_def split: if_splits)

lemma unmarshal_inv:
  assumes "\<And>k raw v st st'. \<lbrakk>f k raw v st = Some st'; P st\<rbrakk> \<Longrightarrow> P st'"
  shows "\<lbrakk>unmarshal f payload st = Some st'; P st\<rbrakk> \<Longrightarrow> P st'"
  unfolding unmarshal_def Option.bind_eq_Some_conv
  using unmarshal_struct_inv [of f P, OF assms] by auto

section \<open>Durations\<close>

lemma int64_ok_min [simp]: "int64_ok min_int64"
  by (simp add: int64_ok_def min_int64_def max_int64_def)

lemma float_to_int64_ok [simp]: "int64_ok (float_to_int64 x)"
  by (cases x) (auto simp: Let_def)

lemma millisecondsDuration_ok: "millisecondsDuration x = (d, ok) \<Longrightarrow> int64_ok d"
proof -
  have "int64_ok 0" by (simp add: int64_ok_def min_int64_def max_int64_def)
  then show "millisecondsDuration x = (d, ok) \<Longrightarrow> int64_ok d"
    by (auto simp: millisecondsDuration_def Let_def split: float64.splits if_splits)
qed

lemma decode_duration_ok:
  assumes "decode_duration p store u = Some u'" "\<And>d. int64_ok d \<Longrightarrow> P (store d u)" "P u"
  shows "P u'"
  using assms millisecondsDuration_ok
  by (auto simp: decode_duration_def split: option.splits prod.splits if_splits)

definition tokens_ok :: "CompletionUsage \<Rightarrow> bool" where
  "tokens_ok u \<longleftrightarrow> 0 \<le> PromptTokens u \<and> PromptTokens u \<le> max_int64 \<and>
     0 \<le> CompletionTokens u \<and> CompletionTokens u \<le> max_int64 \<and>
     int64_ok (MeanITL u) \<and> int64_ok (GenerationTime u) \<and> ObservedAt u = None"

lemma decode_metrics_ok: "\<lbrakk>decode_metrics m u = Some u'; tokens_ok u\<rbrakk> \<Longrightarrow> tokens_ok u'"
proof (cases m)
  case (Some mm)
  assume "decode_metrics m u = Some u'" and u: "tokens_ok u"
  with Some obtain u1 where u1: "decode_duration (MeanITLMilliseconds mm) (\<lambda>d u. u\<lparr>MeanITL := d\<rparr>) u = Some u1"
    and u': "decode_duration (GenerationTimeMilliseconds mm) (\<lambda>d u. u\<lparr>GenerationTime := d\<rparr>) u1 = Some u'"
    by (auto simp: decode_metrics_def Option.bind_eq_Some_conv)
  have t: "tokens_ok u1" by (rule decode_duration_ok [OF u1]) (use u in \<open>simp_all add: tokens_ok_def\<close>)
  show ?thesis by (rule decode_duration_ok [OF u']) (use t in \<open>simp_all add: tokens_ok_def\<close>)
qed (simp add: decode_metrics_def)

lemma positive_tokens_ok: "pred_option int64_ok p \<Longrightarrow> 0 \<le> positive_tokens p \<and> positive_tokens p \<le> max_int64"
  by (auto simp: positive_tokens_def int64_ok_def max_int64_def split: option.splits)

lemma decodeCompletions_ok:
  assumes "decodeCompletionsUsageEvidence payload strm = (u, CompletionUsageAvailable)"
  shows "tokens_ok u"
proof -
  from assms obtain env uv t where env: "unmarshal store_envelope payload zero_envelope = Some env"
    and uv: "env_Usage env = Some uv" "uv_CompletionTokens uv = Some t" "0 \<le> t"
    and m: "decode_metrics (env_Metrics env)
      (zero_usage\<lparr>CompletionTokens := t, PromptTokens := positive_tokens (uv_PromptTokens uv)\<rparr>) = Some u"
    by (auto simp: decodeCompletionsUsageEvidence_def not_less split: option.splits if_splits)
  have "env_ok env"
    using unmarshal_inv [of store_envelope env_ok, OF store_envelope_ok env]
    by (simp add: env_ok_def zero_envelope_def)
  with uv have "pred_option int64_ok (uv_PromptTokens uv)" "int64_ok t" by (auto simp: env_ok_def value_ok_def)
  with uv positive_tokens_ok show ?thesis
    by (intro decode_metrics_ok [OF m]) (auto simp: tokens_ok_def zero_usage_def int64_ok_def min_int64_def)
qed

lemma classify_responses_ok:
  "\<lbrakk>classify_responses e = (u, CompletionUsageAvailable); pred_option resp_env_ok e\<rbrakk> \<Longrightarrow> tokens_ok u"
  using positive_tokens_ok
  by (auto simp: classify_responses_def resp_env_ok_def resp_value_ok_def tokens_ok_def zero_usage_def
      int64_ok_def min_int64_def split: option.splits if_splits)

lemma decodeResponses_ok:
  assumes "decodeResponsesUsageEvidence payload strm = (u, CompletionUsageAvailable)"
  shows "tokens_ok u"
proof (cases strm)
  case True
  with assms obtain ev where ev: "unmarshal store_responses_event payload \<lparr>ev_Type = [], ev_Response = None\<rparr> = Some ev"
    "classify_responses (ev_Response ev) = (u, CompletionUsageAvailable)"
    by (auto simp: decodeResponsesUsageEvidence_def split: option.splits if_splits)
  have "resp_event_ok ev"
    using unmarshal_inv [of store_responses_event resp_event_ok, OF store_responses_event_ok ev(1)]
    by (simp add: resp_event_ok_def)
  with ev(2) show ?thesis by (auto simp: resp_event_ok_def dest: classify_responses_ok)
next
  case False
  with assms obtain e where e: "unmarshal store_responses_envelope payload \<lparr>resp_Usage = None\<rparr> = Some e"
    "classify_responses (Some e) = (u, CompletionUsageAvailable)"
    by (auto simp: decodeResponsesUsageEvidence_def split: option.splits)
  have "resp_env_ok e"
    using unmarshal_inv [of store_responses_envelope resp_env_ok, OF store_responses_envelope_ok e(1)]
    by (simp add: resp_env_ok_def)
  with e(2) show ?thesis by (auto dest: classify_responses_ok)
qed

text \<open>C5: whatever the payload, usage reported as available has token counts between 0 and the largest
  \<open>int64\<close>, durations that fit \<open>int64\<close>, and no time stamp yet; any other outcome comes with an empty
  usage value.\<close>

theorem decode_usage_in_range:
  assumes "decodeCompletionUsageEvidence payload strm fmt = (u, out)"
  shows "if out = CompletionUsageAvailable then tokens_ok u else u = zero_usage"
proof (cases "out = CompletionUsageAvailable")
  case True
  with assms have "tokens_ok u"
    using decodeCompletions_ok [of payload strm u] decodeResponses_ok [of payload strm u]
    by (simp add: decodeCompletionUsageEvidence_def split: if_splits)
  with True show ?thesis by simp
next
  case False
  with decode_unavailable_zero [OF assms] show ?thesis by simp
qed

section \<open>Accuracy of durations\<close>

lemma round64_pos: "0 < q \<Longrightarrow> round64 q = Inf False \<or> (\<exists>v \<ge> 0. round64 q = Fin v)"
proof -
  assume q: "0 < q"
  then have "round64 q = Inf False \<or> (\<exists>v. round64 q = Fin v)"
    by (simp add: round64_def Let_def)
  with round64_nonneg [of q] q show ?thesis by (meson less_imp_le)
qed

section \<open>Decoding of parsed reports\<close>

lemma field_names:
   "field_is ''choices'' ''choices''"
   "\<not> field_is ''choices'' ''usage''" "field_is ''usage'' ''usage''"
   "\<not> field_is ''choices'' ''metrics''" "\<not> field_is ''usage'' ''metrics''" "field_is ''metrics'' ''metrics''"
   "\<not> field_is ''prompt_tokens'' ''completion_tokens''" "field_is ''completion_tokens'' ''completion_tokens''"
   "field_is ''prompt_tokens'' ''prompt_tokens''"
   "field_is ''mean_itl_ms'' ''mean_itl_ms''"
   "\<not> field_is ''mean_itl_ms'' ''generation_time_ms''" "field_is ''generation_time_ms'' ''generation_time_ms''"
  by code_simp+

lemma empty_choices: "UnmarshalJSON ''[]'' c = Some (c\<lparr>choices_present := True, choices_empty := True\<rparr>)"
proof -
  have "trim_space ''[]'' = ''[]''" "trim_space [] = []" by code_simp+
  then show ?thesis by (simp add: UnmarshalJSON_def)
qed

lemmas decode_simps = unmarshal_def unmarshal_struct_def unmarshal_ptr_def store_envelope_def store_usage_value_def
  store_metrics_def field_names empty_choices zero_envelope_def decodeCompletionUsageEvidence_def
  decodeCompletionsUsageEvidence_def decode_metrics_def decode_duration_def positive_tokens_def zero_usage_def

section \<open>Reading back a report\<close>

definition usage_report :: "int \<Rightarrow> int \<Rightarrow> bytes" where
  "usage_report p c = jq ''{`choices`:[],`usage`:{`prompt_tokens`:'' @ show_int p @
     jq '',`completion_tokens`:'' @ show_int c @ ''}}''"

lemma report_parsed:
  "\<exists>raw1 raw2 raw3. json_parse (usage_report p c) = Some (JObj
     [(''choices'', ''[]'', JArr []),
      (''usage'', raw1, JObj [(''prompt_tokens'', raw2, JNum (show_int p)), (''completion_tokens'', raw3, JNum (show_int c))])])"
  by (simp add: usage_report_def jq_def json_parse_def json_value.simps max_nesting_depth_def skip_ws_Cons_simp json_ws_def
     json_members_quote string_unit_def code_def Let_def json_value_show_int number_stop_def is_digit_def skip_ws_show_int raw_two
    skip_ws_def [of "[]"])

text \<open>C8: a final chunk that prints two \<open>int64\<close> counts is read back: the completion count as
  written (a negative one makes the report malformed), the prompt count with negative values cut to 0.\<close>

theorem usage_report_roundtrip:
  assumes "int64_ok p" "int64_ok c"
  shows "decodeCompletionUsageEvidence (usage_report p c) True CompletionUsageFormatCompletions =
    (if c < 0 then malformed
     else (zero_usage\<lparr>PromptTokens := max 0 p, CompletionTokens := c\<rparr>, CompletionUsageAvailable))"
proof -
  obtain raw1 raw2 raw3 where "json_parse (usage_report p c) = Some (JObj
     [(''choices'', ''[]'', JArr []),
      (''usage'', raw1, JObj [(''prompt_tokens'', raw2, JNum (show_int p)), (''completion_tokens'', raw3, JNum (show_int c))])])"
    using report_parsed by blast
  with assms show ?thesis
    by (simp add: decode_simps unmarshal_int64_def parse_show_int max_def)
qed

section \<open>Concrete instances\<close>

theorem decode_usage_in_range_witness:
  "\<exists>u. decodeCompletionUsageEvidence (jq ''{`usage`:{`output_tokens`:5}}'') False CompletionUsageFormatResponses =
     (u, CompletionUsageAvailable) \<and> CompletionTokens u = 5 \<and> tokens_ok u"
proof -
  have d: "decodeCompletionUsageEvidence (jq ''{`usage`:{`output_tokens`:5}}'') False CompletionUsageFormatResponses =
      (zero_usage\<lparr>CompletionTokens := 5\<rparr>, CompletionUsageAvailable)"
    by code_simp
  from decode_usage_in_range [OF d] d show ?thesis by auto
qed

theorem usage_report_roundtrip_witness:
  "int64_ok (- 17) \<and> int64_ok 5 \<and>
   decodeCompletionUsageEvidence (usage_report (- 17) 5) True CompletionUsageFormatCompletions =
     (zero_usage\<lparr>PromptTokens := 0, CompletionTokens := 5\<rparr>, CompletionUsageAvailable)"
  using usage_report_roundtrip [of "- 17" 5] by (simp add: int64_ok_def min_int64_def max_int64_def)

end
