(* ===== verification/Duration_Props.thy ===== *)
theory Duration_Props
  imports Usage_Props
begin

text \<open>
  Durations: which milliseconds values are accepted and how they are rounded to nanoseconds, and what a
  final chunk that prints two durations is decoded to, the durations that overflow among them.
\<close>

section \<open>Rounding\<close>

text \<open>C6: a duration in milliseconds is accepted exactly if it is a positive finite value whose product with one
  million, rounded to the nearest double, is at most two to the 63. The result is that rounded product
  rounded up to a whole number, never down and by less than one nanosecond; the rounded product is
  within half a unit in the last place of the exact one. The one exception is a product that rounds to
  two to the 63 itself, which turns into the least \<open>int64\<close>.\<close>

theorem millisecondsDuration_rounds_up:
  assumes "millisecondsDuration x = (d, ok)"
  shows "(ok \<longleftrightarrow> (\<exists>q p. x = Fin q \<and> 0 < q \<and> round64 (q * 1000000) = Fin p \<and> p \<le> 2 ^ 63)) \<and>
    (ok \<longrightarrow> (\<exists>q p. x = Fin q \<and> round64 (q * 1000000) = Fin p \<and>
       \<bar>p - q * 1000000\<bar> \<le> unit_last_place (q * 1000000) / 2 \<and>
       (if p = 2 ^ 63 then d = min_int64
        else 0 \<le> d \<and> d \<le> max_int64 \<and> of_int d - 1 < p \<and> p \<le> of_int d)))"
proof -
  have ok: "ok \<longleftrightarrow> (\<exists>q p. x = Fin q \<and> 0 < q \<and> round64 (q * 1000000) = Fin p \<and> p \<le> 2 ^ 63)"
  proof (cases x)
    case (Fin q)
    have "\<not> float_gt (round64 (q * 1000000)) (2 ^ 63) \<longleftrightarrow> (\<exists>p. round64 (q * 1000000) = Fin p \<and> p \<le> 2 ^ 63)" if "0 < q"
      using round64_pos [of "q * 1000000"] that by (cases "round64 (q * 1000000)") (auto simp: not_less)
    with Fin assms show ?thesis
      by (auto simp: millisecondsDuration_def float_mult_def float_max_int64_def Let_def split: if_splits)
  qed (use assms in \<open>simp_all add: millisecondsDuration_def\<close>)
  moreover have "\<exists>q p. x = Fin q \<and> round64 (q * 1000000) = Fin p \<and>
       \<bar>p - q * 1000000\<bar> \<le> unit_last_place (q * 1000000) / 2 \<and>
       (if p = 2 ^ 63 then d = min_int64 else 0 \<le> d \<and> d \<le> max_int64 \<and> of_int d - 1 < p \<and> p \<le> of_int d)" if "ok"
  proof -
    from that ok obtain q p where q: "x = Fin q" "0 < q" and p: "round64 (q * 1000000) = Fin p" "p \<le> 2 ^ 63" by blast
    have d: "d = (if int64_ok \<lceil>p\<rceil> then \<lceil>p\<rceil> else min_int64)"
      using assms that q p round64_nonneg [of "q * 1000000" p]
      by (auto simp: millisecondsDuration_def float_mult_def Let_def split: if_splits)
    have c: "0 \<le> \<lceil>p\<rceil>" "\<lceil>p\<rceil> \<le> 2 ^ 63" using p(2) round64_nonneg [OF _ p(1)] q(2) by (simp_all add: ceiling_le_iff)
    have small: "\<lceil>p\<rceil> \<le> max_int64" if "p \<noteq> 2 ^ 63"
    proof (rule ccontr)
      assume "\<not> \<lceil>p\<rceil> \<le> max_int64"
      with c have eq: "\<lceil>p\<rceil> = 2 ^ 63" unfolding max_int64_def by linarith
      have "of_int \<lceil>p\<rceil> < p + 1" by linarith
      then have "2 ^ 54 \<le> p" unfolding eq by simp
      with round64_big_integer [OF _ p(1)] q(2) have "p = of_int \<lceil>p\<rceil>" by (metis ceiling_of_int mult_pos_pos zero_less_numeral)
      with eq that show False by simp
    qed
    have "\<lceil>p\<rceil> = 2 ^ 63" if "p = 2 ^ 63" using that by (metis ceiling_of_int of_int_numeral of_int_power)
    then have big: "p = 2 ^ 63 \<Longrightarrow> d = min_int64" using d by (simp add: int64_ok_def max_int64_def)
    have "d = \<lceil>p\<rceil>" if "p \<noteq> 2 ^ 63" using d small [OF that] c(1) by (simp add: int64_ok_def min_int64_def)
    moreover have "of_int \<lceil>p\<rceil> - 1 < p" "p \<le> of_int \<lceil>p\<rceil>" by linarith+
    ultimately show ?thesis using q p(1) big small c(1) round64_error [OF _ p(1)] by auto
  qed
  ultimately show ?thesis by blast
qed

theorem millisecondsDuration_rounds_up_witness:
  "\<exists>p. millisecondsDuration (Fin (5 / 2097152)) = (3, True) \<and> round64 (5 / 2097152 * 1000000) = Fin p \<and> 2 < p \<and> p \<le> (3 :: rat)"
proof -
  have d: "millisecondsDuration (Fin (5 / 2097152)) = (3, True)" by code_simp
  from millisecondsDuration_rounds_up [OF d] obtain q p where
    q: "Fin (5 / 2097152) = Fin q" and p: "round64 (q * 1000000) = Fin p"
    and c: "if p = 2 ^ 63 then 3 = min_int64 else 0 \<le> (3 :: int) \<and> 3 \<le> max_int64 \<and> of_int 3 - 1 < p \<and> p \<le> of_int 3"
    by blast
  have "(3 :: int) \<noteq> min_int64" by (simp add: min_int64_def)
  with c have "2 < p" "p \<le> 3" by (simp_all split: if_splits)
  moreover have "round64 (5 / 2097152 * 1000000) = Fin p" using p q by (simp only: float64.inject)
  ultimately have "round64 (5 / 2097152 * 1000000) = Fin p \<and> 2 < p \<and> p \<le> 3" by blast
  with d show ?thesis by blast
qed

section \<open>Number texts\<close>

text \<open>A number text is read in full wherever something that cannot continue it follows.\<close>

lemma takeWhile_stop: "r = [] \<or> \<not> P (hd r) \<Longrightarrow> takeWhile P (s @ r) = takeWhile P s \<and> dropWhile P (s @ r) = dropWhile P s @ r"
  by (induction s; cases r) auto

lemma stop_digits: "number_stop r \<Longrightarrow> num_digits (s @ r) = (fst (num_digits s), snd (num_digits s) @ r)"
  using takeWhile_stop [of r is_digit s] by (cases r) (auto simp: num_digits_def number_stop_def)

lemma stop_num_int: "\<lbrakk>num_int s = Some (i, q); number_stop r\<rbrakk> \<Longrightarrow> num_int (s @ r) = Some (i, q @ r)"
  using stop_digits [of r s] by (cases s) (auto simp: num_int_def split: if_splits)

lemma stop_num_frac: "\<lbrakk>num_frac s = Some (f, q); number_stop r\<rbrakk> \<Longrightarrow> num_frac (s @ r) = Some (f, q @ r)"
proof (cases s)
  case (Cons c t)
  assume "num_frac s = Some (f, q)" "number_stop r"
  with Cons stop_digits [of r t] show ?thesis by (auto simp: num_frac_def split: if_splits prod.splits)
qed (auto simp: num_frac_def number_stop_def split: list.splits)

lemma stop_num_exp: "\<lbrakk>num_exp s = Some (e, q); number_stop r\<rbrakk> \<Longrightarrow> num_exp (s @ r) = Some (e, q @ r)"
proof (cases s)
  case (Cons c t)
  assume a: "num_exp s = Some (e, q)" "number_stop r"
  show ?thesis
  proof (cases t)
    case Nil
    with a Cons show ?thesis by (auto simp: num_exp_def num_digits_def split: if_splits)
  next
    case (Cons d u)
    with a \<open>s = c # t\<close> stop_digits [of r u] stop_digits [of r t] show ?thesis
      by (auto simp: num_exp_def split: if_splits prod.splits)
  qed
qed (auto simp: num_exp_def number_stop_def split: list.splits)

definition number_text :: "bytes \<Rightarrow> bool" where
  "number_text t \<longleftrightarrow> json_number t = Some (t, [])"

lemma number_head:
  assumes "number_text t"
  obtains c s where "t = c # s" "is_digit c \<or> c = CHR ''-''"
  using assms by (cases t) (auto simp: number_text_def json_number_def num_int_def is_digit_def code_def split: if_splits)

lemma stop_number:
  assumes "number_text t" "number_stop r"
  shows "json_number (t @ r) = Some (t, r)"
proof -
  define sg r0 where "sg = (case t of c # q \<Rightarrow> if c = CHR ''-'' then [c] else [] | [] \<Rightarrow> [])"
    and "r0 = (case t of c # q \<Rightarrow> if c = CHR ''-'' then q else t | [] \<Rightarrow> t)"
  have num: "json_number (t @ x) = Option.bind (num_int (r0 @ x)) (\<lambda>(i, r1).
         Option.bind (num_frac r1) (\<lambda>(f, r2).
         Option.bind (num_exp r2) (\<lambda>(e, r3). Some (sg @ i @ f @ e, r3))))" for x
    by (rule number_head [OF assms(1)]) (simp add: json_number_def sg_def r0_def)
  have "Option.bind (num_int r0) (\<lambda>(i, r1). Option.bind (num_frac r1) (\<lambda>(f, r2).
         Option.bind (num_exp r2) (\<lambda>(e, r3). Some (sg @ i @ f @ e, r3)))) = Some (t, [])"
    using assms(1) num [of "[]"] by (simp add: number_text_def)
  then obtain i r1 f r2 e where
    p: "num_int r0 = Some (i, r1)" "num_frac r1 = Some (f, r2)" "num_exp r2 = Some (e, [])" "t = sg @ i @ f @ e"
    by (auto simp: Option.bind_eq_Some_conv split: prod.splits)
  have "json_number (t @ r) = Some (sg @ i @ f @ e, r)"
    using stop_num_int [OF p(1) assms(2)] stop_num_frac [OF p(2) assms(2)] stop_num_exp [OF p(3) assms(2)] by (simp add: num)
  then show ?thesis using p(4) by simp
qed

lemma json_value_number:
  assumes "number_text t" "number_stop r"
  shows "json_value d (t @ r) = Some (JNum t, r)"
proof -
  obtain c s where cs: "t = c # s" "is_digit c \<or> c = CHR ''-''" by (rule number_head [OF assms(1)])
  then have "c \<noteq> DQUOTE" "c \<noteq> CHR ''[''" "c \<noteq> CHR ''{''" "c \<noteq> CHR ''n''" "c \<noteq> CHR ''t''" "c \<noteq> CHR ''f''"
    by (auto simp: is_digit_def code_def)
  with cs stop_number [OF assms] show ?thesis by (simp add: json_value.simps json_literal_def has_prefix_def)
qed

lemma skip_ws_number: "number_text t \<Longrightarrow> skip_ws (t @ r) = t @ r"
  by (rule number_head) (auto simp: skip_ws_def json_ws_def is_digit_def code_def)

section \<open>Reports with durations\<close>

definition duration_report :: "int \<Rightarrow> bytes \<Rightarrow> bytes \<Rightarrow> bytes" where
  "duration_report c t u = jq ''{`choices`:[],`usage`:{`completion_tokens`:'' @ show_int c @
     jq ''},`metrics`:{`mean_itl_ms`:'' @ t @ jq '',`generation_time_ms`:'' @ u @ jq ''}}''"

lemma duration_report_parsed:
  assumes "number_text t" "number_text u"
  shows "\<exists>raw1 raw2 raw3 raw4 raw5. json_parse (duration_report c t u) = Some (JObj
     [(''choices'', ''[]'', JArr []),
      (''usage'', raw1, JObj [(''completion_tokens'', raw2, JNum (show_int c))]),
      (''metrics'', raw3, JObj [(''mean_itl_ms'', raw4, JNum t), (''generation_time_ms'', raw5, JNum u)])])"
  by (simp add: duration_report_def jq_def json_parse_def json_value.simps max_nesting_depth_def skip_ws_Cons_simp json_ws_def
     json_members_quote string_unit_def code_def Let_def json_value_show_int number_stop_def is_digit_def skip_ws_show_int raw_two
     json_value_number [OF assms(1)] json_value_number [OF assms(2)] skip_ws_number [OF assms(1)] skip_ws_number [OF assms(2)]
     skip_ws_def [of "[]"])

text \<open>The duration a number text of milliseconds stands for.\<close>

definition read_duration :: "bytes \<Rightarrow> int option" where
  "read_duration t =
     (case parse_float64 t of
        None \<Rightarrow> None
      | Some q \<Rightarrow> (case millisecondsDuration (Fin q) of (d, ok) \<Rightarrow> if ok then Some d else None))"

text \<open>The values that round to the double whose product with one million rounds to two to the 63.\<close>

lemma exponent_44:
  assumes "2 ^ 43 \<le> x" "x < 2 ^ 44"
  shows "exponent2 x = 43"
proof -
  have "0 < x" using assms(1) by (rule less_le_trans [rotated]) simp
  note b = exponent2_bounds [OF this]
  have "\<not> exponent2 x \<le> 42" using pow2_mono [of "exponent2 x + 1" 43] b(2) assms(1) by (auto simp: pow2_def)
  moreover have "\<not> 44 \<le> exponent2 x" using pow2_mono [of 44 "exponent2 x"] b(1) assms(2) by (auto simp: pow2_def)
  ultimately show ?thesis by linarith
qed

lemma round_near_overflow:
  assumes "9223372036854774415 / 10 ^ 6 \<le> x" "x \<le> 9223372036854776367 / 10 ^ 6"
  shows "round64 x = Fin (4722366482869645 / 512)"
proof -
  have e: "exponent2 x = 43" using assms by (intro exponent_44) simp_all
  then have ulp: "unit_last_place x = 1 / 512" by (simp add: unit_last_place_def pow2_def)
  have y: "4722366482869644 + 1 / 2 < x * 512" "x * 512 < 4722366482869645 + 1 / 2" using assms by simp_all
  then have "\<lfloor>x * 512\<rfloor> = 4722366482869644 \<or> \<lfloor>x * 512\<rfloor> = 4722366482869645" by linarith
  with y have r: "round_half_even (x * 512) = 4722366482869645"
    by (elim disjE) (simp_all add: round_half_even_def Let_def)
  have "exponent2 (4722366482869645 / 512) = 43" by (rule exponent_44) simp_all
  moreover have "of_int (round_half_even (x / unit_last_place x)) * unit_last_place x = 4722366482869645 / 512"
    unfolding ulp using r by simp
  moreover have "0 < x" using assms(1) by (rule less_le_trans [rotated]) simp
  ultimately show ?thesis by (simp only: round64_def Let_def abs_of_pos) simp
qed

lemma near_overflow_read:
  assumes "9223372036854774415 / 10 ^ 6 \<le> decimal_value t" "decimal_value t \<le> 9223372036854776367 / 10 ^ 6"
  shows "read_duration t = Some min_int64"
proof -
  have "float_mult (4722366482869645 / 512) 1000000 = Fin (2 ^ 63)" by code_simp
  then have "millisecondsDuration (Fin (4722366482869645 / 512)) = (min_int64, True)"
    by (simp add: millisecondsDuration_def float_max_int64_def int64_ok_def max_int64_def Let_def)
  with round_near_overflow [OF assms] show ?thesis by (simp add: read_duration_def parse_float64_def)
qed

text \<open>C7: a final chunk that prints a count and two durations, each as any JSON number text, is decoded to this
  count and these durations, each in its own field; if either text stands for no duration the report is
  malformed. A text between 9223372036854.774415 and 9223372036854.776367 milliseconds is let through
  by the check against \<open>float64(math.MaxInt64)\<close>, although its nanoseconds do not fit or nearly do not
  fit \<open>int64\<close>, and becomes the least \<open>int64\<close>, a negative duration of available usage.\<close>

theorem duration_report_decoded:
  assumes "number_text t" and "number_text u" and "0 \<le> c" and "c \<le> max_int64"
  shows "decodeCompletionUsageEvidence (duration_report c t u) True CompletionUsageFormatCompletions =
      (case (read_duration t, read_duration u) of
         (Some d, Some g) \<Rightarrow> (zero_usage\<lparr>CompletionTokens := c, MeanITL := d, GenerationTime := g\<rparr>, CompletionUsageAvailable)
       | _ \<Rightarrow> malformed) \<and>
    (9223372036854774415 / 10 ^ 6 \<le> decimal_value t \<and> decimal_value t \<le> 9223372036854776367 / 10 ^ 6 \<longrightarrow>
      read_duration t = Some min_int64)"
proof -
  from duration_report_parsed [OF assms(1,2), of c] obtain raw1 raw2 raw3 raw4 raw5 where
    p: "json_parse (duration_report c t u) = Some (JObj
     [(''choices'', ''[]'', JArr []),
      (''usage'', raw1, JObj [(''completion_tokens'', raw2, JNum (show_int c))]),
      (''metrics'', raw3, JObj [(''mean_itl_ms'', raw4, JNum t), (''generation_time_ms'', raw5, JNum u)])])" by blast
  have c: "int64_ok c" using assms(3,4) by (simp add: int64_ok_def min_int64_def)
  have "decodeCompletionUsageEvidence (duration_report c t u) True CompletionUsageFormatCompletions =
      (case (read_duration t, read_duration u) of
         (Some d, Some g) \<Rightarrow> (zero_usage\<lparr>CompletionTokens := c, MeanITL := d, GenerationTime := g\<rparr>, CompletionUsageAvailable)
       | _ \<Rightarrow> malformed)"
    using assms(3) c
    by (simp add: decode_simps p unmarshal_int64_def parse_show_int unmarshal_float64_def read_duration_def
        split: option.split prod.split)
  with near_overflow_read show ?thesis by blast
qed

theorem duration_report_decoded_witness:
  "decodeCompletionUsageEvidence (duration_report 5 ''9223372036854.775807'' ''1.5e3'') True CompletionUsageFormatCompletions =
     (zero_usage\<lparr>CompletionTokens := 5, MeanITL := min_int64, GenerationTime := 1500000000\<rparr>, CompletionUsageAvailable)"
proof -
  have n: "number_text ''9223372036854.775807''" "number_text ''1.5e3''" by code_simp+
  have "decimal_value ''9223372036854.775807'' = 9223372036854775807 / 10 ^ 6"
    by (simp add: decimal_value_def digits_val_def is_digit_def code_def pow10_def)
  moreover have "read_duration ''1.5e3'' = Some 1500000000" by code_simp
  ultimately show ?thesis using duration_report_decoded [OF n, of 5] by (simp add: max_int64_def)
qed

end
