(* ===== verification/Go_Errors.thy ===== *)
theory Go_Errors
  imports Go_Encoding
begin

text \<open>
  Go error values: an HTTP error of the attestation package (\<open>report.go\<close>, \<open>HTTPError\<close>), a plain
  message, and \<open>fmt.Errorf\<close> with one wrapped error between a prefix and a suffix.
\<close>

datatype go_error =
    HTTPError int bytes
  | ErrMsg bytes
  | ErrWrap bytes go_error bytes

fun error_text :: "go_error \<Rightarrow> bytes" where
  "error_text (HTTPError status msg) = msg"
| "error_text (ErrMsg msg) = msg"
| "error_text (ErrWrap pre e suf) = pre @ error_text e @ suf"

text \<open>\<open>errors.As\<close> for an \<open>HTTPError\<close>: the first one in the chain of wrapped errors.\<close>

fun as_HTTPError :: "go_error \<Rightarrow> (int \<times> bytes) option" where
  "as_HTTPError (HTTPError status msg) = Some (status, msg)"
| "as_HTTPError (ErrMsg msg) = None"
| "as_HTTPError (ErrWrap pre e suf) = as_HTTPError e"

definition badRequestError :: "bytes \<Rightarrow> go_error" where
  "badRequestError message = HTTPError 400 message"

text \<open>What the handler asks the attestation service for (\<open>report.go\<close>).\<close>

record ReportRequest =
  rr_SigningAlgo :: bytes
  rr_NonceHex :: bytes
  rr_Version :: int

text \<open>What of the library depends on tables and message texts that do not matter to the sources: the
  case mapping of text that is not ASCII, and the texts of the errors of decoders.\<close>

record go_library =
  uni_lower :: "bytes \<Rightarrow> bytes"
  uni_upper :: "bytes \<Rightarrow> bytes"
  hex_error :: "bytes \<Rightarrow> bytes"
  json_error :: "bytes \<Rightarrow> bytes"
  url_error :: "bytes \<Rightarrow> bytes"

end
