(* ===== verification/Content_Type.thy ===== *)
theory Content_Type
  imports Go_Errors
begin

text \<open>
  \<open>mime.ParseMediaType\<close> as far as its error and media type go, and the content types whose bodies are
  observed (\<open>completion_usage.go\<close>, \<open>CompletionUsageContentTypeEligible\<close>).
\<close>

section \<open>Media types\<close>

definition tspecials :: bytes where
  "tspecials = CHR 0x22 # CHR 0x5C # ''()<>@,;:/[]?=''"

definition token_char :: "byte \<Rightarrow> bool" where
  "token_char c \<longleftrightarrow> 32 < code c \<and> code c < 127 \<and> c \<notin> set tspecials"

definition consumeToken :: "bytes \<Rightarrow> bytes \<times> bytes" where
  "consumeToken v = (takeWhile token_char v, dropWhile token_char v)"

text \<open>A quoted string after its opening quote; \<open>None\<close> without a closing one or with a line break.\<close>

fun quoted_string :: "bytes \<Rightarrow> bytes \<Rightarrow> (bytes \<times> bytes) option" where
  "quoted_string acc [] = None"
| "quoted_string acc (c # v) =
     (if c = CHR 0x22 then Some (acc, v)
      else if c = CHR 0x5C \<and> v \<noteq> [] \<and> hd v \<in> set tspecials then quoted_string (acc @ [hd v]) (tl v)
      else if c = CR \<or> c = LF then None
      else quoted_string (acc @ [c]) v)"

definition consumeValue :: "bytes \<Rightarrow> bytes \<times> bytes" where
  "consumeValue v =
     (if has_prefix [CHR 0x22] v then (case quoted_string [] (tl v) of None \<Rightarrow> ([], v) | Some r \<Rightarrow> r) else consumeToken v)"

abbreviation trim_left :: "bytes \<Rightarrow> bytes" where
  "trim_left s \<equiv> strip_by unicode_spaces s"

text \<open>\<open>None\<close> is a parameter that cannot be parsed.\<close>

definition consumeMediaParam :: "go_library \<Rightarrow> bytes \<Rightarrow> (bytes \<times> bytes \<times> bytes) option" where
  "consumeMediaParam lib v =
     (case trim_left v of
        [] \<Rightarrow> None
      | c # r \<Rightarrow>
          if c \<noteq> CHR '';'' then None
          else
            (case consumeToken (trim_left r) of (param, r) \<Rightarrow>
               if param = [] then None
               else
                 (case trim_left r of
                    [] \<Rightarrow> None
                  | c # r \<Rightarrow>
                      if c \<noteq> CHR ''='' then None
                      else
                        (case consumeValue (trim_left r) of (val, rest) \<Rightarrow>
                           if val = [] \<and> rest = trim_left r then None
                           else Some (to_lower (uni_lower lib) param, val, rest)))))"

lemma quoted_string_length: "quoted_string acc v = Some (s, r) \<Longrightarrow> length r < length v"
proof (induction acc v rule: quoted_string.induct)
  case (2 acc c v)
  then show ?case by (cases v) (auto split: if_splits)
qed simp

lemma consumeValue_length: "length (snd (consumeValue v)) \<le> length v"
proof -
  have "length (dropWhile token_char v) \<le> length v" by (rule length_dropWhile_le)
  moreover have "quoted_string [] (tl v) = Some (s, r) \<Longrightarrow> length r \<le> length v" for s r
    using quoted_string_length [of "[]" "tl v" s r] by (cases v) auto
  ultimately show ?thesis by (auto simp: consumeValue_def consumeToken_def split: option.splits)
qed

lemma consumeMediaParam_length:
  assumes "consumeMediaParam lib v = Some (k, val, rest)"
  shows "length rest < length v"
proof -
  from assms obtain r where r: "trim_left v = CHR '';'' # r"
    by (auto simp: consumeMediaParam_def split: list.splits if_splits)
  from assms r obtain t where t: "trim_left (dropWhile token_char (trim_left r)) = CHR ''='' # t"
    by (auto simp: consumeMediaParam_def consumeToken_def split: list.splits if_splits)
  from assms r t have rest: "rest = snd (consumeValue (trim_left t))"
    by (auto simp: consumeMediaParam_def consumeToken_def split: prod.splits if_splits)
  have "length t < length (dropWhile token_char (trim_left r))"
    using strip_by_length [of unicode_spaces "dropWhile token_char (trim_left r)"] t by simp
  also have "\<dots> \<le> length (trim_left r)" by (rule length_dropWhile_le)
  also have "\<dots> \<le> length r" by (rule strip_by_length)
  also have "\<dots> < length v" using strip_by_length [of unicode_spaces v] r by simp
  finally have "length t < length v" .
  then show ?thesis unfolding rest by (meson consumeValue_length le_less_trans strip_by_length)
qed

text \<open>The loop over the parameters: whether they parse, with no name given two different values. A trailing
  semicolon is not an error.\<close>

function media_params_ok :: "go_library \<Rightarrow> (bytes \<times> bytes) list \<Rightarrow> bytes \<Rightarrow> bool" where
  "media_params_ok lib params v =
     (if trim_left v = [] then True
      else
        (case consumeMediaParam lib (trim_left v) of
           None \<Rightarrow> trim_space v = '';''
         | Some (key, val, rest) \<Rightarrow>
             (case map_of params key of
                Some old \<Rightarrow> old = val \<and> media_params_ok lib params rest
              | None \<Rightarrow> media_params_ok lib ((key, val) # params) rest)))"
  by auto
termination
  by (relation "measure (\<lambda>(lib, params, v). length v)")
    (auto dest!: consumeMediaParam_length intro: less_le_trans [OF _ strip_by_length])

declare media_params_ok.simps [simp del]

definition media_type_ok :: "bytes \<Rightarrow> bool" where
  "media_type_ok s =
     (case consumeToken s of (typ, rest) \<Rightarrow>
        typ \<noteq> [] \<and>
        (rest = [] \<or>
         (hd rest = CHR ''/'' \<and> (case consumeToken (tl rest) of (subtype, rest) \<Rightarrow> subtype \<noteq> [] \<and> rest = []))))"

text \<open>\<open>None\<close> is an error.\<close>

definition ParseMediaType :: "go_library \<Rightarrow> bytes \<Rightarrow> bytes option" where
  "ParseMediaType lib v =
     (let base = before (CHR '';'') v; mediatype = trim_space (to_lower (uni_lower lib) base)
      in if media_type_ok mediatype \<and> media_params_ok lib [] (drop (length base) v) then Some mediatype else None)"

section \<open>Eligible content types\<close>

definition CompletionUsageContentTypeEligible :: "go_library \<Rightarrow> bytes \<Rightarrow> bool \<Rightarrow> bool" where
  "CompletionUsageContentTypeEligible lib contentType streaming =
     (case ParseMediaType lib contentType of
        None \<Rightarrow> False
      | Some mediaType \<Rightarrow>
          (let mediaType = to_lower (uni_lower lib) mediaType in
           if streaming then mediaType = ''text/event-stream''
           else mediaType = ''application/json'' \<or> has_suffix ''+json'' mediaType))"

text \<open>No content type is taken for both a stream and a JSON document.\<close>

lemma eligible_exclusive:
  "\<not> (CompletionUsageContentTypeEligible lib ct True \<and> CompletionUsageContentTypeEligible lib ct False)"
  by (auto simp: CompletionUsageContentTypeEligible_def Let_def has_suffix_def split: option.splits)

text \<open>A media type without parameters is judged by its text, in any case of letters and with space around it.\<close>

lemma eligible_plain:
  assumes "is_ascii ct" "CHR '';'' \<notin> set ct" "media_type_ok (trim_space (map lower_byte ct))"
  shows "CompletionUsageContentTypeEligible lib ct streaming \<longleftrightarrow>
    (let m = trim_space (map lower_byte ct) in
     if streaming then m = ''text/event-stream'' else m = ''application/json'' \<or> has_suffix ''+json'' m)"
proof -
  have base: "before (CHR '';'') ct = ct" using assms(2) by (auto simp: before_def takeWhile_eq_all_conv)
  have none: "media_params_ok lib [] []" by (subst media_params_ok.simps) simp
  have m: "ParseMediaType lib ct = Some (trim_space (map lower_byte ct))"
    using assms(1,3) none by (simp add: ParseMediaType_def base to_lower_def)
  have sub: "set (trim_space s) \<subseteq> set s" for s using trim_space_part [of s] by (metis Un_iff set_append subsetI)
  have low: "lower_byte c = c" if "c \<in> set (trim_space (map lower_byte ct))" for c using sub [of "map lower_byte ct"] that by auto
  have "is_ascii (map lower_byte ct)" using assms(1) by (auto simp: is_ascii_def list_all_iff lower_byte_ascii)
  then have "is_ascii (trim_space (map lower_byte ct))" using sub [of "map lower_byte ct"] by (auto simp: is_ascii_def list_all_iff)
  then have "to_lower (uni_lower lib) (trim_space (map lower_byte ct)) = trim_space (map lower_byte ct)"
    using low by (simp add: to_lower_def map_idI)
  then show ?thesis by (simp add: CompletionUsageContentTypeEligible_def m Let_def)
qed

end
