(* ===== verification/Go_Http.thy ===== *)
theory Go_Http
  imports Go_Encoding
begin

text \<open>
  The parts of Go's \<open>net/http\<close> the sources use: header maps with canonical keys, the response writer,
  and \<open>http.Error\<close>. A header map is addressed through its operations only; the locale \<open>header_store\<close>
  states what they promise, and its lemmas are what the components use.
\<close>

section \<open>Canonical header keys\<close>

definition is_alpha :: "byte \<Rightarrow> bool" where
  "is_alpha c \<longleftrightarrow> (65 \<le> code c \<and> code c \<le> 90) \<or> (97 \<le> code c \<and> code c \<le> 122)"

text \<open>\<open>validHeaderFieldByte\<close>: the token characters of RFC 7230.\<close>

definition valid_field_byte :: "byte \<Rightarrow> bool" where
  "valid_field_byte c \<longleftrightarrow> is_alpha c \<or> is_digit c \<or> c \<in> set ''!#$%&*+-.^_`|~'' \<or> c = CHR 0x27"

fun canonical_case :: "bool \<Rightarrow> bytes \<Rightarrow> bytes" where
  "canonical_case upper [] = []"
| "canonical_case upper (c # s) =
     (if upper then upper_byte c else lower_byte c) # canonical_case (c = CHR ''-'') s"

definition CanonicalMIMEHeaderKey :: "bytes \<Rightarrow> bytes" where
  "CanonicalMIMEHeaderKey s = (if list_all valid_field_byte s then canonical_case True s else s)"

lemma lower_upper_byte: "lower_byte (upper_byte c) = lower_byte c"
proof -
  have "97 \<le> code c \<and> code c \<le> 122 \<Longrightarrow> code c - 32 + 32 = code c" by simp
  then show ?thesis by (intro code_inj) (auto simp: code_lower_byte code_upper_byte)
qed

lemma upper_lower_byte: "upper_byte (lower_byte c) = upper_byte c"
  by (intro code_inj) (auto simp: code_lower_byte code_upper_byte)

lemma dash_lower: "lower_byte c = CHR ''-'' \<longleftrightarrow> c = CHR ''-''"
proof -
  have dash: "code (CHR ''-'') = 45" by (simp add: code_def)
  have "lower_byte c = CHR ''-'' \<longleftrightarrow> code (lower_byte c) = 45" using dash code_inj by metis
  also have "\<dots> \<longleftrightarrow> code c = 45" by (simp add: code_lower_byte)
  also have "\<dots> \<longleftrightarrow> c = CHR ''-''" using dash code_inj by metis
  finally show ?thesis .
qed

text \<open>The canonical spelling changes only the case, and depends only on the name without its case.\<close>

lemma lower_canonical_case: "map lower_byte (canonical_case u s) = map lower_byte s"
  by (induction u s rule: canonical_case.induct) (auto simp: lower_upper_byte)

lemma canonical_case_lower:
  "map lower_byte s = map lower_byte t \<Longrightarrow> canonical_case u s = canonical_case u t"
proof (induction s arbitrary: t u)
  case (Cons c s)
  then obtain d r where t: "t = d # r" and eq: "lower_byte c = lower_byte d" "map lower_byte s = map lower_byte r"
    by (cases t) auto
  have "upper_byte c = upper_byte d" using eq(1) upper_lower_byte by metis
  moreover have "(c = CHR ''-'') = (d = CHR ''-'')" using eq(1) dash_lower by metis
  ultimately show ?case using Cons.IH [OF eq(2)] eq(1) by (simp add: t)
qed simp

lemma valid_lower: "valid_field_byte (lower_byte c) = valid_field_byte c"
proof (cases "65 \<le> code c \<and> code c \<le> 90")
  case True
  then have "is_alpha c" "is_alpha (lower_byte c)" by (auto simp: is_alpha_def code_lower_byte)
  then show ?thesis by (simp add: valid_field_byte_def)
next
  case False
  then have "lower_byte c = c" by (auto simp: lower_byte_def)
  then show ?thesis by simp
qed

lemma valid_lower_all: "list_all valid_field_byte s = list_all valid_field_byte (map lower_byte s)"
  by (simp add: list_all_iff valid_lower)

lemma lower_canonical_key: "map lower_byte (CanonicalMIMEHeaderKey s) = map lower_byte s"
  by (simp add: CanonicalMIMEHeaderKey_def lower_canonical_case)

lemma canonical_key_eq:
  assumes "list_all valid_field_byte s"
  shows "CanonicalMIMEHeaderKey s = CanonicalMIMEHeaderKey t \<longleftrightarrow> map lower_byte s = map lower_byte t"
proof
  assume eq: "map lower_byte s = map lower_byte t"
  then have "list_all valid_field_byte t" using assms valid_lower_all by metis
  with assms canonical_case_lower [OF eq] show "CanonicalMIMEHeaderKey s = CanonicalMIMEHeaderKey t"
    by (simp add: CanonicalMIMEHeaderKey_def)
next
  assume "CanonicalMIMEHeaderKey s = CanonicalMIMEHeaderKey t"
  then show "map lower_byte s = map lower_byte t" using lower_canonical_key by metis
qed

section \<open>Header maps\<close>

type_synonym header = "bytes \<rightharpoonup> bytes list"

definition Values :: "header \<Rightarrow> bytes \<Rightarrow> bytes list" where
  "Values h key = (case h (CanonicalMIMEHeaderKey key) of None \<Rightarrow> [] | Some vs \<Rightarrow> vs)"

definition Get :: "header \<Rightarrow> bytes \<Rightarrow> bytes" where
  "Get h key = (case Values h key of [] \<Rightarrow> [] | v # _ \<Rightarrow> v)"

definition Set :: "header \<Rightarrow> bytes \<Rightarrow> bytes \<Rightarrow> header" where
  "Set h key value = h(CanonicalMIMEHeaderKey key \<mapsto> [value])"

definition Del :: "header \<Rightarrow> bytes \<Rightarrow> header" where
  "Del h key = h(CanonicalMIMEHeaderKey key := None)"

text \<open>What a client may rely on: two names address the same entry when their normal forms agree.\<close>

locale header_store =
  fixes vals :: "'h \<Rightarrow> bytes \<Rightarrow> bytes list" and set_value :: "'h \<Rightarrow> bytes \<Rightarrow> bytes \<Rightarrow> 'h"
    and del :: "'h \<Rightarrow> bytes \<Rightarrow> 'h" and norm :: "bytes \<Rightarrow> bytes"
  assumes vals_set: "vals (set_value h k v) j = (if norm j = norm k then [v] else vals h j)"
    and vals_del: "vals (del h k) j = (if norm j = norm k then [] else vals h j)"
begin

lemma vals_del_all: "vals (fold (\<lambda>k h. del h k) ks h) j = (if norm j \<in> norm ` set ks then [] else vals h j)"
  by (induction ks arbitrary: h) (auto simp: vals_del)

lemma vals_set_same [simp]: "vals (set_value h k v) k = [v]"
  by (simp add: vals_set)

end

interpretation header: header_store Values Set Del CanonicalMIMEHeaderKey
  by unfold_locales (simp_all add: Values_def Set_def Del_def)

section \<open>Response writers\<close>

text \<open>A response writer: the header map handlers fill, the status line once it is written (with the
  header of that moment), and the body.\<close>

record ResponseWriter =
  w_header :: header
  w_status :: "(int \<times> header) option"
  w_body :: bytes

definition new_writer :: ResponseWriter where
  "new_writer = \<lparr>w_header = Map.empty, w_status = None, w_body = []\<rparr>"

definition set_header :: "bytes \<Rightarrow> bytes \<Rightarrow> ResponseWriter \<Rightarrow> ResponseWriter" where
  "set_header k v w = w\<lparr>w_header := Set (w_header w) k v\<rparr>"

text \<open>The first status counts, later ones are ignored; a write before any sends 200. Informational
  statuses (except 101) are sent at once and are not the response's status.\<close>

definition WriteHeader :: "int \<Rightarrow> ResponseWriter \<Rightarrow> ResponseWriter" where
  "WriteHeader status w =
     (if w_status w \<noteq> None \<or> (100 \<le> status \<and> status < 200 \<and> status \<noteq> 101) then w
      else w\<lparr>w_status := Some (status, w_header w)\<rparr>)"

definition Write :: "bytes \<Rightarrow> ResponseWriter \<Rightarrow> ResponseWriter" where
  "Write body w = (let w = WriteHeader 200 w in w\<lparr>w_body := w_body w @ body\<rparr>)"

text \<open>The status the client sees after the handler has returned.\<close>

definition final_status :: "ResponseWriter \<Rightarrow> int" where
  "final_status w = (case w_status w of None \<Rightarrow> 200 | Some (s, _) \<Rightarrow> s)"

text \<open>\<open>http.Error\<close> and \<open>http.NotFound\<close>.\<close>

definition http_Error :: "bytes \<Rightarrow> int \<Rightarrow> ResponseWriter \<Rightarrow> ResponseWriter" where
  "http_Error msg status w =
     (let w = w\<lparr>w_header := Del (w_header w) ''Content-Length''\<rparr>;
          w = set_header ''Content-Type'' ''text/plain; charset=utf-8'' w;
          w = set_header ''X-Content-Type-Options'' ''nosniff'' w
      in Write (msg @ [LF]) (WriteHeader status w))"

definition http_NotFound :: "ResponseWriter \<Rightarrow> ResponseWriter" where
  "http_NotFound w = http_Error ''404 page not found'' 404 w"

lemma w_status_simps [simp]:
  "w_status new_writer = None" "w_status (set_header k v w) = w_status w"
  "w_body new_writer = []" "w_body (set_header k v w) = w_body w"
  by (simp_all add: new_writer_def set_header_def)

lemma final_status_Write [simp]: "final_status (Write b w) = final_status w"
  by (cases "w_status w") (simp_all add: final_status_def Write_def WriteHeader_def Let_def)

lemma final_status_WriteHeader:
  "\<lbrakk>w_status w = None; 200 \<le> s\<rbrakk> \<Longrightarrow> final_status (WriteHeader s w) = s"
  by (simp add: final_status_def WriteHeader_def)

lemma w_body_Write [simp]: "w_body (Write b w) = w_body w @ b"
  by (simp add: Write_def WriteHeader_def Let_def)

lemma w_body_WriteHeader [simp]: "w_body (WriteHeader s w) = w_body w"
  by (simp add: WriteHeader_def)

lemma final_status_Error: "\<lbrakk>w_status w = None; 200 \<le> s\<rbrakk> \<Longrightarrow> final_status (http_Error m s w) = s"
  by (simp add: http_Error_def Let_def final_status_WriteHeader)

end
