(* ===== verification/Status_Recorder.thy ===== *)
theory Status_Recorder
  imports Go_Http Go_Io
begin

text \<open>
  \<open>internal/infra/http/status_recorder.go\<close>: a response writer that records the final status and the
  times of the first header and the first write, and passes every call on. The wrapped writer is a
  parameter: its methods, those of the optional interfaces it has among them, on a state of any type.
  \<open>Header\<close> is the wrapped writer's own, by embedding. Times are readings of a clock, a parameter;
  \<open>None\<close> is the zero time.
\<close>

section \<open>Model\<close>

record ('w, 'c) http_writer =
  hw_WriteHeader :: "int \<Rightarrow> 'w \<Rightarrow> 'w"
  hw_Write :: "'w byte_writer"
  hw_Flush :: "('w \<Rightarrow> 'w) option"
  hw_Hijack :: "('w \<Rightarrow> (string + 'c) \<times> 'w) option"
  hw_ReadFrom :: "(source \<Rightarrow> 'w \<Rightarrow> (nat \<times> io_error option) \<times> 'w) option"

record 'w StatusRecorder =
  r_writer :: 'w
  r_status :: int
  r_headerAt :: "int option"
  r_firstWriteAt :: "int option"
  r_ticks :: nat

definition NewStatusRecorder :: "'w \<Rightarrow> 'w StatusRecorder" where
  "NewStatusRecorder w = \<lparr>r_writer = w, r_status = 0, r_headerAt = None, r_firstWriteAt = None, r_ticks = 0\<rparr>"

definition markHeader :: "clock \<Rightarrow> int \<Rightarrow> 'w StatusRecorder \<Rightarrow> 'w StatusRecorder" where
  "markHeader clk status r =
     (if status \<ge> 100 \<and> status < 200 \<and> status \<noteq> 101 then r
      else
        (let r = (if r_status r = 0 then r\<lparr>r_status := status\<rparr> else r)
         in if r_headerAt r = None
            then r\<lparr>r_headerAt := Some (clk (r_ticks r)), r_ticks := Suc (r_ticks r)\<rparr> else r))"

definition markFirstWrite :: "clock \<Rightarrow> 'w StatusRecorder \<Rightarrow> 'w StatusRecorder" where
  "markFirstWrite clk r =
     (if r_firstWriteAt r = None
      then r\<lparr>r_firstWriteAt := Some (clk (r_ticks r)), r_ticks := Suc (r_ticks r)\<rparr> else r)"

definition rec_WriteHeader :: "('w, 'c) http_writer \<Rightarrow> clock \<Rightarrow> int \<Rightarrow> 'w StatusRecorder \<Rightarrow> 'w StatusRecorder" where
  "rec_WriteHeader wr clk status r =
     (let r = markHeader clk status r in r\<lparr>r_writer := hw_WriteHeader wr status (r_writer r)\<rparr>)"

text \<open>What \<open>Write\<close>, \<open>Flush\<close> and \<open>ReadFrom\<close> do first.\<close>

definition mark_write :: "clock \<Rightarrow> 'w StatusRecorder \<Rightarrow> 'w StatusRecorder" where
  "mark_write clk r = markFirstWrite clk (if r_status r = 0 then markHeader clk 200 r else r)"

definition rec_Write ::
  "('w, 'c) http_writer \<Rightarrow> clock \<Rightarrow> bytes \<Rightarrow> 'w StatusRecorder \<Rightarrow> (nat \<times> io_error option) \<times> 'w StatusRecorder" where
  "rec_Write wr clk body r =
     (let r = mark_write clk r in
      case hw_Write wr body (r_writer r) of (res, w) \<Rightarrow> (res, r\<lparr>r_writer := w\<rparr>))"

definition rec_Flush :: "('w, 'c) http_writer \<Rightarrow> clock \<Rightarrow> 'w StatusRecorder \<Rightarrow> 'w StatusRecorder" where
  "rec_Flush wr clk r =
     (let r = mark_write clk r in
      case hw_Flush wr of Some flush \<Rightarrow> r\<lparr>r_writer := flush (r_writer r)\<rparr> | None \<Rightarrow> r)"

definition rec_Hijack :: "('w, 'c) http_writer \<Rightarrow> 'w StatusRecorder \<Rightarrow> (string + 'c) \<times> 'w StatusRecorder" where
  "rec_Hijack wr r =
     (case hw_Hijack wr of
        None \<Rightarrow> (Inl ''underlying response writer does not support hijacking'', r)
      | Some hijack \<Rightarrow> (case hijack (r_writer r) of (res, w) \<Rightarrow> (res, r\<lparr>r_writer := w\<rparr>)))"

definition rec_ReadFrom ::
  "('w, 'c) http_writer \<Rightarrow> clock \<Rightarrow> source \<Rightarrow> 'w StatusRecorder \<Rightarrow> (nat \<times> io_error option) \<times> 'w StatusRecorder" where
  "rec_ReadFrom wr clk src r =
     (let r = mark_write clk r in
      case (case hw_ReadFrom wr of
              Some readFrom \<Rightarrow> readFrom src (r_writer r)
            | None \<Rightarrow> io_Copy (hw_Write wr) src 0 (r_writer r)) of
        (res, w) \<Rightarrow> (res, r\<lparr>r_writer := w\<rparr>))"

definition Unwrap :: "'w StatusRecorder \<Rightarrow> 'w" where
  "Unwrap r = r_writer r"

text \<open>\<open>Time.Sub\<close> saturates at the least and greatest duration.\<close>

definition time_sub :: "int \<Rightarrow> int \<Rightarrow> int" where
  "time_sub t u = max min_int64 (min max_int64 (t - u))"

definition FirstByteSince :: "int \<Rightarrow> 'w StatusRecorder option \<Rightarrow> int \<times> bool" where
  "FirstByteSince started rp =
     (case rp of
        None \<Rightarrow> (0, False)
      | Some r \<Rightarrow>
          (case r_firstWriteAt r of
             Some t \<Rightarrow> (time_sub t started, True)
           | None \<Rightarrow> (case r_headerAt r of Some t \<Rightarrow> (time_sub t started, True) | None \<Rightarrow> (0, False))))"

definition StatusOrOK :: "'w StatusRecorder option \<Rightarrow> int" where
  "StatusOrOK rp = (case rp of None \<Rightarrow> 200 | Some r \<Rightarrow> if r_status r = 0 then 200 else r_status r)"

section \<open>Sequences of calls\<close>

datatype recorder_op = RWriteHeader int | RWrite bytes | RFlush | RHijack | RReadFrom source

datatype 'c op_result = NoResult | Wrote "nat \<times> io_error option" | Conn "string + 'c"

definition apply_rec ::
  "('w, 'c) http_writer \<Rightarrow> clock \<Rightarrow> recorder_op \<Rightarrow> 'w StatusRecorder \<Rightarrow> 'c op_result \<times> 'w StatusRecorder" where
  "apply_rec wr clk op r =
     (case op of
        RWriteHeader s \<Rightarrow> (NoResult, rec_WriteHeader wr clk s r)
      | RWrite b \<Rightarrow> apfst Wrote (rec_Write wr clk b r)
      | RFlush \<Rightarrow> (NoResult, rec_Flush wr clk r)
      | RHijack \<Rightarrow> apfst Conn (rec_Hijack wr r)
      | RReadFrom src \<Rightarrow> apfst Wrote (rec_ReadFrom wr clk src r))"

text \<open>The same call on the wrapped writer itself, with the meaning the optional interfaces have for their
  users: a writer that cannot flush ignores it, one without \<open>ReadFrom\<close> is copied to.\<close>

definition direct_op :: "('w, 'c) http_writer \<Rightarrow> recorder_op \<Rightarrow> 'w \<Rightarrow> 'c op_result \<times> 'w" where
  "direct_op wr op w =
     (case op of
        RWriteHeader s \<Rightarrow> (NoResult, hw_WriteHeader wr s w)
      | RWrite b \<Rightarrow> apfst Wrote (hw_Write wr b w)
      | RFlush \<Rightarrow> (NoResult, case hw_Flush wr of None \<Rightarrow> w | Some f \<Rightarrow> f w)
      | RHijack \<Rightarrow> apfst Conn (case hw_Hijack wr of
            None \<Rightarrow> (Inl ''underlying response writer does not support hijacking'', w) | Some f \<Rightarrow> f w)
      | RReadFrom src \<Rightarrow> apfst Wrote (case hw_ReadFrom wr of None \<Rightarrow> io_Copy (hw_Write wr) src 0 w | Some f \<Rightarrow> f src w))"

fun run_ops :: "('a \<Rightarrow> 's \<Rightarrow> 'b \<times> 's) \<Rightarrow> 'a list \<Rightarrow> 's \<Rightarrow> 'b list \<times> 's" where
  "run_ops f [] s = ([], s)"
| "run_ops f (a # as) s = (case f a s of (b, s') \<Rightarrow> apfst (Cons b) (run_ops f as s'))"

text \<open>A simulation between two such runs.\<close>

lemma run_ops_simulates:
  assumes "\<And>a s. g a (view s) = apsnd view (f a s)"
  shows "run_ops g as (view s) = apsnd view (run_ops f as s)"
  by (induction as arbitrary: s) (simp_all add: assms split_beta prod_eq_iff)

lemma mark_writer [simp]:
  "r_writer (markHeader clk s r) = r_writer r" "r_writer (markFirstWrite clk r) = r_writer r"
  "r_writer (mark_write clk r) = r_writer r"
  by (simp_all add: markHeader_def markFirstWrite_def mark_write_def Let_def)

lemma rec_passes_on: "direct_op wr op (r_writer r) = apsnd r_writer (apply_rec wr clk op r)"
  by (cases op)
     (simp_all add: apply_rec_def direct_op_def rec_WriteHeader_def rec_Write_def rec_Flush_def rec_Hijack_def
       rec_ReadFrom_def Let_def split_beta prod_eq_iff split: option.splits)

lemma run_passes_on:
  "run_ops (direct_op wr) ops (r_writer r) = apsnd r_writer (run_ops (apply_rec wr clk) ops r)"
  by (rule run_ops_simulates) (rule rec_passes_on)

section \<open>What is recorded\<close>

text \<open>A status that does not end the exchange of headers, and the calls that send part of the body.\<close>

definition informational :: "int \<Rightarrow> bool" where
  "informational s \<longleftrightarrow> s \<in> {100..<200} - {101}"

definition body_op :: "recorder_op \<Rightarrow> bool" where
  "body_op op \<longleftrightarrow> (case op of RWrite _ \<Rightarrow> True | RFlush \<Rightarrow> True | RReadFrom _ \<Rightarrow> True | _ \<Rightarrow> False)"

definition final_op :: "recorder_op \<Rightarrow> bool" where
  "final_op op \<longleftrightarrow> (case op of RWriteHeader s \<Rightarrow> \<not> informational s | _ \<Rightarrow> body_op op)"

text \<open>The status of the first call that settles it: its own for a header, 200 for the others.\<close>

definition settled_status :: "recorder_op list \<Rightarrow> int" where
  "settled_status ops = (case find final_op ops of Some (RWriteHeader s) \<Rightarrow> s | _ \<Rightarrow> 200)"

text \<open>Status codes are the three-digit ones; \<open>net/http\<close> panics on others.\<close>

definition op_ok :: "recorder_op \<Rightarrow> bool" where
  "op_ok op = (case op of RWriteHeader s \<Rightarrow> 100 \<le> s \<and> s \<le> 999 | _ \<Rightarrow> True)"

text \<open>The recorder's own fields after some calls. The clock is read when the status is settled and again
  at the first call for the body.\<close>

definition rec_inv :: "clock \<Rightarrow> recorder_op list \<Rightarrow> 'w StatusRecorder \<Rightarrow> bool" where
  "rec_inv clk ops r \<longleftrightarrow>
     r_status r = (if list_ex final_op ops then settled_status ops else 0) \<and>
     (list_ex final_op ops \<longrightarrow> settled_status ops \<noteq> 0) \<and>
     r_headerAt r = (if list_ex final_op ops then Some (clk 0) else None) \<and>
     r_firstWriteAt r = (if list_ex body_op ops then Some (clk 1) else None) \<and>
     r_ticks r = (if list_ex body_op ops then 2 else if list_ex final_op ops then 1 else 0)"

lemma body_final: "body_op op \<Longrightarrow> final_op op"
  by (cases op) (simp_all add: final_op_def body_op_def)

lemma final_ops: "final_op (RWrite b)" "final_op RFlush" "final_op (RReadFrom src)" "\<not> final_op RHijack"
  "final_op (RWriteHeader s) \<longleftrightarrow> \<not> informational s"
  by (simp_all add: final_op_def body_op_def)

lemma body_ops: "body_op (RWrite b)" "body_op RFlush" "body_op (RReadFrom src)" "\<not> body_op RHijack" "\<not> body_op (RWriteHeader s)"
  by (simp_all add: body_op_def)

lemma settled_status_snoc:
  "settled_status (ops @ [op]) =
     (if list_ex final_op ops then settled_status ops else settled_status [op])"
  by (induction ops) (simp_all add: settled_status_def)

lemma settled_none: "\<not> list_ex final_op ops \<Longrightarrow> settled_status ops = 200"
  by (induction ops) (simp_all add: settled_status_def)

lemma list_ex_body: "list_ex body_op ops \<Longrightarrow> list_ex final_op ops"
  by (auto simp: list_ex_iff intro: body_final)

text \<open>Marks depend on the recorder's own fields only.\<close>

lemma mark_write_inv:
  assumes "rec_inv clk ops r" "body_op op"
  shows "rec_inv clk (ops @ [op]) ((mark_write clk r)\<lparr>r_writer := w\<rparr>)"
proof -
  have "settled_status [op] = 200" "final_op op" using assms(2) by (cases op; simp add: settled_status_def final_ops body_ops)+
  with assms list_ex_body [of ops] show ?thesis
    by (auto simp: rec_inv_def mark_write_def markHeader_def markFirstWrite_def Let_def settled_status_snoc)
qed

lemma other_inv:
  assumes "rec_inv clk ops r" "\<not> final_op op"
  shows "rec_inv clk (ops @ [op]) (r\<lparr>r_writer := w\<rparr>)"
  using assms body_final [of op] by (auto simp: rec_inv_def settled_status_snoc)

lemma mark_header_inv:
  assumes "rec_inv clk ops r" "op_ok (RWriteHeader s)"
  shows "rec_inv clk (ops @ [RWriteHeader s]) ((markHeader clk s r)\<lparr>r_writer := w\<rparr>)"
proof (cases "informational s")
  case True
  then have "markHeader clk s r = r" by (simp add: markHeader_def informational_def)
  with other_inv [OF assms(1), of "RWriteHeader s"] True show ?thesis by (simp add: final_ops)
next
  case False
  then have "settled_status [RWriteHeader s] = s" "s \<noteq> 0" "\<not> (s \<ge> 100 \<and> s < 200 \<and> s \<noteq> 101)"
    using assms(2) by (auto simp: settled_status_def final_ops informational_def op_ok_def)
  with assms(1) False list_ex_body [of ops] show ?thesis
    by (auto simp: rec_inv_def markHeader_def Let_def settled_status_snoc final_ops body_ops)
qed

lemma rec_inv_step:
  assumes "rec_inv clk ops r" "op_ok op"
  shows "rec_inv clk (ops @ [op]) (snd (apply_rec wr clk op r))"
proof (cases op)
  case (RWriteHeader s)
  with mark_header_inv [OF assms(1)] assms(2) show ?thesis by (simp add: apply_rec_def rec_WriteHeader_def Let_def)
next
  case (RWrite b)
  with mark_write_inv [OF assms(1)] show ?thesis by (simp add: apply_rec_def rec_Write_def Let_def body_ops split_beta)
next
  case RFlush
  have "rec_inv clk (ops @ [RFlush]) (mark_write clk r)"
    using mark_write_inv [OF assms(1) body_ops(2), of "r_writer (mark_write clk r)"] by (simp del: mark_writer)
  with RFlush mark_write_inv [OF assms(1) body_ops(2)] show ?thesis
    by (auto simp: apply_rec_def rec_Flush_def Let_def split: option.splits)
next
  case RHijack
  have "rec_inv clk (ops @ [RHijack]) r" using other_inv [OF assms(1) final_ops(4), of "r_writer r"] by simp
  with RHijack other_inv [OF assms(1) final_ops(4)] show ?thesis
    by (auto simp: apply_rec_def rec_Hijack_def split_beta split: option.splits)
next
  case (RReadFrom src)
  with mark_write_inv [OF assms(1)] show ?thesis by (simp add: apply_rec_def rec_ReadFrom_def Let_def body_ops split_beta)
qed

lemma rec_inv_run:
  "\<lbrakk>rec_inv clk done_ops r; list_all op_ok ops\<rbrakk> \<Longrightarrow> rec_inv clk (done_ops @ ops) (snd (run_ops (apply_rec wr clk) ops r))"
proof (induction ops arbitrary: done_ops r)
  case (Cons op ops)
  with rec_inv_step [of clk done_ops r op wr] Cons.IH [of "done_ops @ [op]"] show ?case by (simp add: split_beta)
qed simp

lemma recorded:
  assumes "list_all op_ok ops" "run_ops (apply_rec wr clk) ops (NewStatusRecorder w) = (rs, r)"
  shows "rec_inv clk ops r"
proof -
  have "rec_inv clk [] (NewStatusRecorder w)" by (simp add: rec_inv_def NewStatusRecorder_def)
  from rec_inv_run [OF this assms(1), of wr] assms(2) show ?thesis by simp
qed

lemma recorded_status:
  assumes "list_all op_ok ops" "run_ops (apply_rec wr clk) ops (NewStatusRecorder w) = (rs, r)"
  shows "StatusOrOK (Some r) = settled_status ops"
  using recorded [OF assms] settled_none [of ops] by (simp add: rec_inv_def StatusOrOK_def)

text \<open>C14: whatever a handler does with the recorder (headers, informational ones among them, writes,
  flushes, copies, hijacking), any wrapped writer receives exactly these calls in this order, and the
  handler gets the results it would get without the recorder. The recorded status is that of the first
  call that settles it, 200 unless it is a final header, and the first-byte time is the time of the
  first call for the body if there is one, else of the final header if there is one.\<close>

theorem recorder_faithful:
  assumes "list_all op_ok ops" and "run_ops (apply_rec wr clk) ops (NewStatusRecorder w) = (rs, r)"
  shows "run_ops (direct_op wr) ops w = (rs, Unwrap r) \<and>
    StatusOrOK (Some r) = settled_status ops \<and>
    FirstByteSince started (Some r) =
      (if list_ex body_op ops then (time_sub (clk 1) started, True)
       else if list_ex final_op ops then (time_sub (clk 0) started, True) else (0, False))"
proof -
  have "run_ops (direct_op wr) ops w = (rs, Unwrap r)"
    using run_passes_on [of wr ops "NewStatusRecorder w" clk] assms(2) by (simp add: NewStatusRecorder_def Unwrap_def)
  moreover have "StatusOrOK (Some r) = settled_status ops" by (rule recorded_status [OF assms])
  moreover have "FirstByteSince started (Some r) =
      (if list_ex body_op ops then (time_sub (clk 1) started, True)
       else if list_ex final_op ops then (time_sub (clk 0) started, True) else (0, False))"
    using recorded [OF assms] by (simp add: rec_inv_def FirstByteSince_def)
  ultimately show ?thesis by blast
qed

text \<open>A writer that can neither flush nor be hijacked and fails after three bytes, and a handler that
  sends early hints, a status, and more bytes than that.\<close>

definition sample_writer :: "(int list \<times> bytes, unit) http_writer" where
  "sample_writer = \<lparr>hw_WriteHeader = (\<lambda>s (ss, body). (ss @ [s], body)),
     hw_Write = (\<lambda>b (ss, body). ((length (take 3 b), if length b \<le> 3 then None else Some (IOErr ''full'')), (ss, body @ take 3 b))),
     hw_Flush = None, hw_Hijack = None, hw_ReadFrom = None\<rparr>"

theorem recorder_faithful_witness:
  "\<exists>rs r. run_ops (apply_rec sample_writer int) [RWriteHeader 103, RWriteHeader 404, RWrite ''no'', RReadFrom [(''body'', None)]]
       (NewStatusRecorder ([], [])) = (rs, r) \<and>
     rs = [NoResult, NoResult, Wrote (2, None), Wrote (3, Some (IOErr ''full''))] \<and> Unwrap r = ([103, 404], ''nobod'') \<and>
     StatusOrOK (Some r) = 404"
proof -
  let ?ops = "[RWriteHeader 103, RWriteHeader 404, RWrite ''no'', RReadFrom [(''body'', None)]]"
  obtain rs r where run: "run_ops (apply_rec sample_writer int) ?ops (NewStatusRecorder ([], [])) = (rs, r)" by fastforce
  have ok: "list_all op_ok ?ops" by (simp add: op_ok_def)
  have "run_ops (direct_op sample_writer) ?ops ([], []) =
      ([NoResult, NoResult, Wrote (2, None), Wrote (3, Some (IOErr ''full''))], ([103, 404], ''nobod''))"
    "settled_status ?ops = 404" by code_simp+
  with recorder_faithful [OF ok run] run show ?thesis by auto
qed

section \<open>The status the client receives\<close>

text \<open>What a handler's writer promises about the status it sends: the first final header settles it, a
  write or flush settles it as 200, and copying does so if there is anything to copy.\<close>

definition settle :: "int \<Rightarrow> int option \<Rightarrow> int option" where
  "settle s st = (case st of None \<Rightarrow> Some s | Some t \<Rightarrow> Some t)"

lemma io_Copy_settles:
  assumes "\<And>b w. sent (snd (put b w)) = settle 200 (sent w)"
  shows "sent (snd (io_Copy put src n w)) = (if source_bytes src = [] then sent w else settle 200 (sent w))"
proof (cases "source_bytes src = []")
  case True
  then show ?thesis by (simp add: io_Copy_empty)
next
  case False
  show ?thesis
  proof (cases "sent w")
    case None
    with io_Copy_first [OF False, of "\<lambda>w. sent w = None" w "\<lambda>w. sent w = Some 200" put n] False assms
    show ?thesis by (simp add: settle_def)
  next
    case (Some t)
    with io_Copy_keeps [of "\<lambda>w. sent w = Some t" w put src n] False assms show ?thesis by (simp add: settle_def)
  qed
qed

text \<open>A copy of nothing settles nothing at the client, although the recorder takes it for 200.\<close>

definition copies_some :: "recorder_op \<Rightarrow> bool" where
  "copies_some op = (case op of RReadFrom src \<Rightarrow> source_bytes src \<noteq> [] | _ \<Rightarrow> True)"

locale response_writer =
  fixes wr :: "('w, 'c) http_writer" and sent :: "'w \<Rightarrow> int option"
  assumes header_sent: "sent (hw_WriteHeader wr s w) = (if informational s then sent w else settle s (sent w))"
    and write_sent: "sent (snd (hw_Write wr b w)) = settle 200 (sent w)"
    and flush_sent: "\<exists>f. hw_Flush wr = Some f \<and> (\<forall>w. sent (f w) = settle 200 (sent w))"
    and hijack_sent: "hw_Hijack wr = Some hj \<Longrightarrow> sent (snd (hj w)) = sent w"
    and copy_sent: "hw_ReadFrom wr = Some rf \<Longrightarrow> sent (snd (rf src w)) = (if source_bytes src = [] then sent w else settle 200 (sent w))"
begin

lemma direct_sent:
  assumes "copies_some op"
  shows "sent (snd (direct_op wr op w)) = (if final_op op then settle (settled_status [op]) (sent w) else sent w)"
proof (cases op)
  case RFlush
  with flush_sent show ?thesis by (auto simp: direct_op_def final_ops settled_status_def)
qed (use assms in \<open>auto simp: direct_op_def final_ops settled_status_def header_sent write_sent hijack_sent copy_sent
  io_Copy_settles [of sent "hw_Write wr", OF write_sent] copies_some_def split: option.splits\<close>)

lemma run_sent:
  assumes "list_all copies_some ops"
  shows "sent (snd (run_ops (direct_op wr) ops w)) = (if list_ex final_op ops then settle (settled_status ops) (sent w) else sent w)"
  using assms
proof (induction ops arbitrary: w)
  case (Cons op ops)
  then have "sent (snd (direct_op wr op w)) = (if final_op op then settle (settled_status [op]) (sent w) else sent w)"
    by (simp add: direct_sent)
  with Cons show ?case by (auto simp: split_beta settled_status_def settle_def split: option.splits)
qed simp

lemma recorded_status_sent:
  assumes "list_all op_ok ops" "list_all copies_some ops" "sent w = None"
    and "run_ops (apply_rec wr clk) ops (NewStatusRecorder w) = (rs, r)"
  shows "sent (Unwrap r) = (if list_ex final_op ops then Some (StatusOrOK (Some r)) else None)"
proof -
  have "Unwrap r = snd (run_ops (direct_op wr) ops w)"
    using run_passes_on [of wr ops "NewStatusRecorder w" clk] assms(4) by (simp add: NewStatusRecorder_def Unwrap_def)
  with run_sent [OF assms(2), of w] assms(3) show ?thesis by (simp add: recorded_status [OF assms(1,4)] settle_def)
qed

end

text \<open>The server's own writer is one: the response writer of \<open>Go_Http\<close>, with the interim responses sent.\<close>

definition server_Write :: "(ResponseWriter \<times> int list) byte_writer" where
  "server_Write b w = ((length b, None), (Write b (fst w), snd w))"

definition server_writer :: "(ResponseWriter \<times> int list, 'c) http_writer" where
  "server_writer = \<lparr>
     hw_WriteHeader = (\<lambda>s (w, interim). if informational s \<and> w_status w = None then (w, interim @ [s]) else (WriteHeader s w, interim)),
     hw_Write = server_Write, hw_Flush = Some (\<lambda>(w, interim). (WriteHeader 200 w, interim)), hw_Hijack = None,
     hw_ReadFrom = Some (\<lambda>src. io_Copy server_Write src 0)\<rparr>"

definition server_sent :: "ResponseWriter \<times> int list \<Rightarrow> int option" where
  "server_sent w = map_option fst (w_status (fst w))"

lemma WriteHeader_sent:
  "server_sent (WriteHeader s w, xs) = (if informational s then server_sent (w, xs) else settle s (server_sent (w, xs)))"
  by (cases "w_status w") (auto simp: server_sent_def WriteHeader_def informational_def settle_def)

lemma server_Write_sent: "server_sent (snd (server_Write b w)) = settle 200 (server_sent w)"
  using WriteHeader_sent [of 200 "fst w" "snd w"]
  by (simp add: server_Write_def Write_def Let_def informational_def) (simp add: server_sent_def)

interpretation server: response_writer server_writer server_sent
proof -
  have "server_sent (w, interim @ [s]) = server_sent (w, interim)" "\<not> informational 200" for w interim s
    by (simp_all add: server_sent_def informational_def)
  then show "response_writer server_writer server_sent"
    by unfold_locales (auto simp: server_writer_def WriteHeader_sent server_Write_sent io_Copy_settles [of server_sent, OF server_Write_sent])
qed

text \<open>Behind the server's own writer the recorded status is the one the client receives.\<close>

lemma server_status_recorded:
  assumes "list_all op_ok ops" "list_all copies_some ops"
    and "run_ops (apply_rec server_writer clk) ops (NewStatusRecorder (new_writer, [])) = (rs, r)"
  shows "final_status (fst (Unwrap r)) = StatusOrOK (Some r)"
proof -
  have "StatusOrOK (Some r) = settled_status ops" by (rule recorded_status [OF assms(1,3)])
  with server.recorded_status_sent [OF assms(1,2) _ assms(3)] settled_none [of ops] show ?thesis
    by (auto simp: final_status_def server_sent_def split: if_splits option.splits)
qed

end
