(* ===== verification/Json_Encode.thy ===== *)
theory Json_Encode
  imports Json Float64
begin

text \<open>
  \<open>json.Marshal\<close> and \<open>json.Encoder\<close> on the values the sources encode, and \<open>json.Unmarshal\<close> into an
  \<open>any\<close>. Objects are association lists: a struct's in field order, a map's sorted by key as
  \<open>encoding/json\<close> prints it. A number is kept as its text, since no source computes with one.
\<close>

section \<open>Values\<close>

datatype any =
    ANull
  | ABool bool
  | ANum bytes
  | AStr bytes
  | AArr "any list"
  | AObj "(bytes \<times> any) list"

definition AInt :: "int \<Rightarrow> any" where
  "AInt i = ANum (show_int i)"

text \<open>Byte-wise order of strings, and maps as lists sorted by key.\<close>

fun bytes_less :: "bytes \<Rightarrow> bytes \<Rightarrow> bool" where
  "bytes_less s [] \<longleftrightarrow> False"
| "bytes_less [] (d # t) \<longleftrightarrow> True"
| "bytes_less (c # s) (d # t) \<longleftrightarrow> code c < code d \<or> (c = d \<and> bytes_less s t)"

fun map_put :: "bytes \<Rightarrow> 'a \<Rightarrow> (bytes \<times> 'a) list \<Rightarrow> (bytes \<times> 'a) list" where
  "map_put k v [] = [(k, v)]"
| "map_put k v ((j, w) # m) =
     (if k = j then (k, v) # m else if bytes_less k j then (k, v) # (j, w) # m else (j, w) # map_put k v m)"

definition map_delete :: "bytes \<Rightarrow> (bytes \<times> 'a) list \<Rightarrow> (bytes \<times> 'a) list" where
  "map_delete k m = filter (\<lambda>(j, _). j \<noteq> k) m"

definition map_of_pairs :: "(bytes \<times> 'a) list \<Rightarrow> (bytes \<times> 'a) list" where
  "map_of_pairs ps = fold (\<lambda>(k, v) m. map_put k v m) ps []"

section \<open>Strings\<close>

definition hex_lower :: "nat \<Rightarrow> byte" where
  "hex_lower n = hex_digit n"

definition escape_u :: "nat \<Rightarrow> bytes" where
  "escape_u v = [BACKSLASH, CHR ''u'', hex_lower (v div 4096 mod 16), hex_lower (v div 256 mod 16),
     hex_lower (v div 16 mod 16), hex_lower (v mod 16)]"

definition html_safe :: "byte \<Rightarrow> bool" where
  "html_safe c \<longleftrightarrow> 32 \<le> code c \<and> c \<notin> {DQUOTE, BACKSLASH, CHR ''<'', CHR ''>'', CHR ''&''}"

definition escape_ascii :: "byte \<Rightarrow> bytes" where
  "escape_ascii c =
     (if html_safe c then [c]
      else if c = BACKSLASH \<or> c = DQUOTE then [BACKSLASH, c]
      else if c = CHR 0x08 then [BACKSLASH, CHR ''b'']
      else if c = CHR 0x0C then [BACKSLASH, CHR ''f'']
      else if c = LF then [BACKSLASH, CHR ''n'']
      else if c = CR then [BACKSLASH, CHR ''r'']
      else if c = TAB then [BACKSLASH, CHR ''t'']
      else escape_u (code c))"

text \<open>The separators U+2028 and U+2029 are escaped, other characters beyond ASCII are copied, and bytes
  that are not UTF-8 become the escaped replacement character.\<close>

definition line_sep :: "bytes \<Rightarrow> bool" where
  "line_sep w \<longleftrightarrow> w = [CHR 0xE2, CHR 0x80, CHR 0xA8] \<or> w = [CHR 0xE2, CHR 0x80, CHR 0xA9]"

function escape_string :: "bytes \<Rightarrow> bytes" where
  "escape_string [] = []"
| "escape_string (c # s) =
     (if code c < 128 then escape_ascii c @ escape_string s
      else (let n = utf8_len (c # s) in
        if n = 0 then escape_u 65533 @ escape_string s
        else (let w = take n (c # s) in
          (if line_sep w then escape_u (if w ! 2 = CHR 0xA8 then 8232 else 8233) else w) @
          escape_string (drop n (c # s)))))"
  by pat_completeness auto
termination by (relation "measure length") auto

definition json_quote :: "bytes \<Rightarrow> bytes" where
  "json_quote s = [DQUOTE] @ escape_string s @ [DQUOTE]"

section \<open>Marshal\<close>

fun join_with :: "byte \<Rightarrow> bytes list \<Rightarrow> bytes" where
  "join_with x [] = []"
| "join_with x [s] = s"
| "join_with x (s # ss) = s @ x # join_with x ss"

fun Marshal :: "any \<Rightarrow> bytes" where
  "Marshal ANull = ''null''"
| "Marshal (ABool b) = (if b then ''true'' else ''false'')"
| "Marshal (ANum n) = n"
| "Marshal (AStr s) = json_quote s"
| "Marshal (AArr xs) = [CHR ''[''] @ join_with (CHR '','') (map Marshal xs) @ [CHR '']'']"
| "Marshal (AObj ms) =
     [CHR ''{''] @ join_with (CHR '','') (map (\<lambda>(k, v). json_quote k @ CHR '':'' # Marshal v) ms) @ [CHR ''}'']"

text \<open>\<open>json.Encoder.Encode\<close> adds a newline.\<close>

definition Encode :: "any \<Rightarrow> bytes" where
  "Encode v = Marshal v @ [LF]"

section \<open>Reading back\<close>

text \<open>A string with each byte that is not part of valid UTF-8 replaced.\<close>

function utf8_text :: "bytes \<Rightarrow> bytes" where
  "utf8_text [] = []"
| "utf8_text (c # s) =
     (if code c < 128 then c # utf8_text s
      else (let n = utf8_len (c # s) in
        if n = 0 then replacement_char @ utf8_text s
        else take n (c # s) @ utf8_text (drop n (c # s))))"
  by pat_completeness auto
termination by (relation "measure length") auto

lemma nibbles:
  assumes "v < 65536"
  shows "4096 * (v div 4096 mod 16) + 256 * (v div 256 mod 16) + 16 * (v div 16 mod 16) + v mod 16 = (v :: nat)"
proof -
  have "v div 16 div 16 = v div 256" "v div 256 div 16 = v div 4096" by (simp_all add: div_mult2_eq [symmetric])
  then have "16 * (v div 16) + v mod 16 = v" "16 * (v div 256) + v div 16 mod 16 = v div 16"
    "16 * (v div 4096) + v div 256 mod 16 = v div 256"
    using mult_div_mod_eq [of 16 v] mult_div_mod_eq [of 16 "v div 16"] mult_div_mod_eq [of 16 "v div 256"] by simp_all
  moreover have "v div 4096 mod 16 = v div 4096" using assms by (simp add: less_mult_imp_div_less)
  ultimately show ?thesis by linarith
qed

lemma hex4_escape:
  assumes "v < 65536"
  shows "hex4 (hex_lower (v div 4096 mod 16) # hex_lower (v div 256 mod 16) # hex_lower (v div 16 mod 16) # hex_lower (v mod 16) # r)
    = Some (v, r)"
proof -
  have h: "hex_val (hex_digit (x mod 16)) = Some (x mod 16)" for x by simp
  show ?thesis
    unfolding hex4_def hex_lower_def by (simp only: list.case h prod.case option.case nibbles [OF assms])
qed

lemma unit_escape_u:
  assumes "v < 55296 \<or> 57343 < v" "v < 65536"
  shows "string_unit BACKSLASH (tl (escape_u v) @ r) = Some (utf8_encode v, r)"
proof -
  have "\<not> (55296 \<le> v \<and> v \<le> 57343)" using assms(1) by linarith
  with hex4_escape [OF assms(2), of r]
  have "unquote_u (tl (tl (escape_u v)) @ r) = Some (utf8_encode v, r)"
    unfolding unquote_u_def escape_u_def list.sel append.simps by (simp only: option.case prod.case if_False)
  then show ?thesis by (simp add: string_unit_def escape_u_def)
qed

lemma utf8_encode_consts:
  "utf8_encode 65533 = replacement_char"
  "utf8_encode 8232 = [CHR 0xE2, CHR 0x80, CHR 0xA8]" "utf8_encode 8233 = [CHR 0xE2, CHR 0x80, CHR 0xA9]"
proof -
  have "(char_of (239 :: nat) :: char) = CHR 0xEF" "(char_of (191 :: nat) :: char) = CHR 0xBF"
    "(char_of (189 :: nat) :: char) = CHR 0xBD" "(char_of (226 :: nat) :: char) = CHR 0xE2"
    "(char_of (128 :: nat) :: char) = CHR 0x80" "(char_of (168 :: nat) :: char) = CHR 0xA8"
    "(char_of (169 :: nat) :: char) = CHR 0xA9"
    by code_simp+
  then show "utf8_encode 65533 = replacement_char"
    "utf8_encode 8232 = [CHR 0xE2, CHR 0x80, CHR 0xA8]" "utf8_encode 8233 = [CHR 0xE2, CHR 0x80, CHR 0xA9]"
    by (simp_all add: utf8_encode_def replacement_char_def)
qed

lemma escape_u_Cons: "escape_u v = BACKSLASH # tl (escape_u v)"
  by (simp add: escape_u_def)

lemma json_string_unit:
  "\<lbrakk>c \<noteq> DQUOTE; string_unit c s = Some (b, r); json_string r = Some (t, q)\<rbrakk> \<Longrightarrow> json_string (c # s) = Some (b @ t, q)"
  by simp

lemma json_string_escape_u:
  "\<lbrakk>v < 55296 \<or> 57343 < v; v < 65536; json_string r = Some (t, q)\<rbrakk> \<Longrightarrow>
     json_string (escape_u v @ r) = Some (utf8_encode v @ t, q)"
  by (subst escape_u_Cons) (simp add: unit_escape_u del: escape_u_Cons)

lemma json_string_escape_ascii:
  assumes "code c < 128" "json_string r = Some (t, q)"
  shows "json_string (escape_ascii c @ r) = Some (c # t, q)"
proof (cases "html_safe c")
  case True
  with assms show ?thesis by (auto simp: escape_ascii_def html_safe_def string_unit_def)
next
  case False
  have "json_string (escape_u (code c) @ r) = Some (c # t, q)"
    using json_string_escape_u [of "code c" r t q] assms by (simp add: utf8_encode_def)
  with False assms show ?thesis
    by (auto simp: escape_ascii_def string_unit_def simple_escape_def)
qed

lemma utf8_len_take: "0 < utf8_len s \<Longrightarrow> utf8_len (take (utf8_len s) s) = utf8_len s"
proof -
  assume pos: "0 < utf8_len s"
  consider "s = []" | a where "s = [a]" | a b where "s = [a, b]" | a b c where "s = [a, b, c]"
    | a b c d r where "s = a # b # c # d # r"
    by (metis list.exhaust)
  then show ?thesis
    using pos by cases (simp_all add: utf8_len_def Let_def split: if_split_asm)
qed

lemma json_string_wide:
  assumes "\<not> code c < 128" "utf8_len (c # s) = n" "0 < n" "json_string r = Some (t, q)"
  shows "json_string (take n (c # s) @ r) = Some (take n (c # s) @ t, q)"
proof -
  obtain w where w: "take n (c # s) = c # w" using assms(3) by (cases n) auto
  have len: "utf8_len (c # w) = n" using utf8_len_take [of "c # s"] assms(2,3) w by simp
  then have "utf8_len (c # w @ r) = n" using utf8_len_append [of "c # w" r] assms(3) by simp
  moreover have "length (c # w) = n" using w utf8_len_le [of "c # s"] assms(2) by (metis length_take min.absorb2)
  moreover have "c \<noteq> BACKSLASH" "\<not> code c < 32" using assms(1) by (auto simp: code_def)
  ultimately have "string_unit c (w @ r) = Some (c # w, r)"
    using assms(1,3) take_append [of n "c # w" r] drop_append [of n "c # w" r]
    unfolding string_unit_def by (simp only: Let_def) simp
  moreover have "c \<noteq> DQUOTE" using assms(1) by (auto simp: code_def)
  ultimately show ?thesis using json_string_unit assms(4) unfolding w by simp
qed

lemma json_string_escape: "json_string (escape_string s @ DQUOTE # r) = Some (utf8_text s, r)"
proof (induction s rule: escape_string.induct)
  case (2 c s)
  show ?case
  proof (cases "code c < 128")
    case True
    with 2 show ?thesis by (simp add: json_string_escape_ascii)
  next
    case wide: False
    define n where "n = utf8_len (c # s)"
    show ?thesis
    proof (cases "n = 0")
      case True
      note utf8_encode_consts(1)
      with True wide 2 n_def show ?thesis
        by (simp add: Let_def json_string_escape_u)
    next
      case False
      define w where "w = take n (c # s)"
      have IH: "json_string (escape_string (drop n (c # s)) @ DQUOTE # r) = Some (utf8_text (drop n (c # s)), r)"
        using "2.IH" wide False n_def by simp
      have txt_eq: "utf8_text (c # s) = w @ utf8_text (drop n (c # s))"
        using wide False n_def w_def by (simp add: Let_def)
      have esc: "escape_string (c # s) = (if line_sep w then escape_u (if w ! 2 = CHR 0xA8 then 8232 else 8233) else w)
          @ escape_string (drop n (c # s))"
        using wide False n_def w_def by (simp add: Let_def)
      have "line_sep w \<Longrightarrow> utf8_encode (if w ! 2 = CHR 0xA8 then 8232 else 8233) = w"
        using utf8_encode_consts(2,3) by (auto simp: line_sep_def)
      then show ?thesis
        unfolding esc txt_eq append_assoc
        using json_string_escape_u [OF _ _ IH, of "if w ! 2 = CHR 0xA8 then 8232 else 8233"]
          json_string_wide [OF wide n_def [symmetric] _ IH] False
        by (cases "line_sep w") (simp_all add: w_def split: if_splits)
    qed
  qed
qed simp

text \<open>The parse tree of a printed value.\<close>

fun tree :: "any \<Rightarrow> json" where
  "tree ANull = JNull"
| "tree (ABool b) = JBool b"
| "tree (ANum n) = JNum n"
| "tree (AStr s) = JStr (utf8_text s)"
| "tree (AArr xs) = JArr (map (\<lambda>x. (Marshal x, tree x)) xs)"
| "tree (AObj ms) = JObj (map (\<lambda>(k, v). (utf8_text k, Marshal v, tree v)) ms)"

definition num_ok :: "bytes \<Rightarrow> bool" where
  "num_ok n \<longleftrightarrow> json_number n = Some (n, [])"

text \<open>Numbers follow the grammar, and the nesting stays within the given depth.\<close>

fun any_ok :: "nat \<Rightarrow> any \<Rightarrow> bool" where
  "any_ok d ANull \<longleftrightarrow> True"
| "any_ok d (ABool b) \<longleftrightarrow> True"
| "any_ok d (ANum n) \<longleftrightarrow> num_ok n"
| "any_ok d (AStr s) \<longleftrightarrow> True"
| "any_ok d (AArr xs) \<longleftrightarrow> 0 < d \<and> list_all (any_ok (d - 1)) xs"
| "any_ok d (AObj ms) \<longleftrightarrow> 0 < d \<and> list_all (\<lambda>(k, v). any_ok (d - 1) v) ms"

lemma num_digits_append:
  assumes "num_digits s = (ds, q)" "number_stop r"
  shows "num_digits (s @ r) = (ds, q @ r)"
proof (cases q)
  case Nil
  with assms(1) have all: "\<forall>c \<in> set s. is_digit c" "ds = s"
    by (auto simp: num_digits_def dropWhile_eq_Nil_conv takeWhile_eq_all_conv)
  moreover have "takeWhile is_digit r = []" "dropWhile is_digit r = r"
    using assms(2) by (auto simp: number_stop_def split: list.splits)
  ultimately show ?thesis using Nil by (simp add: num_digits_def takeWhile_append2 dropWhile_append2)
next
  case (Cons c q')
  have "s = ds @ c # q'" "\<not> is_digit c"
    using assms(1) Cons by (auto simp: num_digits_def dropWhile_eq_Cons_conv)
  then have "c \<in> set s" "\<not> is_digit c" by auto
  then show ?thesis using assms(1) Cons by (auto simp: num_digits_def takeWhile_append1 dropWhile_append1)
qed

lemma num_int_append: "\<lbrakk>num_int s = Some (i, q); number_stop r\<rbrakk> \<Longrightarrow> num_int (s @ r) = Some (i, q @ r)"
proof (cases s)
  case (Cons c t)
  assume "num_int s = Some (i, q)" "number_stop r"
  with Cons num_digits_append [of s i q r] show ?thesis by (auto simp: num_int_def split: if_splits)
qed (simp add: num_int_def)

lemma num_frac_append: "\<lbrakk>num_frac s = Some (f, q); number_stop r\<rbrakk> \<Longrightarrow> num_frac (s @ r) = Some (f, q @ r)"
proof (cases s)
  case (Cons c t)
  assume f: "num_frac s = Some (f, q)" "number_stop r"
  obtain ds u where "num_digits t = (ds, u)" by fastforce
  with Cons f num_digits_append [of t ds u r] show ?thesis by (auto simp: num_frac_def split: if_splits)
qed (simp add: num_rest num_frac_def [of "[]"])

lemma num_exp_append: "\<lbrakk>num_exp s = Some (f, q); number_stop r\<rbrakk> \<Longrightarrow> num_exp (s @ r) = Some (f, q @ r)"
proof (cases s)
  case (Cons c t)
  assume f: "num_exp s = Some (f, q)" "number_stop r"
  show ?thesis
  proof (cases "c = CHR ''e'' \<or> c = CHR ''E''")
    case e: True
    show ?thesis
    proof (cases t)
      case Nil
      with Cons f(1) e show ?thesis by (auto simp: num_exp_def num_digits_def)
    next
      case t: (Cons d t')
      obtain ds u where u: "num_digits (if d = CHR ''+'' \<or> d = CHR ''-'' then t' else t) = (ds, u)" by fastforce
      with Cons t e f num_digits_append [OF u f(2)] show ?thesis
        by (auto simp: num_exp_def split: if_splits)
    qed
  qed (use Cons f in \<open>auto simp: num_exp_def\<close>)
qed (simp add: num_rest num_exp_def [of "[]"])

lemma json_number_append:
  assumes "json_number s = Some (n, q)" "number_stop r"
  shows "json_number (s @ r) = Some (n, q @ r)"
proof -
  obtain sg s0 where s: "s = sg @ s0" "sg = [] \<and> (s0 = [] \<or> hd s0 \<noteq> CHR ''-'') \<or> sg = ''-''"
    by (cases s) (metis append.left_neutral append_Cons list.sel(1))+
  with assms(1) obtain i f e r1 r2 where p: "num_int s0 = Some (i, r1)" "num_frac r1 = Some (f, r2)"
    "num_exp r2 = Some (e, q)" "n = sg @ i @ f @ e"
    by (cases s0) (auto simp: json_number_def Option.bind_eq_Some_conv)
  have ne: "s0 \<noteq> []" using p(1) by (auto simp: num_int_def)
  note p' = num_int_append [OF p(1) assms(2)] num_frac_append [OF p(2) assms(2)] num_exp_append [OF p(3) assms(2)]
  with s p(4) ne show ?thesis by (cases s0) (auto simp: json_number_def)
qed

lemma num_ok_head: "num_ok n \<Longrightarrow> \<exists>c s. n = c # s \<and> (is_digit c \<or> c = CHR ''-'')"
proof (cases n)
  case (Cons c s)
  assume "num_ok n"
  moreover have "is_digit (CHR ''0'')" by code_simp
  ultimately show ?thesis using Cons
    by (auto simp: num_ok_def json_number_def num_int_def Option.bind_eq_Some_conv split: if_splits)
qed (simp add: num_ok_def json_number_def num_int_def)

lemma json_value_num: "\<lbrakk>num_ok n; number_stop r\<rbrakk> \<Longrightarrow> json_value d (n @ r) = Some (JNum n, r)"
proof -
  assume n: "num_ok n" and r: "number_stop r"
  obtain c s where cs: "n = c # s" "is_digit c \<or> c = CHR ''-''" using num_ok_head [OF n] by blast
  then have "c \<noteq> DQUOTE" "c \<noteq> CHR ''[''" "c \<noteq> CHR ''{''" "c \<noteq> CHR ''n''" "c \<noteq> CHR ''t''" "c \<noteq> CHR ''f''"
    by (auto simp: is_digit_def code_def)
  moreover have "json_number (n @ r) = Some (n, r)" using json_number_append [of n n "[]" r] n r by (simp add: num_ok_def)
  ultimately show ?thesis using cs by (simp add: json_value.simps json_literal_def has_prefix_def)
qed

text \<open>The first character of a printed value.\<close>

definition head_ok :: "bytes \<Rightarrow> bool" where
  "head_ok s \<longleftrightarrow> (\<exists>c r. s = c # r \<and> \<not> json_ws c \<and> c \<noteq> CHR '']'' \<and> c \<noteq> CHR ''}'')"

lemma Marshal_head: "any_ok d a \<Longrightarrow> head_ok (Marshal a)"
proof (cases a)
  case (ANum n)
  assume "any_ok d a"
  then obtain c s where "n = c # s" "is_digit c \<or> c = CHR ''-''" using num_ok_head [of n] ANum by auto
  with ANum show ?thesis by (auto simp: head_ok_def json_ws_def is_digit_def code_def)
qed (auto simp: head_ok_def json_ws_def json_quote_def)

lemma head_ok_append: "head_ok s \<Longrightarrow> head_ok (s @ r)"
  by (auto simp: head_ok_def)

lemma head_ok_skip: "head_ok s \<Longrightarrow> skip_ws s = s"
  by (auto simp: head_ok_def skip_ws_def)

lemma head_ok_hd: "head_ok s \<Longrightarrow> s \<noteq> [] \<and> hd s \<noteq> CHR '']'' \<and> hd s \<noteq> CHR ''}''"
  by (auto simp: head_ok_def)

lemma raw_text_append [simp]: "raw_text (s @ r) r = s"
  by (simp add: raw_text_def)

lemma stop_comma [simp]: "number_stop (CHR '','' # r)" "number_stop (CHR '']'' # r)" "number_stop (CHR ''}'' # r)" "number_stop []"
  by (simp_all add: number_stop_def is_digit_def code_def)

definition reads_back :: "nat \<Rightarrow> any \<Rightarrow> bool" where
  "reads_back d a \<longleftrightarrow> (\<forall>r. number_stop r \<longrightarrow> json_value d (Marshal a @ r) = Some (tree a, r))"

lemma reads_backD: "\<lbrakk>reads_back d a; number_stop r\<rbrakk> \<Longrightarrow> json_value d (Marshal a @ r) = Some (tree a, r)"
  by (simp add: reads_back_def)

lemma skip_ws_stop: "skip_ws (CHR '','' # r) = CHR '','' # r" "skip_ws (CHR '']'' # r) = CHR '']'' # r"
    "skip_ws (CHR ''}'' # r) = CHR ''}'' # r" "skip_ws (CHR '':'' # r) = CHR '':'' # r" "skip_ws (DQUOTE # r) = DQUOTE # r"
  by (simp_all add: skip_ws_def json_ws_def)

lemma join_with_Cons: "ss \<noteq> [] \<Longrightarrow> join_with x (s # ss) = s @ x # join_with x ss"
  by (cases ss) auto

lemma join_with_head: "\<lbrakk>ss \<noteq> []; head_ok (hd ss)\<rbrakk> \<Longrightarrow> head_ok (join_with x ss @ r)"
  by (cases ss rule: remdups_adj.cases) (auto intro: head_ok_append simp: append_assoc [symmetric] simp del: append_assoc)

lemma json_elems_back:
  "\<lbrakk>xs \<noteq> []; \<forall>x \<in> set xs. reads_back d x \<and> head_ok (Marshal x)\<rbrakk> \<Longrightarrow>
     json_elems d (join_with (CHR '','') (map Marshal xs) @ CHR '']'' # r) =
       Some (map (\<lambda>x. (Marshal x, tree x)) xs, r)"
proof (induction xs)
  case (Cons x xs)
  show ?case
  proof (cases "xs = []")
    case True
    with Cons.prems show ?thesis
      by (subst json_elems_eq) (simp add: reads_backD skip_ws_stop)
  next
    case False
    let ?rest = "join_with (CHR '','') (map Marshal xs) @ CHR '']'' # r"
    have head: "head_ok ?rest"
      using False Cons.prems by (intro join_with_head) (auto simp: hd_map)
    have IH: "json_elems d ?rest = Some (map (\<lambda>x. (Marshal x, tree x)) xs, r)" using Cons False by simp
    have eq: "join_with (CHR '','') (map Marshal (x # xs)) @ CHR '']'' # r = Marshal x @ CHR '','' # ?rest"
      using False by (simp add: join_with_Cons)
    show ?thesis
      unfolding eq using Cons.prems IH head_ok_skip [OF head]
      by (subst json_elems_eq) (simp add: reads_backD skip_ws_stop)
  qed
qed simp

abbreviation member_text :: "bytes \<times> any \<Rightarrow> bytes" where
  "member_text \<equiv> \<lambda>(k, v). json_quote k @ CHR '':'' # Marshal v"

lemma json_members_step:
  assumes "reads_back d v" "head_ok (Marshal v)" "number_stop t"
  shows "json_members d (member_text (k, v) @ t) =
    (case skip_ws t of
       [] \<Rightarrow> None
     | c # t' \<Rightarrow>
         if c = CHR ''}'' then Some ([(utf8_text k, Marshal v, tree v)], t')
         else if c = CHR '','' then
           map_option (\<lambda>(xs, q). ((utf8_text k, Marshal v, tree v) # xs, q)) (json_members d (skip_ws t'))
         else None)"
proof -
  have "json_string (escape_string k @ DQUOTE # CHR '':'' # Marshal v @ t) = Some (utf8_text k, CHR '':'' # Marshal v @ t)"
    by (rule json_string_escape)
  moreover have "skip_ws (Marshal v @ t) = Marshal v @ t"
    by (rule head_ok_skip [OF head_ok_append [OF assms(2)]])
  ultimately show ?thesis
    using assms by (subst json_members_eq) (simp add: json_quote_def skip_ws_stop reads_backD split: list.split)
qed

lemma json_members_back:
  "\<lbrakk>ms \<noteq> []; \<forall>(k, v) \<in> set ms. reads_back d v \<and> head_ok (Marshal v)\<rbrakk> \<Longrightarrow>
     json_members d (join_with (CHR '','') (map member_text ms) @ CHR ''}'' # r) =
       Some (map (\<lambda>(k, v). (utf8_text k, Marshal v, tree v)) ms, r)"
proof (induction ms)
  case (Cons m ms)
  obtain k v where m: "m = (k, v)" by (cases m)
  have v: "reads_back d v" "head_ok (Marshal v)" using Cons.prems m by auto
  show ?case
  proof (cases "ms = []")
    case True
    then show ?thesis using json_members_step [OF v, of "CHR ''}'' # r" k] by (simp add: m skip_ws_stop)
  next
    case False
    let ?rest = "join_with (CHR '','') (map member_text ms) @ CHR ''}'' # r"
    have "head_ok (hd (map member_text ms))"
      using False by (cases ms) (auto simp: head_ok_def json_quote_def json_ws_def)
    then have head: "head_ok ?rest" using False by (intro join_with_head) auto
    have IH: "json_members d ?rest = Some (map (\<lambda>(k, v). (utf8_text k, Marshal v, tree v)) ms, r)"
      using Cons False by simp
    have eq: "join_with (CHR '','') (map member_text (m # ms)) @ CHR ''}'' # r = member_text (k, v) @ CHR '','' # ?rest"
      using False by (simp add: join_with_Cons m)
    show ?thesis
      unfolding eq using json_members_step [OF v, of "CHR '','' # ?rest" k] IH head_ok_skip [OF head]
      by (simp add: m skip_ws_stop)
  qed
qed simp

lemma json_value_Marshal: "any_ok d a \<Longrightarrow> reads_back d a"
proof (induction a arbitrary: d)
  case ANull
  then show ?case by (simp add: reads_back_def json_value.simps json_literal_def)
next
  case (ABool b)
  then show ?case by (simp add: reads_back_def json_value.simps json_literal_def)
next
  case (ANum n)
  then show ?case by (simp add: reads_back_def json_value_num)
next
  case (AStr s)
  show ?case by (simp add: reads_back_def json_value.simps json_quote_def json_string_escape)
next
  case (AArr xs)
  then have d: "0 < d" and xs: "\<forall>x \<in> set xs. reads_back (d - 1) x \<and> head_ok (Marshal x)"
    by (auto simp: list_all_iff intro: Marshal_head)
  show ?case
  proof (cases "xs = []")
    case True
    with d show ?thesis by (simp add: reads_back_def json_value.simps skip_ws_stop)
  next
    case False
    have head: "head_ok (join_with (CHR '','') (map Marshal xs) @ CHR '']'' # r)" for r
      using False xs by (intro join_with_head) (auto simp: hd_map)
    from d json_elems_back [OF False xs] head_ok_skip [OF head] head_ok_hd [OF head] show ?thesis
      by (simp add: reads_back_def json_value.simps Let_def)
  qed
next
  case (AObj ms)
  then have d: "0 < d" and ms: "\<forall>(k, v) \<in> set ms. reads_back (d - 1) v \<and> head_ok (Marshal v)"
    by (fastforce simp: list_all_iff intro: Marshal_head)+
  show ?case
  proof (cases "ms = []")
    case True
    with d show ?thesis by (simp add: reads_back_def json_value.simps skip_ws_stop)
  next
    case False
    have "head_ok (hd (map member_text ms))"
      using False by (cases ms) (auto simp: head_ok_def json_quote_def json_ws_def)
    then have head: "head_ok (join_with (CHR '','') (map member_text ms) @ CHR ''}'' # r)" for r
      using False by (intro join_with_head) auto
    from d json_members_back [OF False ms] head_ok_skip [OF head] head_ok_hd [OF head] show ?thesis
      by (simp add: reads_back_def json_value.simps Let_def)
  qed
qed

lemma json_parse_Marshal:
  assumes "any_ok max_nesting_depth a"
  shows "json_parse (Marshal a) = Some (tree a)" "json_parse (Encode a) = Some (tree a)"
proof -
  have head: "skip_ws (Marshal a @ r) = Marshal a @ r" for r
    by (rule head_ok_skip [OF head_ok_append [OF Marshal_head [OF assms]]])
  have v: "json_value max_nesting_depth (Marshal a @ r) = Some (tree a, r)" if "number_stop r" for r
    using json_value_Marshal [OF assms] that by (simp add: reads_back_def)
  have stop: "number_stop [LF]" by (simp add: number_stop_def is_digit_def code_def)
  show "json_parse (Marshal a) = Some (tree a)"
    using head [of "[]"] v [of "[]"] by (simp add: json_parse_def skip_ws_def [of "[]"])
  show "json_parse (Encode a) = Some (tree a)"
    using head [of "[LF]"] v [OF stop] by (simp add: json_parse_def Encode_def skip_ws_def [of "[LF]"] json_ws_def)
qed

section \<open>Numbers as \<open>float64\<close>\<close>

text \<open>\<open>json.Unmarshal\<close> turns a number into a \<open>float64\<close>, and \<open>json.Marshal\<close> prints it with the fewest
  digits that read back as the same value, as \<open>strconv.AppendFloat\<close> does with precision -1.\<close>

definition exponent10 :: "rat \<Rightarrow> int" where
  "exponent10 q =
     (let e = exponent2 q * 30103 div 100000 in
      if pow10 (e + 1) \<le> q then e + 1 else if pow10 e \<le> q then e else e - 1)"

definition closest_decimal :: "rat \<Rightarrow> int \<Rightarrow> int option" where
  "closest_decimal q k =
     (let lo = \<lfloor>q / pow10 k\<rfloor>; hi = lo + 1;
          ok = (\<lambda>c. round64 (of_int c * pow10 k) = Fin q)
      in if ok lo \<and> (\<not> ok hi \<or> q - of_int lo * pow10 k \<le> of_int hi * pow10 k - q) then Some lo
         else if ok hi then Some hi else None)"

text \<open>Seventeen digits are always enough for a \<open>float64\<close>.\<close>

fun shortest_decimal :: "rat \<Rightarrow> int \<Rightarrow> nat \<Rightarrow> int \<times> int" where
  "shortest_decimal q k 0 = (\<lfloor>q / pow10 k\<rfloor>, k)"
| "shortest_decimal q k (Suc n) =
     (case closest_decimal q k of Some d \<Rightarrow> (d, k) | None \<Rightarrow> shortest_decimal q (k - 1) n)"

definition drop_zeros :: "bytes \<Rightarrow> bytes" where
  "drop_zeros ds = rev (dropWhile (\<lambda>c. c = CHR ''0'') (rev ds))"

text \<open>Digits and the position of the decimal point: the value is \<open>0.ds\<close> times ten to \<open>dp\<close>.\<close>

definition fixed_text :: "bytes \<Rightarrow> int \<Rightarrow> bytes" where
  "fixed_text ds dp =
     (if 0 < dp then take (nat dp) ds @ replicate (nat dp - length ds) (CHR ''0'') else ''0'') @
     (if dp < int (length ds)
      then CHR ''.'' # replicate (nat (- dp)) (CHR ''0'') @ drop (nat dp) ds else [])"

definition exp_text :: "bytes \<Rightarrow> int \<Rightarrow> bytes" where
  "exp_text ds dp =
     take 1 ds @ (if 1 < length ds then CHR ''.'' # drop 1 ds else []) @
     CHR ''e'' # (if dp - 1 < 0 then CHR ''-'' else CHR ''+'') # show_nat (nat \<bar>dp - 1\<bar>)"

definition float_text :: "bool \<Rightarrow> rat \<Rightarrow> bytes" where
  "float_text negative q =
     (let a = \<bar>q\<bar>;
          (d, k) = shortest_decimal a (exponent10 a) 17;
          ds = show_nat (nat d);
          dp = int (length ds) + k;
          ds = drop_zeros ds
      in (if negative then ''-'' else []) @
         (if q = 0 then ''0''
          else if a < 1 / 10 ^ 6 \<or> 10 ^ 21 \<le> a then exp_text ds dp else fixed_text ds dp))"

section \<open>Decoding into an \<open>any\<close>\<close>

text \<open>A later member of an object replaces an earlier one with the same name.\<close>

fun to_any :: "json \<Rightarrow> any option" where
  "to_any JNull = Some ANull"
| "to_any (JBool b) = Some (ABool b)"
| "to_any (JNum n) = map_option (\<lambda>q. ANum (float_text (take 1 n = ''-'') q)) (parse_float64 n)"
| "to_any (JStr s) = Some (AStr s)"
| "to_any (JArr xs) = map_option AArr (those (map (\<lambda>(raw, v). to_any v) xs))"
| "to_any (JObj ms) =
     map_option (\<lambda>ps. AObj (map_of_pairs ps)) (those (map (\<lambda>(k, raw, v). map_option (Pair k) (to_any v)) ms))"

text \<open>\<open>json.Unmarshal\<close> into an \<open>any\<close>, and into a \<open>map[string]any\<close> (\<open>null\<close> leaves the nil map).\<close>

definition Unmarshal_any :: "bytes \<Rightarrow> any option" where
  "Unmarshal_any s = Option.bind (json_parse s) to_any"

definition any_map :: "any \<Rightarrow> (bytes \<times> any) list option" where
  "any_map a = (case a of ANull \<Rightarrow> Some [] | AObj m \<Rightarrow> Some m | _ \<Rightarrow> None)"

definition Unmarshal_map :: "bytes \<Rightarrow> (bytes \<times> any) list option" where
  "Unmarshal_map s = Option.bind (Unmarshal_any s) any_map"

lemma utf8_text_ascii: "is_ascii s \<Longrightarrow> utf8_text s = s"
  by (induction s) (auto simp: is_ascii_def)

declare utf8_text.simps [simp del] escape_string.simps [simp del]

end
