(* ===== verification/Openai_Response.thy ===== *)
theory Openai_Response
  imports Go_Http Json_Encode
begin

text \<open>
  \<open>internal/infra/openai/response.go\<close>: the error responses in the format OpenAI clients expect. The
  structs are encoded in field order by \<open>json.Encoder\<close>.
\<close>

record Info =
  Message :: bytes
  Type :: bytes
  Param :: "bytes option"
  Code :: int

record Response =
  Error :: Info

definition info_any :: "Info \<Rightarrow> any" where
  "info_any i = AObj
     [(''message'', AStr (Message i)),
      (''type'', AStr (Type i)),
      (''param'', (case Param i of None \<Rightarrow> ANull | Some p \<Rightarrow> AStr p)),
      (''code'', AInt (Code i))]"

definition response_any :: "Response \<Rightarrow> any" where
  "response_any r = AObj [(''error'', info_any (Error r))]"

text \<open>The common shape of the writers below: header, status, encoded body.\<close>

definition write_json_body :: "int \<Rightarrow> any \<Rightarrow> ResponseWriter \<Rightarrow> ResponseWriter" where
  "write_json_body status v w =
     Write (Encode v) (WriteHeader status (set_header ''Content-Type'' ''application/json'' w))"

definition WriteTooManyRequests :: "ResponseWriter \<Rightarrow> ResponseWriter" where
  "WriteTooManyRequests w = write_json_body 429 (response_any
     \<lparr>Error = \<lparr>Message = ''Too many requests'', Type = ''TooManyRequestsError'', Param = None, Code = 429\<rparr>\<rparr>) w"

definition WriteUnauthorized :: "ResponseWriter \<Rightarrow> ResponseWriter" where
  "WriteUnauthorized w = write_json_body 401 (response_any
     \<lparr>Error = \<lparr>Message = ''Invalid or missing Authorization header'', Type = ''AuthenticationError'',
       Param = None, Code = 401\<rparr>\<rparr>) w"

definition WriteInvalidJSON :: "ResponseWriter \<Rightarrow> ResponseWriter" where
  "WriteInvalidJSON w = write_json_body 400 (response_any
     \<lparr>Error = \<lparr>Message = ''Invalid JSON request body'', Type = ''invalid_request_error'', Param = None, Code = 400\<rparr>\<rparr>) w"

definition WriteNotFound :: "ResponseWriter \<Rightarrow> ResponseWriter" where
  "WriteNotFound w = write_json_body 404 (response_any
     \<lparr>Error = \<lparr>Message = ''The requested resource was not found'', Type = ''invalid_request_error'',
       Param = None, Code = 404\<rparr>\<rparr>) w"

definition WriteUnavailable :: "ResponseWriter \<Rightarrow> ResponseWriter" where
  "WriteUnavailable w = write_json_body 503 (response_any
     \<lparr>Error = \<lparr>Message = ''Upstream is unavailable'', Type = ''server_error'', Param = None, Code = 503\<rparr>\<rparr>) w"

lemmas openai_writers = WriteTooManyRequests_def WriteUnauthorized_def WriteInvalidJSON_def
  WriteNotFound_def WriteUnavailable_def

lemma num_ok_show_int [simp]: "num_ok (show_int i)"
  using json_number_show_int [of "[]" i] by (simp add: num_ok_def)

text \<open>What a fresh writer has sent after one of the functions.\<close>

lemma write_json_body_result:
  assumes "w_status w = None" "w_body w = []" "200 \<le> status" "any_ok max_nesting_depth v"
  shows "final_status (write_json_body status v w) = status \<and>
    w_body (write_json_body status v w) = Encode v \<and>
    json_parse (w_body (write_json_body status v w)) = Some (tree v)"
  using assms json_parse_Marshal(2) [OF assms(4)]
  by (simp add: write_json_body_def final_status_WriteHeader)

lemma write_json_body_type:
  assumes "w_status w = None" "200 \<le> status"
  shows "\<exists>h. w_status (write_json_body status v w) = Some (status, h) \<and> Values h ''Content-Type'' = [''application/json'']"
  using assms by (simp add: write_json_body_def Write_def WriteHeader_def set_header_def Let_def)

text \<open>The object a client finds in such a body.\<close>

definition error_object :: "bytes \<Rightarrow> bytes \<Rightarrow> int \<Rightarrow> json" where
  "error_object msg ty status =
     JObj [(''error'', Marshal (info_any \<lparr>Message = msg, Type = ty, Param = None, Code = status\<rparr>),
       JObj [(''message'', json_quote msg, JStr msg), (''type'', json_quote ty, JStr ty),
             (''param'', ''null'', JNull), (''code'', show_int status, JNum (show_int status))])]"

lemma ascii_names: "is_ascii ''error''" "is_ascii ''message''" "is_ascii ''type''" "is_ascii ''param''" "is_ascii ''code''"
  by code_simp+

lemma error_body_parsed:
  assumes "is_ascii msg" "is_ascii ty" "200 \<le> status"
  shows "json_parse (w_body (write_json_body status
      (response_any \<lparr>Error = \<lparr>Message = msg, Type = ty, Param = None, Code = status\<rparr>\<rparr>) new_writer)) =
    Some (error_object msg ty status)"
proof -
  let ?v = "response_any \<lparr>Error = \<lparr>Message = msg, Type = ty, Param = None, Code = status\<rparr>\<rparr>"
  have ok: "any_ok max_nesting_depth ?v"
    by (simp add: response_any_def info_any_def AInt_def max_nesting_depth_def)
  have "tree ?v = error_object msg ty status"
    using assms ascii_names by (simp add: response_any_def info_any_def error_object_def AInt_def utf8_text_ascii)
  with write_json_body_result [OF _ _ assms(3) ok, of new_writer] show ?thesis
    using w_status_simps by metis
qed

definition error_response :: "int \<Rightarrow> (ResponseWriter \<Rightarrow> ResponseWriter) \<Rightarrow> bool" where
  "error_response status f \<longleftrightarrow>
     (\<exists>h. w_status (f new_writer) = Some (status, h) \<and> Values h ''Content-Type'' = [''application/json'']) \<and>
     (\<exists>msg ty. json_parse (w_body (f new_writer)) = Some (error_object msg ty status))"

lemma error_response_intro:
  assumes "is_ascii msg" "is_ascii ty" "200 \<le> status"
    and "f = write_json_body status (response_any \<lparr>Error = \<lparr>Message = msg, Type = ty, Param = None, Code = status\<rparr>\<rparr>)"
  shows "error_response status f"
  unfolding error_response_def assms(4)
  using write_json_body_type [of new_writer status] error_body_parsed [OF assms(1-3)] assms(3) by auto

text \<open>C15: each of the five error writers sends its status with the content type \<open>application/json\<close>, and
  a body that parses as a JSON object whose only member \<open>error\<close> has a message, a type, a null
  \<open>param\<close> and the same status as its \<open>code\<close>.\<close>

theorem error_responses_well_formed:
  "error_response 429 WriteTooManyRequests \<and> error_response 401 WriteUnauthorized \<and>
   error_response 400 WriteInvalidJSON \<and> error_response 404 WriteNotFound \<and>
   error_response 503 WriteUnavailable"
proof (intro conjI)
  have texts: "is_ascii ''Too many requests''" "is_ascii ''TooManyRequestsError''"
    "is_ascii ''Invalid or missing Authorization header''" "is_ascii ''AuthenticationError''"
    "is_ascii ''Invalid JSON request body''" "is_ascii ''invalid_request_error''"
    "is_ascii ''The requested resource was not found''" "is_ascii ''Upstream is unavailable''" "is_ascii ''server_error''"
    by code_simp+
  show "error_response 429 WriteTooManyRequests"
    by (rule error_response_intro [OF texts(1,2)]) (simp_all add: openai_writers fun_eq_iff)
  show "error_response 401 WriteUnauthorized"
    by (rule error_response_intro [OF texts(3,4)]) (simp_all add: openai_writers fun_eq_iff)
  show "error_response 400 WriteInvalidJSON"
    by (rule error_response_intro [OF texts(5,6)]) (simp_all add: openai_writers fun_eq_iff)
  show "error_response 404 WriteNotFound"
    by (rule error_response_intro [OF texts(7,6)]) (simp_all add: openai_writers fun_eq_iff)
  show "error_response 503 WriteUnavailable"
    by (rule error_response_intro [OF texts(8,9)]) (simp_all add: openai_writers fun_eq_iff)
qed

end
