(* ===== verification/Headers.thy ===== *)
theory Headers
  imports Go_Http
begin

text \<open>
  \<open>internal/infra/http/headers.go\<close>: removal of the hop-by-hop headers of a request, those that are
  fixed and those the \<open>Connection\<close> header names.
\<close>

definition hopByHopHeaders :: "bytes list" where
  "hopByHopHeaders =
     [''Connection'', ''Proxy-Connection'', ''Keep-Alive'', ''Proxy-Authenticate'', ''Proxy-Authorization'',
      ''Te'', ''Trailer'', ''Transfer-Encoding'', ''Upgrade'']"

text \<open>The range over \<open>header.Values\<close> keeps the slice it starts with, so deleting \<open>Connection\<close> inside
  the loop does not end it.\<close>

definition connection_tokens :: "header \<Rightarrow> bytes list" where
  "connection_tokens header =
     filter (\<lambda>token. token \<noteq> [])
       (map trim_space (concat (map (split_on (CHR '','')) (Values header ''Connection''))))"

definition RemoveHopByHopHeaders :: "header \<Rightarrow> header" where
  "RemoveHopByHopHeaders header =
     (let header1 = fold (\<lambda>token h. Del h token) (connection_tokens header) header
      in fold (\<lambda>key h. Del h key) hopByHopHeaders header1)"

section \<open>Which headers are removed\<close>

text \<open>Header names compare without case. The names that are always removed, written out.\<close>

definition same_name :: "bytes \<Rightarrow> bytes \<Rightarrow> bool" where
  "same_name a b \<longleftrightarrow> map lower_byte a = map lower_byte b"

definition hop_name :: "bytes \<Rightarrow> bool" where
  "hop_name name \<longleftrightarrow> map lower_byte name \<in>
     {''connection'', ''proxy-connection'', ''keep-alive'', ''proxy-authenticate'', ''proxy-authorization'',
      ''te'', ''trailer'', ''transfer-encoding'', ''upgrade''}"

text \<open>A value lists a name: between the start or a comma and a comma or the end stands the name, with any
  space around it.\<close>

definition listed_in :: "bytes \<Rightarrow> bytes \<Rightarrow> bool" where
  "listed_in value name \<longleftrightarrow>
     (\<exists>left item right. value = left @ item @ right \<and> (left = [] \<or> last left = CHR '','') \<and> CHR '','' \<notin> set item \<and>
        (right = [] \<or> hd right = CHR '','') \<and> same_name (trim_space item) name)"

definition named_by_connection :: "header \<Rightarrow> bytes \<Rightarrow> bool" where
  "named_by_connection h name \<longleftrightarrow> name \<noteq> [] \<and> (\<exists>value \<in> set (Values h ''Connection''). listed_in value name)"

text \<open>The pieces of a value are the parts between commas.\<close>

lemma split_on_cut: "\<exists>w ws. split_on x s = w # ws \<and> (if ws = [] then s = w else \<exists>r. s = w @ x # r \<and> split_on x r = ws)"
proof (induction s)
  case (Cons c s)
  then obtain w ws where "split_on x s = w # ws" "if ws = [] then s = w else \<exists>r. s = w @ x # r \<and> split_on x r = ws" by blast
  then show ?case by (cases "c = x") auto
qed simp

lemma split_on_sep: "x \<notin> set w \<Longrightarrow> split_on x (w @ x # r) = w # split_on x r"
  by (induction w) auto

lemma split_on_concat: "split_on x (l @ x # r) = split_on x l @ split_on x r"
proof (induction l)
  case (Cons c l)
  obtain w ws where "split_on x l = w # ws" by (cases "split_on x l") auto
  with Cons show ?case by simp
qed simp

lemma split_on_parts:
  "w \<in> set (split_on x s) \<longleftrightarrow>
     (\<exists>l r. s = l @ w @ r \<and> (l = [] \<or> last l = x) \<and> x \<notin> set w \<and> (r = [] \<or> hd r = x))" (is "?L s \<longleftrightarrow> ?R s")
proof
  show "?L s \<Longrightarrow> ?R s"
  proof (induction s rule: length_induct)
    case (1 s)
    obtain v vs where v: "split_on x s = v # vs" "if vs = [] then s = v else \<exists>r. s = v @ x # r \<and> split_on x r = vs"
      using split_on_cut by blast
    show ?case
    proof (cases "w = v")
      case True
      moreover have "x \<notin> set v" using v(1) split_on_no_sep [of v x s] by simp
      moreover have "\<exists>r. s = v @ r \<and> (r = [] \<or> hd r = x)" using v(2) by (cases "vs = []") auto
      ultimately show ?thesis by fastforce
    next
      case False
      then have "vs \<noteq> []" "w \<in> set vs" using "1.prems" v(1) by auto
      then obtain r where r: "s = v @ x # r" "w \<in> set (split_on x r)" using v(2) by auto
      with "1.IH" [rule_format, of r] obtain l t where
        "r = l @ w @ t" "l = [] \<or> last l = x" "x \<notin> set w" "t = [] \<or> hd t = x" by auto
      with r(1) show ?thesis by (intro exI [of _ "v @ x # l"] exI [of _ t]) auto
    qed
  qed
next
  assume "?R s"
  then obtain l r where s: "s = l @ w @ r" "l = [] \<or> last l = x" "x \<notin> set w" "r = [] \<or> hd r = x" by blast
  have "w \<in> set (split_on x (w @ r))" using s(3,4) by (cases r) (auto simp: split_on_absent split_on_sep)
  then show "?L s"
  proof (cases l rule: rev_cases)
    case (snoc m c)
    with s(2) have "s = m @ x # w @ r" using s(1) by simp
    with \<open>w \<in> set (split_on x (w @ r))\<close> show ?thesis by (simp add: split_on_concat)
  qed (simp add: s(1))
qed

lemma connection_tokens_named:
  assumes "name \<noteq> []"
  shows "(\<exists>t \<in> set (connection_tokens h). same_name t name) \<longleftrightarrow> named_by_connection h name"
proof -
  have "t \<noteq> []" if "same_name t name" for t using that assms by (cases t) (auto simp: same_name_def)
  then have "(\<exists>t \<in> set (connection_tokens h). same_name t name) \<longleftrightarrow>
      (\<exists>v \<in> set (Values h ''Connection''). \<exists>t \<in> set (split_on (CHR '','') v). same_name (trim_space t) name)"
    unfolding connection_tokens_def set_filter set_map set_concat by blast
  also have "\<dots> \<longleftrightarrow> (\<exists>v \<in> set (Values h ''Connection''). listed_in v name)"
    by (intro bex_cong refl) (simp only: listed_in_def Bex_def split_on_parts, blast)
  finally show ?thesis using assms by (simp only: named_by_connection_def simp_thms)
qed

lemma connection_tokens_nonempty: "t \<in> set (connection_tokens h) \<Longrightarrow> t \<noteq> []"
  by (simp add: connection_tokens_def)

lemma hop_name_list: "hop_name name \<longleftrightarrow> (\<exists>t \<in> set hopByHopHeaders. same_name t name)"
proof -
  have "map (map lower_byte) hopByHopHeaders =
    [''connection'', ''proxy-connection'', ''keep-alive'', ''proxy-authenticate'', ''proxy-authorization'',
     ''te'', ''trailer'', ''transfer-encoding'', ''upgrade'']" (is "_ = ?names") by code_simp
  then have "map lower_byte ` set hopByHopHeaders = set ?names" by (simp only: flip: set_map)
  then have "map lower_byte name \<in> set ?names \<longleftrightarrow> (\<exists>t \<in> set hopByHopHeaders. map lower_byte name = map lower_byte t)" by blast
  then show ?thesis unfolding hop_name_def same_name_def by (simp only: list.set eq_commute)
qed

lemma Values_RemoveHopByHop:
  "Values (RemoveHopByHopHeaders h) j =
     (if CanonicalMIMEHeaderKey j \<in> CanonicalMIMEHeaderKey ` (set (connection_tokens h) \<union> set hopByHopHeaders)
      then [] else Values h j)"
  unfolding RemoveHopByHopHeaders_def Let_def header.vals_del_all image_Un by auto

lemma hop_values [simp]:
  "k \<in> set hopByHopHeaders \<Longrightarrow> Values (RemoveHopByHopHeaders h) k = []"
  by (simp add: Values_RemoveHopByHop)

text \<open>The keys of a list of names, for a valid name.\<close>

lemma canonical_in_names:
  assumes "list_all valid_field_byte name"
  shows "CanonicalMIMEHeaderKey name \<in> CanonicalMIMEHeaderKey ` A \<longleftrightarrow> (\<exists>t \<in> A. same_name t name)"
  unfolding image_iff canonical_key_eq [OF assms] same_name_def by (simp only: eq_commute)

lemma empty_not_removed: "\<not> (\<exists>t \<in> set (connection_tokens h). same_name t [])"
  using connection_tokens_nonempty by (fastforce simp: same_name_def)

lemma removed_names:
  assumes "list_all valid_field_byte name"
  shows "CanonicalMIMEHeaderKey name \<in> CanonicalMIMEHeaderKey ` (set (connection_tokens h) \<union> set hopByHopHeaders) \<longleftrightarrow>
    hop_name name \<or> named_by_connection h name"
proof (cases "name = []")
  case True
  then show ?thesis
    unfolding canonical_in_names [OF assms] hop_name_list using empty_not_removed [of h] by (auto simp: named_by_connection_def)
next
  case False
  then show ?thesis
    unfolding canonical_in_names [OF assms] hop_name_list connection_tokens_named [OF False, symmetric] by blast
qed

text \<open>C13: for every valid header name, in any spelling, the values are gone when the name is one of the
  nine fixed hop-by-hop names or stands between commas in any value of the request's \<open>Connection\<close>
  header, compared without case and surrounding space, and they are unchanged otherwise.\<close>

theorem hop_by_hop_removed:
  assumes "list_all valid_field_byte name"
  shows "Values (RemoveHopByHopHeaders h) name =
    (if hop_name name \<or> named_by_connection h name then [] else Values h name)"
  unfolding Values_RemoveHopByHop removed_names [OF assms] ..

theorem hop_by_hop_removed_witness:
  "list_all valid_field_byte ''x-secret'' \<and> named_by_connection (Set (Set Map.empty ''X-Secret'' ''1'') ''connection'' ''close, X-SECRET '') ''x-secret'' \<and>
   Values (RemoveHopByHopHeaders (Set (Set Map.empty ''X-Secret'' ''1'') ''connection'' ''close, X-SECRET '')) ''x-secret'' = []"
proof -
  let ?h = "Set (Set Map.empty ''X-Secret'' ''1'') ''connection'' ''close, X-SECRET ''"
  have valid: "list_all valid_field_byte ''x-secret''" by code_simp
  have "Values ?h ''Connection'' = [''close, X-SECRET '']" "same_name (trim_space '' X-SECRET '') ''x-secret''" by code_simp+
  moreover from this(2) have "listed_in ''close, X-SECRET '' ''x-secret''" unfolding listed_in_def
    by (intro exI [of _ "''close,''"] exI [of _ "'' X-SECRET ''"] exI [of _ "[]"] conjI) simp_all
  ultimately have "named_by_connection ?h ''x-secret''" unfolding named_by_connection_def by simp
  with hop_by_hop_removed [OF valid, of ?h] valid show ?thesis by simp
qed

end
