(* ===== verification/Go_Url.thy ===== *)
theory Go_Url
  imports Go_Http Json_Encode
begin

text \<open>
  Go's \<open>net/url\<close> and \<open>path.Clean\<close> as far as the sources use them: parsing and printing of URLs,
  percent encoding in each part of a URL, and query strings.
\<close>

section \<open>Percent encoding\<close>

datatype encoding =
    encodePath | encodeHost | encodeZone | encodeUserPassword | encodeQueryComponent | encodeFragment

definition is_alnum :: "byte \<Rightarrow> bool" where
  "is_alnum c \<longleftrightarrow> is_alpha c \<or> is_digit c"

definition host_safe :: "bytes" where
  "host_safe = CHR 0x27 # DQUOTE # ''!$&()*+,;=:[]<>''"

definition shouldEscape :: "byte \<Rightarrow> encoding \<Rightarrow> bool" where
  "shouldEscape c mode =
     (if is_alnum c then False
      else if (mode = encodeHost \<or> mode = encodeZone) \<and> c \<in> set host_safe then False
      else if c \<in> set ''-_.~'' then False
      else if c \<in> set ''$&+,/:;=?@'' then
        (case mode of
           encodePath \<Rightarrow> c = CHR ''?''
         | encodeUserPassword \<Rightarrow> c \<in> set ''@/?:''
         | encodeQueryComponent \<Rightarrow> True
         | encodeFragment \<Rightarrow> False
         | _ \<Rightarrow> True)
      else \<not> (mode = encodeFragment \<and> c \<in> set ''!()*''))"

definition hex_upper :: "nat \<Rightarrow> byte" where
  "hex_upper n = ''0123456789ABCDEF'' ! n"

definition escape_byte :: "encoding \<Rightarrow> byte \<Rightarrow> bytes" where
  "escape_byte mode c =
     (if shouldEscape c mode then
        (if c = CHR '' '' \<and> mode = encodeQueryComponent then ''+''
         else [CHR ''%'', hex_upper (code c div 16), hex_upper (code c mod 16)])
      else [c])"

definition escape :: "bytes \<Rightarrow> encoding \<Rightarrow> bytes" where
  "escape s mode = concat (map (escape_byte mode) s)"

text \<open>\<open>unescape\<close>; \<open>None\<close> is an \<open>EscapeError\<close> or \<open>InvalidHostError\<close>. In a host only bytes beyond ASCII
  and the percent sign may be encoded.\<close>

definition percent_ok :: "encoding \<Rightarrow> nat \<Rightarrow> nat \<Rightarrow> bool" where
  "percent_ok mode a b =
     (if a = 2 \<and> b = 5 then True
      else if mode = encodeHost then a \<ge> 8
      else if mode = encodeZone then 16 * a + b = 32 \<or> \<not> shouldEscape (char_of (16 * a + b)) encodeHost
      else True)"

fun unescape :: "bytes \<Rightarrow> encoding \<Rightarrow> bytes option" where
  "unescape [] mode = Some []"
| "unescape (c # s) mode =
     (if c = CHR ''%'' then
        (case s of
           x # y # r \<Rightarrow>
             (case (hex_val x, hex_val y) of
                (Some a, Some b) \<Rightarrow>
                  if percent_ok mode a b then map_option ((#) (char_of (16 * a + b))) (unescape r mode) else None
              | _ \<Rightarrow> None)
         | _ \<Rightarrow> None)
      else if c = CHR ''+'' \<and> mode = encodeQueryComponent then map_option ((#) (CHR '' '')) (unescape s mode)
      else if (mode = encodeHost \<or> mode = encodeZone) \<and> code c < 128 \<and> c \<noteq> CHR ''+'' \<and> shouldEscape c mode then None
      else map_option ((#) c) (unescape s mode))"

definition validEncoded :: "bytes \<Rightarrow> encoding \<Rightarrow> bool" where
  "validEncoded s mode =
     list_all (\<lambda>c. c \<in> set ''!$&()*+,;=:@[]%'' \<or> c = CHR 0x27 \<or> \<not> shouldEscape c mode) s"

section \<open>URLs\<close>

record URL =
  u_Scheme :: bytes
  u_Opaque :: bytes
  u_User :: "(bytes \<times> bytes option) option"
  u_Host :: bytes
  u_Path :: bytes
  u_RawPath :: bytes
  u_OmitHost :: bool
  u_ForceQuery :: bool
  u_RawQuery :: bytes
  u_Fragment :: bytes
  u_RawFragment :: bytes

definition empty_URL :: URL where
  "empty_URL = \<lparr>u_Scheme = [], u_Opaque = [], u_User = None, u_Host = [], u_Path = [], u_RawPath = [],
     u_OmitHost = False, u_ForceQuery = False, u_RawQuery = [], u_Fragment = [], u_RawFragment = []\<rparr>"

definition EscapedPath :: "URL \<Rightarrow> bytes" where
  "EscapedPath u =
     (if u_RawPath u \<noteq> [] \<and> validEncoded (u_RawPath u) encodePath \<and> unescape (u_RawPath u) encodePath = Some (u_Path u)
      then u_RawPath u
      else if u_Path u = ''*'' then ''*''
      else escape (u_Path u) encodePath)"

definition EscapedFragment :: "URL \<Rightarrow> bytes" where
  "EscapedFragment u =
     (if u_RawFragment u \<noteq> [] \<and> validEncoded (u_RawFragment u) encodeFragment
         \<and> unescape (u_RawFragment u) encodeFragment = Some (u_Fragment u)
      then u_RawFragment u else escape (u_Fragment u) encodeFragment)"

definition setPath :: "bytes \<Rightarrow> URL \<Rightarrow> URL option" where
  "setPath p u =
     map_option (\<lambda>path. u\<lparr>u_Path := path, u_RawPath := (if p = escape path encodePath then [] else p)\<rparr>)
       (unescape p encodePath)"

definition setFragment :: "bytes \<Rightarrow> URL \<Rightarrow> URL option" where
  "setFragment f u =
     map_option (\<lambda>frag. u\<lparr>u_Fragment := frag, u_RawFragment := (if f = escape frag encodeFragment then [] else f)\<rparr>)
       (unescape f encodeFragment)"

text \<open>\<open>getScheme\<close>: \<open>None\<close> is the missing scheme before a colon.\<close>

fun scheme_from :: "bytes \<Rightarrow> bytes \<Rightarrow> bytes \<Rightarrow> (bytes \<times> bytes) option" where
  "scheme_from raw acc [] = Some ([], raw)"
| "scheme_from raw acc (c # s) =
     (if is_alpha c then scheme_from raw (acc @ [c]) s
      else if is_digit c \<or> c \<in> set ''+-.'' then
        (if acc = [] then Some ([], raw) else scheme_from raw (acc @ [c]) s)
      else if c = CHR '':'' then (if acc = [] then None else Some (acc, s))
      else Some ([], raw))"

definition getScheme :: "bytes \<Rightarrow> (bytes \<times> bytes) option" where
  "getScheme raw = scheme_from raw [] raw"

definition validOptionalPort :: "bytes \<Rightarrow> bool" where
  "validOptionalPort port = (case port of [] \<Rightarrow> True | c # s \<Rightarrow> c = CHR '':'' \<and> list_all is_digit s)"

text \<open>The text before and from the last occurrence of a byte.\<close>

definition split_last :: "byte \<Rightarrow> bytes \<Rightarrow> (bytes \<times> bytes) option" where
  "split_last x s =
     (if x \<in> set s
      then Some (rev (tl (dropWhile (\<lambda>c. c \<noteq> x) (rev s))), x # rev (takeWhile (\<lambda>c. c \<noteq> x) (rev s)))
      else None)"

fun index_of :: "bytes \<Rightarrow> bytes \<Rightarrow> nat option" where
  "index_of p [] = (if p = [] then Some 0 else None)"
| "index_of p (c # s) = (if has_prefix p (c # s) then Some 0 else map_option Suc (index_of p s))"

definition parseHost :: "bytes \<Rightarrow> bytes option" where
  "parseHost host =
     (if has_prefix ''['' host then
        (case split_last (CHR '']'') host of
           None \<Rightarrow> None
         | Some (inside, rest) \<Rightarrow>
             if \<not> validOptionalPort (tl rest) then None
             else (case index_of ''%25'' inside of
                None \<Rightarrow> unescape host encodeHost
              | Some zone \<Rightarrow>
                  Option.bind (unescape (take zone inside) encodeHost) (\<lambda>h1.
                  Option.bind (unescape (drop zone inside) encodeZone) (\<lambda>h2.
                  Option.bind (unescape rest encodeHost) (\<lambda>h3. Some (h1 @ h2 @ h3))))))
      else (case split_last (CHR '':'') host of
              None \<Rightarrow> unescape host encodeHost
            | Some (_, colonPort) \<Rightarrow> if validOptionalPort colonPort then unescape host encodeHost else None))"

definition validUserinfo :: "bytes \<Rightarrow> bool" where
  "validUserinfo s = list_all (\<lambda>c. is_alnum c \<or> c \<in> set ''-._:~!$&()*+,;=%@'' \<or> c = CHR 0x27) s"

definition parseAuthority :: "bytes \<Rightarrow> ((bytes \<times> bytes option) option \<times> bytes) option" where
  "parseAuthority authority =
     (case split_last (CHR ''@'') authority of
        None \<Rightarrow> map_option (Pair None) (parseHost authority)
      | Some (userinfo, rest) \<Rightarrow>
          Option.bind (parseHost (tl rest)) (\<lambda>host.
            if \<not> validUserinfo userinfo then None
            else (case cut (CHR '':'') userinfo of
               (username, password, True) \<Rightarrow>
                 Option.bind (unescape username encodeUserPassword) (\<lambda>n.
                 Option.bind (unescape password encodeUserPassword) (\<lambda>p. Some (Some (n, Some p), host)))
             | (username, _, False) \<Rightarrow>
                 Option.bind (unescape username encodeUserPassword) (\<lambda>n. Some (Some (n, None), host)))))"

definition has_ctl :: "bytes \<Rightarrow> bool" where
  "has_ctl s \<longleftrightarrow> (\<exists>c \<in> set s. code c < 32 \<or> code c = 127)"

text \<open>\<open>parse\<close> without \<open>viaRequest\<close>, in the steps of the source: query, authority, path.\<close>

definition cut_query :: "bytes \<Rightarrow> bytes \<times> bytes \<times> bool" where
  "cut_query rest =
     (if has_suffix ''?'' rest \<and> count_by (\<lambda>c. c = CHR ''?'') rest = 1 then (butlast rest, [], True)
      else (case cut (CHR ''?'') rest of (path, query, _) \<Rightarrow> (path, query, False)))"

definition parse_rest :: "bytes \<Rightarrow> URL \<Rightarrow> URL option" where
  "parse_rest rest u =
     (if has_prefix ''//'' rest \<and> (u_Scheme u \<noteq> [] \<or> \<not> has_prefix ''///'' rest) then
        (let authority = takeWhile (\<lambda>c. c \<noteq> CHR ''/'') (drop 2 rest);
             path = dropWhile (\<lambda>c. c \<noteq> CHR ''/'') (drop 2 rest)
         in Option.bind (parseAuthority authority) (\<lambda>(user, host).
              setPath path (u\<lparr>u_User := user, u_Host := host\<rparr>)))
      else setPath rest (u\<lparr>u_OmitHost := (u_Scheme u \<noteq> [] \<and> has_prefix ''/'' rest)\<rparr>))"

definition url_parse :: "bytes \<Rightarrow> URL option" where
  "url_parse raw =
     (if has_ctl raw then None
      else if raw = ''*'' then Some (empty_URL\<lparr>u_Path := ''*''\<rparr>)
      else Option.bind (getScheme raw) (\<lambda>(scheme, rest).
        (case cut_query rest of (path, query, force) \<Rightarrow>
          (let u = empty_URL\<lparr>u_Scheme := map lower_byte scheme, u_RawQuery := query, u_ForceQuery := force\<rparr> in
           if \<not> has_prefix ''/'' path \<and> scheme \<noteq> [] then Some (u\<lparr>u_Opaque := path\<rparr>)
           else if \<not> has_prefix ''/'' path \<and> CHR '':'' \<in> set (before (CHR ''/'') path) then None
           else parse_rest path u))))"

definition Parse :: "bytes \<Rightarrow> URL option" where
  "Parse raw =
     (case cut (CHR ''#'') raw of (u, frag, _) \<Rightarrow>
        Option.bind (url_parse u) (\<lambda>url. if frag = [] then Some url else setFragment frag url))"

definition userinfo_string :: "bytes \<times> bytes option \<Rightarrow> bytes" where
  "userinfo_string ui =
     escape (fst ui) encodeUserPassword @
     (case snd ui of None \<Rightarrow> [] | Some p \<Rightarrow> CHR '':'' # escape p encodeUserPassword)"

definition url_String :: "URL \<Rightarrow> bytes" where
  "url_String u =
     (let scheme = (if u_Scheme u \<noteq> [] then u_Scheme u @ '':'' else []);
          body =
            (if u_Opaque u \<noteq> [] then u_Opaque u
             else
               (let authority =
                      (if (u_Scheme u \<noteq> [] \<or> u_Host u \<noteq> [] \<or> u_User u \<noteq> None) \<and>
                          \<not> (u_OmitHost u \<and> u_Host u = [] \<and> u_User u = None)
                       then (if u_Host u \<noteq> [] \<or> u_Path u \<noteq> [] \<or> u_User u \<noteq> None then ''//'' else []) @
                            (case u_User u of None \<Rightarrow> [] | Some ui \<Rightarrow> userinfo_string ui @ ''@'') @
                            escape (u_Host u) encodeHost
                       else []);
                    path = EscapedPath u
                in authority @
                   (if path \<noteq> [] \<and> \<not> has_prefix ''/'' path \<and> u_Host u \<noteq> [] then ''/'' else []) @
                   (if scheme = [] \<and> authority = [] \<and> CHR '':'' \<in> set (before (CHR ''/'') path) then ''./'' else []) @
                   path))
      in scheme @ body @
         (if u_ForceQuery u \<or> u_RawQuery u \<noteq> [] then CHR ''?'' # u_RawQuery u else []) @
         (if u_Fragment u \<noteq> [] then CHR ''#'' # EscapedFragment u else []))"

section \<open>Query strings\<close>

text \<open>\<open>ParseQuery\<close> without its error: the parameters that can be parsed, in order.\<close>

definition query_param :: "bytes \<Rightarrow> (bytes \<times> bytes) option" where
  "query_param part =
     (if CHR '';'' \<in> set part \<or> part = [] then None
      else (case cut (CHR ''='') part of (key, val, _) \<Rightarrow>
        Option.bind (unescape key encodeQueryComponent) (\<lambda>k.
        Option.bind (unescape val encodeQueryComponent) (\<lambda>v. Some (k, v)))))"

definition ParseQuery :: "bytes \<Rightarrow> (bytes \<times> bytes) list" where
  "ParseQuery query = List.map_filter query_param (split_on (CHR ''&'') query)"

definition query_get :: "(bytes \<times> bytes) list \<Rightarrow> bytes \<Rightarrow> bytes" where
  "query_get q key = (case map_of q key of None \<Rightarrow> [] | Some v \<Rightarrow> v)"

definition query_set :: "bytes \<Rightarrow> bytes \<Rightarrow> (bytes \<times> bytes) list \<Rightarrow> (bytes \<times> bytes) list" where
  "query_set key v q = filter (\<lambda>(k, _). k \<noteq> key) q @ [(key, v)]"

text \<open>\<open>Values.Encode\<close>: sorted by key, the values of a key in order.\<close>

fun insert_param :: "bytes \<times> bytes \<Rightarrow> (bytes \<times> bytes) list \<Rightarrow> (bytes \<times> bytes) list" where
  "insert_param p [] = [p]"
| "insert_param p (q # qs) = (if bytes_less (fst p) (fst q) then p # q # qs else q # insert_param p qs)"

definition query_encode :: "(bytes \<times> bytes) list \<Rightarrow> bytes" where
  "query_encode q =
     join_with (CHR ''&'')
       (map (\<lambda>(k, v). escape k encodeQueryComponent @ CHR ''='' # escape v encodeQueryComponent)
         (fold insert_param q []))"

section \<open>Clean paths\<close>

text \<open>\<open>path.Clean\<close> on the elements of a path: empty elements and dots vanish, a double dot removes the
  element before it, except another double dot at the start of a relative path.\<close>

definition clean_step :: "bool \<Rightarrow> bytes \<Rightarrow> bytes list \<Rightarrow> bytes list" where
  "clean_step rooted e out =
     (if e = [] \<or> e = ''.'' then out
      else if e = ''..'' then
        (case out of
           [] \<Rightarrow> if rooted then [] else [e]
         | t # ts \<Rightarrow> if t = ''..'' then e # out else ts)
      else e # out)"

definition path_Clean :: "bytes \<Rightarrow> bytes" where
  "path_Clean p =
     (if p = [] then ''.''
      else
        (let rooted = has_prefix ''/'' p;
             out = rev (fold (clean_step rooted) (split_on (CHR ''/'') p) []);
             joined = (if rooted then ''/'' else []) @ join_with (CHR ''/'') out
         in if joined = [] then ''.'' else joined))"

end
