(* ===== verification/Reverse_Proxy.thy ===== *)
theory Reverse_Proxy
  imports Headers Go_Url Openai_Response
begin

text \<open>
  Requests, and what \<open>httputil.ReverseProxy\<close> does with one: the outgoing request it builds before it
  calls \<open>Rewrite\<close>, and the response it copies back. The transport that carries the request is a
  parameter; its result is a response, cut off or not, or an error. Interim (1xx) responses and
  trailers are not modelled.
\<close>

section \<open>Requests\<close>

record Request =
  q_Method :: bytes
  q_URL :: "URL option"
  q_RequestURI :: bytes
  q_Host :: bytes
  q_Header :: header
  q_Body :: bytes

text \<open>The request's URL where the code has checked that there is one.\<close>

definition req_URL :: "Request \<Rightarrow> URL" where
  "req_URL r = (case q_URL r of None \<Rightarrow> empty_URL | Some u \<Rightarrow> u)"

datatype round_trip =
    RtError bool
  | RtResponse int header bytes bool

text \<open>\<open>RtError canceled\<close>: the round trip failed, and the request's context was canceled or not.
  \<open>RtResponse status header body whole\<close>: a response, its body cut off if not whole.\<close>

section \<open>Joining URLs\<close>

definition singleJoiningSlash :: "bytes \<Rightarrow> bytes \<Rightarrow> bytes" where
  "singleJoiningSlash a b =
     (let aslash = has_suffix ''/'' a; bslash = has_prefix ''/'' b in
      if aslash \<and> bslash then a @ tl b
      else if \<not> aslash \<and> \<not> bslash then a @ ''/'' @ b
      else a @ b)"

definition joinURLPath :: "URL \<Rightarrow> URL \<Rightarrow> bytes \<times> bytes" where
  "joinURLPath a b =
     (if u_RawPath a = [] \<and> u_RawPath b = [] then (singleJoiningSlash (u_Path a) (u_Path b), [])
      else
        (let apath = EscapedPath a; bpath = EscapedPath b;
             aslash = has_suffix ''/'' apath; bslash = has_prefix ''/'' bpath
         in if aslash \<and> bslash then (u_Path a @ tl (u_Path b), apath @ tl bpath)
            else if \<not> aslash \<and> \<not> bslash then (u_Path a @ ''/'' @ u_Path b, apath @ ''/'' @ bpath)
            else (u_Path a @ u_Path b, apath @ bpath)))"

text \<open>\<open>ProxyRequest.SetURL\<close>.\<close>

definition SetURL :: "URL \<Rightarrow> Request \<Rightarrow> Request" where
  "SetURL target out =
     (let u = req_URL out; (path, rawpath) = joinURLPath target u;
          query = (if u_RawQuery target = [] \<or> u_RawQuery u = [] then u_RawQuery target @ u_RawQuery u
                   else u_RawQuery target @ ''&'' @ u_RawQuery u)
      in out\<lparr>q_URL := Some (u\<lparr>u_Scheme := u_Scheme target, u_Host := u_Host target, u_Path := path,
               u_RawPath := rawpath, u_RawQuery := query\<rparr>),
             q_Host := []\<rparr>)"

text \<open>\<open>cleanQueryParams\<close>: a query that can be parsed throughout is kept byte for byte.\<close>

fun query_parses :: "bytes \<Rightarrow> bool" where
  "query_parses [] \<longleftrightarrow> True"
| "query_parses (c # s) \<longleftrightarrow>
     (if c = CHR '';'' then False
      else if c = CHR ''%'' then
        (case s of x # y # r \<Rightarrow> hex_val x \<noteq> None \<and> hex_val y \<noteq> None \<and> query_parses r | _ \<Rightarrow> False)
      else query_parses s)"

definition cleanQueryParams :: "bytes \<Rightarrow> bytes" where
  "cleanQueryParams s = (if query_parses s then s else query_encode (ParseQuery s))"

section \<open>The outgoing request\<close>

definition trim_ows :: "bytes \<Rightarrow> bytes" where
  "trim_ows s =
     (let ws = (\<lambda>c. c = CHR '' '' \<or> c = TAB \<or> c = LF \<or> c = CR)
      in rev (dropWhile ws (rev (dropWhile ws s))))"

definition header_tokens :: "bytes list \<Rightarrow> bytes list" where
  "header_tokens vs = filter (\<lambda>t. t \<noteq> []) (map trim_ows (concat (map (split_on (CHR '','')) vs)))"

text \<open>\<open>httpguts.HeaderValuesContainsToken\<close> compares tokens without ASCII case.\<close>

definition contains_token :: "bytes list \<Rightarrow> bytes \<Rightarrow> bool" where
  "contains_token vs token \<longleftrightarrow> (\<exists>t \<in> set (header_tokens vs). map lower_byte t = map lower_byte token)"

definition upgradeType :: "header \<Rightarrow> bytes" where
  "upgradeType h = (if contains_token (Values h ''Connection'') ''Upgrade'' then Get h ''Upgrade'' else [])"

definition is_print :: "bytes \<Rightarrow> bool" where
  "is_print s = list_all (\<lambda>c. 32 \<le> code c \<and> code c \<le> 126) s"

text \<open>The proxy's own removal of hop-by-hop headers, by a list of its own.\<close>

definition hopHeaders :: "bytes list" where
  "hopHeaders =
     [''Connection'', ''Proxy-Connection'', ''Keep-Alive'', ''Proxy-Authenticate'', ''Proxy-Authorization'',
      ''Te'', ''Trailer'', ''Transfer-Encoding'', ''Upgrade'']"

definition proxy_removeHopByHop :: "header \<Rightarrow> header" where
  "proxy_removeHopByHop h =
     fold (\<lambda>k h. Del h k) hopHeaders
       (fold (\<lambda>k h. Del h k) (header_tokens (Values h ''Connection'')) h)"

definition forwarding_headers :: "bytes list" where
  "forwarding_headers = [''Forwarded'', ''X-Forwarded-For'', ''X-Forwarded-Host'', ''X-Forwarded-Proto'']"

text \<open>The request handed to \<open>Rewrite\<close>; \<open>None\<close> when the client asks for a protocol that cannot be
  printed, which goes to the error handler.\<close>

definition proxy_outgoing :: "Request \<Rightarrow> Request option" where
  "proxy_outgoing r =
     (let up = upgradeType (q_Header r) in
      if \<not> is_print up then None
      else
        (let h = proxy_removeHopByHop (q_Header r);
             h = (if contains_token (Values (q_Header r) ''Te'') ''trailers'' then Set h ''Te'' ''trailers'' else h);
             h = (if up \<noteq> [] then Set (Set h ''Connection'' ''Upgrade'') ''Upgrade'' up else h);
             h = fold (\<lambda>k h. Del h k) forwarding_headers h;
             u = req_URL r
         in Some (r\<lparr>q_Header := h, q_URL := Some (u\<lparr>u_RawQuery := cleanQueryParams (u_RawQuery u)\<rparr>)\<rparr>)))"

text \<open>After \<open>Rewrite\<close>, an absent \<open>User-Agent\<close> is kept absent.\<close>

definition default_user_agent :: "Request \<Rightarrow> Request" where
  "default_user_agent r =
     (if q_Header r ''User-Agent'' = None then r\<lparr>q_Header := Set (q_Header r) ''User-Agent'' []\<rparr> else r)"

section \<open>The response\<close>

definition copyHeader :: "header \<Rightarrow> header \<Rightarrow> header" where
  "copyHeader dst src =
     (\<lambda>k. case src k of
        None \<Rightarrow> dst k
      | Some vs \<Rightarrow> if vs = [] then dst k else Some ((case dst k of None \<Rightarrow> [] | Some ws \<Rightarrow> ws) @ vs))"

text \<open>A final response is copied; a switch of protocols that was not asked for is an error.\<close>

datatype proxied = ProxyDone ResponseWriter bool | ProxyFailed | ProxyHijacked

definition proxy_response :: "header \<Rightarrow> round_trip \<Rightarrow> ResponseWriter \<Rightarrow> proxied" where
  "proxy_response sent rt w =
     (case rt of
        RtError _ \<Rightarrow> ProxyFailed
      | RtResponse status header body whole \<Rightarrow>
          if status = 101 then
            (let up = upgradeType header in
             if \<not> is_print up \<or> map lower_byte up \<noteq> map lower_byte (upgradeType sent)
             then ProxyFailed else ProxyHijacked)
          else
            (let w = w\<lparr>w_header := copyHeader (w_header w) (proxy_removeHopByHop header)\<rparr>;
                 w = WriteHeader status w
             in ProxyDone (if body = [] then w else Write body w) whole))"

end
