(* ===== verification/Tail_Handler.thy ===== *)
theory Tail_Handler
  imports Reverse_Proxy Go_Errors
begin

text \<open>
  \<open>internal/app/tail/handler.go\<close>: construction of the handler, the canonical-path check, the
  allowlist and the authorization of requests, forwarding through the reverse proxy with its
  counters, the attestation route and the metrics. The transport and the attestation reporter are
  parameters, the fields of an environment record.
\<close>

section \<open>State\<close>

record Config =
  Token :: bytes
  Upstream :: bytes
  RequestTimeout :: int

record Handler =
  h_cfg :: Config
  h_authorization :: bytes
  h_report :: bool
  h_target :: URL
  h_started :: int
  h_inflight :: "64 word"
  h_forwarded :: "64 word"
  h_unavailable :: "64 word"

text \<open>What the handler reaches outside: the transport, the reporter, the current time.\<close>

record environment =
  e_transport :: "Request \<Rightarrow> round_trip"
  e_generate :: "ReportRequest \<Rightarrow> go_error + (bytes \<times> any) list"
  e_now :: int

section \<open>Construction\<close>

definition target_ok :: "URL \<Rightarrow> bool" where
  "target_ok target \<longleftrightarrow>
     (u_Scheme target = ''http'' \<or> u_Scheme target = ''https'') \<and> u_Host target \<noteq> [] \<and>
     u_User target = None \<and> (u_Path target = [] \<or> u_Path target = ''/'') \<and> u_RawPath target = [] \<and>
     u_RawQuery target = [] \<and> u_Fragment target = [] \<and> u_Opaque target = []"

definition New :: "Config \<Rightarrow> bool \<Rightarrow> int \<Rightarrow> bytes + Handler" where
  "New cfg reporter now =
     (case Parse (Upstream cfg) of
        None \<Rightarrow> Inl ''TAIL requires one fixed HTTP(S) backend origin''
      | Some target \<Rightarrow>
          if \<not> target_ok target then Inl ''TAIL requires one fixed HTTP(S) backend origin''
          else if Token cfg = [] \<or> trim_space (Token cfg) \<noteq> Token cfg \<or> CR \<in> set (Token cfg) \<or> LF \<in> set (Token cfg)
          then Inl ''TAIL requires the unified TOKEN''
          else if RequestTimeout cfg \<le> 0 then Inl ''TAIL request timeout must be positive''
          else Inr \<lparr>h_cfg = cfg, h_authorization = ''Bearer '' @ Token cfg, h_report = reporter,
                 h_target = target, h_started = now, h_inflight = 0, h_forwarded = 0, h_unavailable = 0\<rparr>)"

text \<open>The \<open>Rewrite\<close> function of the proxy.\<close>

definition Rewrite :: "Handler \<Rightarrow> Request \<Rightarrow> Request \<Rightarrow> Request" where
  "Rewrite h inreq out =
     (let out = SetURL (h_target h) out;
          out = (if u_Path (req_URL inreq) = ''/admin/v1/predictive-profile''
                 then out\<lparr>q_URL := Some ((req_URL out)\<lparr>u_RawQuery := u_RawQuery (req_URL inreq)\<rparr>)\<rparr> else out)
      in out\<lparr>q_Host := u_Host (h_target h),
             q_Header := Set (q_Header out) ''Authorization'' (''Bearer '' @ Token (h_cfg h))\<rparr>)"

text \<open>The \<open>ErrorHandler\<close> of the proxy.\<close>

definition ErrorHandler :: "bool \<Rightarrow> Handler \<Rightarrow> ResponseWriter \<Rightarrow> Handler \<times> ResponseWriter" where
  "ErrorHandler canceled h w =
     (if canceled then (h, w)
      else (h\<lparr>h_unavailable := h_unavailable h + 1\<rparr>, WriteUnavailable w))"

section \<open>Checks\<close>

definition canonical :: "Request option \<Rightarrow> bytes option" where
  "canonical rp =
     (case rp of
        None \<Rightarrow> None
      | Some r \<Rightarrow>
          (case q_URL r of
             None \<Rightarrow> None
           | Some u \<Rightarrow>
               if u_Scheme u \<noteq> [] \<or> u_Host u \<noteq> [] \<or> u_Opaque u \<noteq> [] \<or> u_Fragment u \<noteq> [] \<or> u_RawPath u \<noteq> [] then None
               else
                 (let p = u_Path u in
                  if p = [] \<or> \<not> has_prefix ''/'' p \<or> path_Clean p \<noteq> p \<or> EscapedPath u \<noteq> p then None
                  else if q_RequestURI r \<noteq> [] \<and> before (CHR ''?'') (q_RequestURI r) \<noteq> p then None
                  else Some p)))"

text \<open>\<open>ConstantTimeCompare\<close> returns 1 exactly for equal slices.\<close>

definition authorized :: "Request \<Rightarrow> bytes \<Rightarrow> bool" where
  "authorized r expected =
     (let vals = Values (q_Header r) ''Authorization'' in length vals = 1 \<and> vals ! 0 = expected)"

definition generation :: "bytes \<Rightarrow> bool" where
  "generation p \<longleftrightarrow> p = ''/v1/chat/completions'' \<or> p = ''/v1/completions'' \<or> p = ''/v1/responses''"

definition is_management :: "bytes \<Rightarrow> bool" where
  "is_management p \<longleftrightarrow> p = ''/pig/metrics'' \<or> p = ''/v1/metrics'' \<or> p = ''/v1/upstream-status'' \<or>
     p = ''/admin/v1/predictive-policy'' \<or> p = ''/admin/v1/predictive-profile'' \<or> p = ''/v1/attestation/report''"

definition is_public :: "bytes \<Rightarrow> bytes \<Rightarrow> bool" where
  "is_public p method \<longleftrightarrow>
     ((generation p \<or> p = ''/v1/systemone'' \<or> p = ''/v1/embeddings'') \<and> method = ''POST'') \<or>
     (p = ''/v1/models'' \<and> method = ''GET'')"

section \<open>Forwarding\<close>

text \<open>The atomic changes of the counters, one definition each, since those of other requests fall in
  between: two before the proxy runs and the deferred one after it.\<close>

definition forward_enter :: "Handler \<Rightarrow> Handler" where
  "forward_enter h = h\<lparr>h_inflight := h_inflight h + 1\<rparr>"

definition forward_count :: "Handler \<Rightarrow> Handler" where
  "forward_count h = h\<lparr>h_forwarded := h_forwarded h + 1\<rparr>"

definition forward_end :: "Handler \<Rightarrow> Handler" where
  "forward_end h = h\<lparr>h_inflight := h_inflight h - 1\<rparr>"

text \<open>The request handed to the proxy.\<close>

definition forward_clone :: "Request \<Rightarrow> Request" where
  "forward_clone r = r\<lparr>q_Header := RemoveHopByHopHeaders (q_Header r)\<rparr>"

definition forward_begin :: "Handler \<Rightarrow> Request \<Rightarrow> Handler \<times> Request" where
  "forward_begin h r = (forward_count (forward_enter h), forward_clone r)"

lemmas forward_begin_def' = forward_begin_def forward_enter_def forward_count_def forward_clone_def

text \<open>The request the transport receives, or \<open>None\<close> if the proxy refuses it.\<close>

definition upstream_request :: "Handler \<Rightarrow> Request \<Rightarrow> Request option" where
  "upstream_request h r = map_option (\<lambda>out. default_user_agent (Rewrite h r out)) (proxy_outgoing r)"

datatype reply = Reply ResponseWriter | Aborted ResponseWriter | Hijacked

definition finish_proxy :: "Handler \<Rightarrow> header \<Rightarrow> round_trip \<Rightarrow> ResponseWriter \<Rightarrow> Handler \<times> reply" where
  "finish_proxy h sent rt w =
     (case proxy_response sent rt w of
        ProxyDone w' whole \<Rightarrow> (h, if whole then Reply w' else Aborted w')
      | ProxyFailed \<Rightarrow>
          (case ErrorHandler (case rt of RtError canceled \<Rightarrow> canceled | _ \<Rightarrow> False) h w of (h', w') \<Rightarrow> (h', Reply w'))
      | ProxyHijacked \<Rightarrow> (h, Hijacked))"

definition forward :: "environment \<Rightarrow> Handler \<Rightarrow> Request \<Rightarrow> ResponseWriter \<Rightarrow> Handler \<times> reply \<times> Request option" where
  "forward env h r w =
     (let (h, r) = forward_begin h r in
      case upstream_request h r of
        None \<Rightarrow> (case ErrorHandler False h w of (h', w') \<Rightarrow> (forward_end h', Reply w', None))
      | Some out \<Rightarrow>
          (case finish_proxy h (q_Header out) (e_transport env out) w of
             (h', rep) \<Rightarrow> (forward_end h', rep, Some out)))"

section \<open>Local routes\<close>

definition writeJSON :: "int \<Rightarrow> any \<Rightarrow> ResponseWriter \<Rightarrow> ResponseWriter" where
  "writeJSON status obj w =
     Write (Encode obj) (WriteHeader status (set_header ''Content-Type'' ''application/json'' w))"

definition method_not_allowed :: "ResponseWriter \<Rightarrow> ResponseWriter" where
  "method_not_allowed w = http_Error ''method not allowed'' 405 w"

definition detail :: "bytes \<Rightarrow> any" where
  "detail msg = AObj [(''detail'', AStr msg)]"

text \<open>The query parameters; \<open>Inl\<close> is the version that is not a number.\<close>

definition report_request :: "URL \<Rightarrow> bytes + ReportRequest" where
  "report_request u =
     (let q = ParseQuery (u_RawQuery u); raw = query_get q ''version'';
          request = (\<lambda>version. \<lparr>rr_SigningAlgo = query_get q ''signing_algo'',
            rr_NonceHex = query_get q ''nonce'', rr_Version = version\<rparr>)
      in if raw = [] then Inr (request 1)
         else (case parse_int64 raw of None \<Rightarrow> Inl raw | Some value \<Rightarrow> Inr (request value)))"

definition attestation :: "environment \<Rightarrow> Handler \<Rightarrow> Request \<Rightarrow> ResponseWriter \<Rightarrow> ResponseWriter" where
  "attestation env h r w =
     (if q_Method r \<noteq> ''GET'' then method_not_allowed w
      else if \<not> h_report h then http_NotFound w
      else
        (case report_request (req_URL r) of
           Inl raw \<Rightarrow> writeJSON 400 (detail (''Unsupported attestation report version: '' @ raw)) w
         | Inr req \<Rightarrow>
             (case e_generate env req of
                Inl err \<Rightarrow>
                  (case as_HTTPError err of
                     Some (status, msg) \<Rightarrow> writeJSON status (detail msg) w
                   | None \<Rightarrow> writeJSON 500 (detail (error_text err)) w)
              | Inr report \<Rightarrow> writeJSON 200 (AObj report) w)))"

text \<open>\<open>Duration.Seconds\<close> and the verb \<open>%.6f\<close>.\<close>

definition duration_seconds :: "int \<Rightarrow> rat" where
  "duration_seconds d =
     (let whole = (if d < 0 then - (- d div 10 ^ 9) else d div 10 ^ 9); nsec = d - whole * 10 ^ 9;
          fin = (\<lambda>x. case x of Fin q \<Rightarrow> q | _ \<Rightarrow> 0)
      in fin (round64 (fin (round64 (of_int whole)) + fin (round64 (of_int nsec / 10 ^ 9)))))"

definition pad_zeros :: "nat \<Rightarrow> bytes \<Rightarrow> bytes" where
  "pad_zeros n s = replicate (n - length s) (CHR ''0'') @ s"

definition format_fixed6 :: "rat \<Rightarrow> bytes" where
  "format_fixed6 q =
     (let m = nat (round_half_even (\<bar>q\<bar> * 10 ^ 6))
      in (if q < 0 then ''-'' else []) @ show_nat (m div 10 ^ 6) @ ''.'' @ pad_zeros 6 (show_nat (m mod 10 ^ 6)))"

text \<open>The counters are loaded one after another, each from the handler's state at that moment.\<close>

definition metrics :: "environment \<Rightarrow> Handler \<Rightarrow> Handler \<Rightarrow> Handler \<Rightarrow> ResponseWriter \<Rightarrow> ResponseWriter" where
  "metrics env h1 h2 h3 w =
     (let w = set_header ''Content-Type'' ''text/plain; version=0.0.4'' w;
          w = Write (''tail_info{implementation='' @ DQUOTE # ''thin'' @ DQUOTE # ''} 1'' @ [LF]) w;
          w = Write (''tail_uptime_seconds '' @ format_fixed6 (duration_seconds (e_now env - h_started h1)) @ [LF]) w;
          w = Write (''tail_inflight '' @ show_int (sint (h_inflight h1)) @ [LF]) w;
          w = Write (''tail_forwarded_total '' @ show_int (uint (h_forwarded h2)) @ [LF]) w
      in Write (''tail_transport_unavailable_total '' @ show_int (uint (h_unavailable h3)) @ [LF]) w)"

section \<open>ServeHTTP\<close>

text \<open>\<open>ServeHTTP\<close> is a request served without others in between; \<open>Tail_Counters\<close> has the interleavings.
  What a request leads to: the decisions of \<open>ServeHTTP\<close> up to the call that does the work.\<close>

datatype route = Refuse "ResponseWriter \<Rightarrow> ResponseWriter" | Forward Request | Attest | Metrics

definition management_route :: "bytes \<Rightarrow> Request \<Rightarrow> route" where
  "management_route p r =
     (if p = ''/v1/attestation/report'' then Attest
      else if p = ''/admin/v1/predictive-policy'' then
        (if q_Method r \<noteq> ''GET'' \<and> q_Method r \<noteq> ''PATCH'' then Refuse method_not_allowed else Forward r)
      else if q_Method r \<noteq> ''GET'' then Refuse method_not_allowed
      else if p = ''/admin/v1/predictive-profile'' then Forward r
      else if p = ''/v1/upstream-status'' then Refuse (http_Error ''upstream status unavailable'' 503)
      else if p = ''/pig/metrics'' then Metrics
      else Forward (r\<lparr>q_URL := Some ((req_URL r)\<lparr>u_Path := ''/metrics'', u_RawPath := []\<rparr>)\<rparr>))"

definition unauthorized_reply :: "bytes \<Rightarrow> ResponseWriter \<Rightarrow> ResponseWriter" where
  "unauthorized_reply p w =
     (if p = ''/pig/metrics'' \<or> p = ''/v1/metrics'' \<or> p = ''/v1/upstream-status''
      then http_Error ''unauthorized'' 401 w else WriteUnauthorized w)"

definition serve_route :: "Handler \<Rightarrow> Request \<Rightarrow> route" where
  "serve_route h r =
     (case canonical (Some r) of
        None \<Rightarrow> Refuse WriteNotFound
      | Some p \<Rightarrow>
          if p = ''/healthz'' then
            (if q_Method r \<noteq> ''GET'' then Refuse method_not_allowed else Refuse (Write (''ok'' @ [LF])))
          else if \<not> is_management p \<and> \<not> is_public p (q_Method r) then Refuse WriteNotFound
          else if \<not> authorized r (h_authorization h) then Refuse (unauthorized_reply p)
          else if is_management p then management_route p r
          else Forward r)"

definition ServeHTTP :: "environment \<Rightarrow> Handler \<Rightarrow> ResponseWriter \<Rightarrow> Request \<Rightarrow> Handler \<times> reply \<times> Request option" where
  "ServeHTTP env h w r =
     (case serve_route h r of
        Refuse f \<Rightarrow> (h, Reply (f w), None)
      | Attest \<Rightarrow> (h, Reply (attestation env h r w), None)
      | Metrics \<Rightarrow> (h, Reply (metrics env h h h w), None)
      | Forward r' \<Rightarrow> forward env h r' w)"

end
