(* ===== verification/Tail_Props.thy ===== *)
theory Tail_Props
  imports Tail_Handler
begin

text \<open>
  What the handler guarantees: which requests reach the transport, what the transport receives, what
  a client without the token can see, what the client receives, and what the counters count when
  requests overlap.
\<close>

section \<open>The handler's invariant\<close>

text \<open>What \<open>New\<close> establishes about the fields that no request changes.\<close>

definition handler_ok :: "Handler \<Rightarrow> bool" where
  "handler_ok h \<longleftrightarrow>
     target_ok (h_target h) \<and> Token (h_cfg h) \<noteq> [] \<and> h_authorization h = ''Bearer '' @ Token (h_cfg h) \<and>
     0 < RequestTimeout (h_cfg h)"

lemma New_ok: "New cfg reporter now = Inr h \<Longrightarrow> handler_ok h \<and> h_cfg h = cfg"
  by (auto simp: New_def handler_ok_def split: option.splits if_splits)

text \<open>Everything but the counters.\<close>

definition fixed_part :: "Handler \<Rightarrow> Config \<times> bytes \<times> bool \<times> URL \<times> int" where
  "fixed_part h = (h_cfg h, h_authorization h, h_report h, h_target h, h_started h)"

lemma handler_ok_fixed: "fixed_part h = fixed_part h' \<Longrightarrow> handler_ok h = handler_ok h'"
  by (simp add: fixed_part_def handler_ok_def)

lemma fixed_part_steps [simp]:
  "fixed_part (fst (forward_begin h r)) = fixed_part h"
  "fixed_part (fst (finish_proxy h sent rt w)) = fixed_part h"
  "fixed_part (fst (ErrorHandler c h w)) = fixed_part h"
  "fixed_part (forward_end h) = fixed_part h"
  by (simp_all add: fixed_part_def forward_begin_def' finish_proxy_def ErrorHandler_def forward_end_def
      split: proxied.splits)

section \<open>The outgoing request\<close>

lemma Values_map: "Values (h(CanonicalMIMEHeaderKey k := x)) j =
   (if CanonicalMIMEHeaderKey j = CanonicalMIMEHeaderKey k then (case x of None \<Rightarrow> [] | Some vs \<Rightarrow> vs) else Values h j)"
  by (simp add: Values_def)

lemma canonical_names [simp]:
  "CanonicalMIMEHeaderKey ''Connection'' = ''Connection''" "CanonicalMIMEHeaderKey ''Te'' = ''Te''"
  "CanonicalMIMEHeaderKey ''Authorization'' = ''Authorization''"
  "CanonicalMIMEHeaderKey ''User-Agent'' = ''User-Agent''"
  "map CanonicalMIMEHeaderKey hopByHopHeaders = hopByHopHeaders"
  "map CanonicalMIMEHeaderKey forwarding_headers = forwarding_headers"
  by code_simp+

lemma canonical_name_sets [simp]:
  "CanonicalMIMEHeaderKey ` set hopByHopHeaders = set hopByHopHeaders"
  "CanonicalMIMEHeaderKey ` set forwarding_headers = set forwarding_headers"
  by (simp_all flip: set_map)

lemma hopHeaders_eq: "hopHeaders = hopByHopHeaders"
  by (simp add: hopHeaders_def hopByHopHeaders_def)

lemma hop_members [simp]:
  "''Connection'' \<in> set hopByHopHeaders" "''Te'' \<in> set hopByHopHeaders"
  "''Authorization'' \<notin> set hopByHopHeaders" "''Authorization'' \<notin> set forwarding_headers"
  "''User-Agent'' \<notin> set hopByHopHeaders" "''User-Agent'' \<notin> set forwarding_headers"
  by (simp_all add: hopByHopHeaders_def forwarding_headers_def)

text \<open>Once the hop-by-hop headers are gone, the proxy finds no upgrade, no \<open>Te\<close> and no \<open>Connection\<close>
  header, so it removes the forwarding headers and cleans the query only.\<close>

lemma proxy_outgoing_stripped:
  assumes "q_Header r = RemoveHopByHopHeaders h"
  shows "proxy_outgoing r = Some (r\<lparr>
     q_Header := fold (\<lambda>k h. Del h k) forwarding_headers (fold (\<lambda>k h. Del h k) hopByHopHeaders (RemoveHopByHopHeaders h)),
     q_URL := Some ((req_URL r)\<lparr>u_RawQuery := cleanQueryParams (u_RawQuery (req_URL r))\<rparr>)\<rparr>)"
  using assms by (simp add: proxy_outgoing_def upgradeType_def contains_token_def header_tokens_def
      proxy_removeHopByHop_def hopHeaders_eq is_print_def Let_def)

definition clean_header :: "header \<Rightarrow> header" where
  "clean_header h =
     fold (\<lambda>k h. Del h k) forwarding_headers (fold (\<lambda>k h. Del h k) hopByHopHeaders (RemoveHopByHopHeaders h))"

lemma Values_clean_header:
  "Values (clean_header h) j =
     (if CanonicalMIMEHeaderKey j \<in> CanonicalMIMEHeaderKey ` (set (connection_tokens h) \<union> set hopByHopHeaders \<union> set forwarding_headers)
      then [] else Values h j)"
  by (simp add: clean_header_def header.vals_del_all Values_RemoveHopByHop image_Un)

lemma Values_default_user_agent:
  "Values (q_Header (default_user_agent r)) j =
     (if q_Header r ''User-Agent'' = None \<and> CanonicalMIMEHeaderKey j = ''User-Agent'' then [[]] else Values (q_Header r) j)"
  by (simp add: default_user_agent_def header.vals_set)

lemma default_user_agent_fields [simp]:
  "q_URL (default_user_agent r) = q_URL r" "q_Method (default_user_agent r) = q_Method r"
  "q_Body (default_user_agent r) = q_Body r" "q_Host (default_user_agent r) = q_Host r"
  by (simp_all add: default_user_agent_def)

text \<open>The path of a target that passed \<open>New\<close> is empty or a slash, so joining keeps an absolute path.\<close>

lemma join_fixed_target:
  assumes "target_ok t" and "u_RawPath u = []" and "has_prefix ''/'' (u_Path u)"
  shows "joinURLPath t u = (u_Path u, [])"
proof -
  obtain p where p: "u_Path u = CHR ''/'' # p"
    using assms(3) by (cases "u_Path u") (auto simp: has_prefix_def)
  from assms(1) have "u_Path t = [] \<or> u_Path t = ''/''" "u_RawPath t = []" by (auto simp: target_ok_def)
  with p assms(2) show ?thesis
    by (auto simp: joinURLPath_def singleJoiningSlash_def has_suffix_def has_prefix_def Let_def)
qed

lemma req_URL_update [simp]:
  "req_URL (r\<lparr>q_URL := Some u\<rparr>) = u" "req_URL (r\<lparr>q_Host := x\<rparr>) = req_URL r" "req_URL (r\<lparr>q_Header := y\<rparr>) = req_URL r"
  by (simp_all add: req_URL_def)

text \<open>The request the transport receives, field by field.\<close>

lemma upstream_request_fields:
  assumes "target_ok (h_target h)" "q_Header r = RemoveHopByHopHeaders hdr"
    and "u_RawPath (req_URL r) = []" "has_prefix ''/'' (u_Path (req_URL r))"
  obtains out where "upstream_request h r = Some out"
    "q_Method out = q_Method r" "q_Body out = q_Body r" "q_Host out = u_Host (h_target h)"
    "q_URL out = Some ((req_URL r)\<lparr>u_Scheme := u_Scheme (h_target h), u_Host := u_Host (h_target h), u_RawQuery :=
       (if u_Path (req_URL r) = ''/admin/v1/predictive-profile'' then u_RawQuery (req_URL r)
        else cleanQueryParams (u_RawQuery (req_URL r)))\<rparr>)"
    "\<And>j. Values (q_Header out) j =
       (if CanonicalMIMEHeaderKey j = ''Authorization'' then [''Bearer '' @ Token (h_cfg h)]
        else if CanonicalMIMEHeaderKey j = ''User-Agent'' \<and> clean_header hdr ''User-Agent'' = None then [[]]
        else Values (clean_header hdr) j)"
proof -
  let ?u = "req_URL r"
  let ?mid = "r\<lparr>q_Header := clean_header hdr, q_URL := Some (?u\<lparr>u_RawQuery := cleanQueryParams (u_RawQuery ?u)\<rparr>)\<rparr>"
  have mid: "proxy_outgoing r = Some ?mid"
    using proxy_outgoing_stripped [OF assms(2)] by (simp add: clean_header_def)
  let ?out = "default_user_agent (Rewrite h r ?mid)"
  have out: "upstream_request h r = Some ?out" by (simp add: upstream_request_def mid)
  have join: "joinURLPath (h_target h) (?u\<lparr>u_RawQuery := q\<rparr>) = (u_Path ?u, [])" for q
    using join_fixed_target [OF assms(1), of "?u\<lparr>u_RawQuery := q\<rparr>"] assms(3,4) by simp
  have query: "u_RawQuery (h_target h) = []" using assms(1) by (simp add: target_ok_def)
  have hdr: "q_Header (Rewrite h r ?mid) = Set (clean_header hdr) ''Authorization'' (''Bearer '' @ Token (h_cfg h))"
    by (simp add: Rewrite_def SetURL_def Let_def split_beta)
  show thesis
  proof (rule that [OF out])
    show "q_Method ?out = q_Method r" "q_Body ?out = q_Body r" "q_Host ?out = u_Host (h_target h)"
      by (simp_all add: Rewrite_def SetURL_def Let_def split_beta)
    show "q_URL ?out = Some (?u\<lparr>u_Scheme := u_Scheme (h_target h), u_Host := u_Host (h_target h), u_RawQuery :=
       (if u_Path ?u = ''/admin/v1/predictive-profile'' then u_RawQuery ?u
        else cleanQueryParams (u_RawQuery ?u))\<rparr>)"
      by (simp add: Rewrite_def SetURL_def Let_def join query) (use assms(3) in \<open>cases ?u; simp\<close>)
    show "Values (q_Header ?out) j =
       (if CanonicalMIMEHeaderKey j = ''Authorization'' then [''Bearer '' @ Token (h_cfg h)]
        else if CanonicalMIMEHeaderKey j = ''User-Agent'' \<and> clean_header hdr ''User-Agent'' = None then [[]]
        else Values (clean_header hdr) j)" for j
      unfolding Values_default_user_agent hdr header.vals_set by (auto simp: Set_def)
  qed
qed

section \<open>Which requests reach the transport\<close>

text \<open>The allowlist: path and method.\<close>

definition allowlist :: "(bytes \<times> bytes) list" where
  "allowlist =
     [(''/v1/chat/completions'', ''POST''), (''/v1/completions'', ''POST''), (''/v1/responses'', ''POST''),
      (''/v1/systemone'', ''POST''), (''/v1/embeddings'', ''POST''), (''/v1/models'', ''GET''),
      (''/admin/v1/predictive-policy'', ''GET''), (''/admin/v1/predictive-policy'', ''PATCH''),
      (''/admin/v1/predictive-profile'', ''GET''), (''/v1/metrics'', ''GET'')]"

text \<open>A request whose URL is a plain path, written the same way on the request line.\<close>

definition plain_request :: "Request \<Rightarrow> URL \<Rightarrow> bool" where
  "plain_request r u \<longleftrightarrow>
     q_URL r = Some u \<and> u_Scheme u = [] \<and> u_Host u = [] \<and> u_Opaque u = [] \<and> u_Fragment u = [] \<and> u_RawPath u = [] \<and>
     (q_RequestURI r = [] \<or> before (CHR ''?'') (q_RequestURI r) = u_Path u)"

lemma canonical_Some:
  "canonical (Some r) = Some p \<longleftrightarrow>
     (\<exists>u. plain_request r u \<and> p = u_Path u \<and> p \<noteq> [] \<and> has_prefix ''/'' p \<and> path_Clean p = p \<and> EscapedPath u = p)"
  by (auto simp: canonical_def plain_request_def Let_def split: option.splits)

lemma allowlist_paths:
  "list_all (\<lambda>(p, m). p \<noteq> [] \<and> has_prefix ''/'' p \<and> path_Clean p = p \<and> p \<noteq> ''*'' \<and> escape p encodePath = p) allowlist"
  by code_simp

lemma canonical_allowlisted:
  assumes "plain_request r u" "(u_Path u, m) \<in> set allowlist"
  shows "canonical (Some r) = Some (u_Path u)"
proof -
  have "u_Path u \<noteq> [] \<and> has_prefix ''/'' (u_Path u) \<and> path_Clean (u_Path u) = u_Path u \<and> EscapedPath u = u_Path u"
    using allowlist_paths assms by (auto simp: list_all_iff EscapedPath_def plain_request_def)
  with assms(1) show ?thesis unfolding canonical_Some by blast
qed

text \<open>The request handed to \<open>forward\<close>: the scrape of the engine's metrics is renamed.\<close>

definition engine_request :: "Request \<Rightarrow> Request" where
  "engine_request r =
     (if u_Path (req_URL r) = ''/v1/metrics''
      then r\<lparr>q_URL := Some ((req_URL r)\<lparr>u_Path := ''/metrics'', u_RawPath := []\<rparr>)\<rparr> else r)"

lemma authorized_iff: "authorized r e \<longleftrightarrow> Values (q_Header r) ''Authorization'' = [e]"
  by (cases "Values (q_Header r) ''Authorization''") (auto simp: authorized_def Let_def)

lemmas route_defs = is_management_def is_public_def generation_def management_route_def

lemma serve_route_allowlisted:
  assumes "canonical (Some r) = Some p" "authorized r (h_authorization h)" "p = u_Path (req_URL r)"
  shows "(serve_route h r = Forward r') \<longleftrightarrow> (p, q_Method r) \<in> set allowlist \<and> r' = engine_request r"
  using assms by (auto simp: serve_route_def route_defs allowlist_def engine_request_def)

text \<open>Forwarding always reaches the transport: the proxy refuses no request that passed the checks.\<close>

lemma engine_request_stripped:
  assumes "plain_request r u" "(u_Path u, q_Method r) \<in> set allowlist" "er = snd (forward_begin h (engine_request r))"
  shows "q_Header er = RemoveHopByHopHeaders (q_Header r)"
    "req_URL er = u\<lparr>u_Path := (if u_Path u = ''/v1/metrics'' then ''/metrics'' else u_Path u)\<rparr>"
    "u_RawPath (req_URL er) = []" "has_prefix ''/'' (u_Path (req_URL er))"
    "q_Method er = q_Method r" "q_Body er = q_Body r"
proof -
  have u: "req_URL r = u" "u_RawPath u = []" using assms(1) by (auto simp: plain_request_def req_URL_def)
  then have er: "er = (engine_request r)\<lparr>q_Header := RemoveHopByHopHeaders (q_Header r)\<rparr>"
    by (simp add: assms(3) forward_begin_def' engine_request_def)
  show "q_Header er = RemoveHopByHopHeaders (q_Header r)" "q_Method er = q_Method r" "q_Body er = q_Body r"
    by (simp_all add: er engine_request_def)
  show url: "req_URL er = u\<lparr>u_Path := (if u_Path u = ''/v1/metrics'' then ''/metrics'' else u_Path u)\<rparr>"
    using u by (cases u) (simp add: er engine_request_def)
  show "u_RawPath (req_URL er) = []" using u by (simp add: url)
  have "has_prefix ''/'' (u_Path u)" using allowlist_paths assms(2) by (auto simp: list_all_iff)
  then show "has_prefix ''/'' (u_Path (req_URL er))" by (simp add: url has_prefix_def)
qed

lemma ServeHTTP_forwards:
  assumes "handler_ok h"
  shows "(\<exists>h' rep. ServeHTTP env h w r = (h', rep, Some out)) \<longleftrightarrow>
    (\<exists>u. plain_request r u \<and> (u_Path u, q_Method r) \<in> set allowlist \<and>
      Values (q_Header r) ''Authorization'' = [h_authorization h] \<and>
      upstream_request (fst (forward_begin h (engine_request r))) (snd (forward_begin h (engine_request r))) = Some out)"
    (is "?L \<longleftrightarrow> (\<exists>u. ?R u)")
proof
  assume ?L
  then obtain r' where route: "serve_route h r = Forward r'"
    and up: "upstream_request (fst (forward_begin h r')) (snd (forward_begin h r')) = Some out"
    by (auto simp: ServeHTTP_def forward_def split_beta split: route.splits option.splits)
  from route obtain p where p: "canonical (Some r) = Some p" "authorized r (h_authorization h)"
    by (auto simp: serve_route_def split: option.splits if_splits)
  then obtain u where u: "plain_request r u" "p = u_Path u" unfolding canonical_Some by blast
  then have "p = u_Path (req_URL r)" by (simp add: plain_request_def req_URL_def)
  with serve_route_allowlisted [OF p, of r'] route u(2)
  have "(u_Path u, q_Method r) \<in> set allowlist \<and> r' = engine_request r" by simp
  with u(1) up p(2) show "\<exists>u. ?R u" unfolding authorized_iff by blast
next
  assume "\<exists>u. ?R u"
  then obtain u where R: "?R u" by blast
  then have c: "canonical (Some r) = Some (u_Path u)" using canonical_allowlisted by blast
  have "req_URL r = u" using R by (simp add: plain_request_def req_URL_def)
  with serve_route_allowlisted [OF c] R have "serve_route h r = Forward (engine_request r)" by (simp add: authorized_iff)
  then show ?L using R by (auto simp: ServeHTTP_def forward_def split_beta)
qed

text \<open>What the engine sees of a request.\<close>

definition engine_view :: "Handler \<Rightarrow> Request \<Rightarrow> URL \<Rightarrow> Request \<Rightarrow> bool" where
  "engine_view h r u out \<longleftrightarrow>
     q_Method out = q_Method r \<and> q_Body out = q_Body r \<and> q_Host out = u_Host (h_target h) \<and>
     q_URL out = Some (u\<lparr>u_Path := (if u_Path u = ''/v1/metrics'' then ''/metrics'' else u_Path u),
       u_Scheme := u_Scheme (h_target h), u_Host := u_Host (h_target h), u_RawQuery :=
       (if u_Path u = ''/admin/v1/predictive-profile'' then u_RawQuery u else cleanQueryParams (u_RawQuery u))\<rparr>) \<and>
     (\<forall>j. Values (q_Header out) j =
       (if CanonicalMIMEHeaderKey j = ''Authorization'' then [''Bearer '' @ Token (h_cfg h)]
        else if CanonicalMIMEHeaderKey j = ''User-Agent'' \<and> clean_header (q_Header r) ''User-Agent'' = None then [[]]
        else Values (clean_header (q_Header r)) j))"

lemma upstream_request_reached:
  assumes "handler_ok h" "plain_request r u" "(u_Path u, q_Method r) \<in> set allowlist"
  shows "\<exists>out. upstream_request (fst (forward_begin h (engine_request r))) (snd (forward_begin h (engine_request r))) = Some out
    \<and> engine_view h r u out"
proof -
  let ?h = "fst (forward_begin h (engine_request r))" and ?er = "snd (forward_begin h (engine_request r))"
  note er = engine_request_stripped [OF assms(2,3) refl, of h]
  have fixed: "h_target ?h = h_target h" "h_cfg ?h = h_cfg h" by (simp_all add: forward_begin_def')
  have "target_ok (h_target ?h)" using assms(1) by (simp add: fixed handler_ok_def)
  show ?thesis
    by (rule upstream_request_fields [OF \<open>target_ok (h_target ?h)\<close> er(1,3,4)], rule exI, rule conjI, assumption)
      (simp add: engine_view_def er(2,5,6) fixed)
qed

text \<open>Concrete inputs for the witnesses.\<close>

definition sample_config :: Config where
  "sample_config = \<lparr>Token = ''key'', Upstream = ''http://engine:8000/'', RequestTimeout = 600 * 10 ^ 9\<rparr>"

definition sample_handler :: Handler where
  "sample_handler = \<lparr>h_cfg = sample_config, h_authorization = ''Bearer key'', h_report = True,
     h_target = empty_URL\<lparr>u_Scheme := ''http'', u_Host := ''engine:8000'', u_Path := ''/''\<rparr>, h_started = 0,
     h_inflight = 0, h_forwarded = 0, h_unavailable = 0\<rparr>"

definition sample_URL :: "bytes \<Rightarrow> URL" where
  "sample_URL p = empty_URL\<lparr>u_Path := p, u_RawQuery := ''a=1;b''\<rparr>"

definition sample_request :: "bytes \<Rightarrow> bytes \<Rightarrow> Request" where
  "sample_request meth p =
     \<lparr>q_Method = meth, q_URL = Some (sample_URL p), q_RequestURI = p @ ''?a=1;b'', q_Host = ''tail'',
      q_Header = Set (Set Map.empty ''authorization'' ''Bearer key'') ''Connection'' ''close'', q_Body = []\<rparr>"

definition sample_env :: "round_trip \<Rightarrow> environment" where
  "sample_env rt = \<lparr>e_transport = (\<lambda>_. rt), e_generate = (\<lambda>_. Inl (ErrMsg ''none'')), e_now = 5 * 10 ^ 8\<rparr>"

lemma sample_New: "New sample_config True 0 = Inr sample_handler"
  by code_simp

lemma sample_ok: "handler_ok sample_handler"
  using New_ok [OF sample_New] by simp

lemma sample_plain:
  "plain_request (sample_request m ''/v1/models'') (sample_URL ''/v1/models'')"
  "plain_request (sample_request m ''/v1/metrics'') (sample_URL ''/v1/metrics'')"
  "Values (q_Header (sample_request m p)) ''Authorization'' = [''Bearer key'']"
proof -
  have "before (CHR ''?'') (''/v1/models'' @ ''?a=1;b'') = ''/v1/models''"
    "before (CHR ''?'') (''/v1/metrics'' @ ''?a=1;b'') = ''/v1/metrics''" by code_simp+
  then show "plain_request (sample_request m ''/v1/models'') (sample_URL ''/v1/models'')"
    "plain_request (sample_request m ''/v1/metrics'') (sample_URL ''/v1/metrics'')"
    by (simp_all add: plain_request_def sample_request_def sample_URL_def empty_URL_def)
  have "CanonicalMIMEHeaderKey ''authorization'' = ''Authorization''" by code_simp
  then show "Values (q_Header (sample_request m p)) ''Authorization'' = [''Bearer key'']"
    by (simp add: sample_request_def header.vals_set)
qed

lemma sample_served:
  assumes "fixed_part h = fixed_part sample_handler"
  shows "\<exists>h' rep out. ServeHTTP env h w (sample_request ''GET'' ''/v1/models'') = (h', rep, Some out)"
proof -
  have ok: "handler_ok h" using sample_ok handler_ok_fixed [OF assms] by simp
  have "(''/v1/models'', ''GET'') \<in> set allowlist" by (simp add: allowlist_def)
  then have up: "\<exists>out. upstream_request (fst (forward_begin h (engine_request (sample_request ''GET'' ''/v1/models''))))
      (snd (forward_begin h (engine_request (sample_request ''GET'' ''/v1/models'')))) = Some out"
    using upstream_request_reached [OF ok sample_plain(1), of "''GET''"]
    by (auto simp: sample_request_def sample_URL_def)
  have "u_Path (sample_URL ''/v1/models'') = ''/v1/models''" "q_Method (sample_request ''GET'' ''/v1/models'') = ''GET''"
    "h_authorization h = ''Bearer key''"
    using assms by (simp_all add: sample_URL_def sample_request_def sample_handler_def fixed_part_def)
  with up ServeHTTP_forwards [OF ok, of env w "sample_request ''GET'' ''/v1/models''"]
    sample_plain(1) [of "''GET''"] sample_plain(3) \<open>(''/v1/models'', ''GET'') \<in> set allowlist\<close>
  show ?thesis by metis
qed

lemmas sample_forwarded = sample_served [OF refl]

text \<open>C16: with a handler made by \<open>New\<close>, a request reaches the engine's transport if and only if its URL is
  a plain path that the request line spells the same way, path and method are on the allowlist, and
  it carries exactly one \<open>Authorization\<close> value, the bearer token.\<close>

theorem forwarded_iff_authorized:
  assumes "New cfg reporter now = Inr h"
  shows "(\<exists>h' rep out. ServeHTTP env h w r = (h', rep, Some out)) \<longleftrightarrow>
    (\<exists>u. plain_request r u \<and> (u_Path u, q_Method r) \<in> set allowlist \<and>
      Values (q_Header r) ''Authorization'' = [''Bearer '' @ Token cfg])"
proof -
  have ok: "handler_ok h" and auth: "h_authorization h = ''Bearer '' @ Token cfg"
    using New_ok [OF assms] by (auto simp: handler_ok_def)
  have "(\<exists>h' rep out. ServeHTTP env h w r = (h', rep, Some out)) \<longleftrightarrow>
    (\<exists>out u. plain_request r u \<and> (u_Path u, q_Method r) \<in> set allowlist \<and>
      Values (q_Header r) ''Authorization'' = [h_authorization h] \<and>
      upstream_request (fst (forward_begin h (engine_request r))) (snd (forward_begin h (engine_request r))) = Some out)"
    using ServeHTTP_forwards [OF ok, of env w r] by blast
  also have "\<dots> \<longleftrightarrow> (\<exists>u. plain_request r u \<and> (u_Path u, q_Method r) \<in> set allowlist \<and>
      Values (q_Header r) ''Authorization'' = [h_authorization h])"
    using upstream_request_reached [OF ok, of r] by blast
  finally show ?thesis by (simp add: auth)
qed

theorem forwarded_iff_authorized_witness:
  "New sample_config True 0 = Inr sample_handler \<and>
   (\<exists>h' rep out. ServeHTTP (sample_env (RtError False)) sample_handler new_writer (sample_request ''GET'' ''/v1/models'') = (h', rep, Some out)) \<and>
   \<not> (\<exists>h' rep out. ServeHTTP (sample_env (RtError False)) sample_handler new_writer (sample_request ''PUT'' ''/v1/models'') = (h', rep, Some out))"
proof -
  note iff = forwarded_iff_authorized [OF sample_New, of "sample_env (RtError False)" new_writer]
  have tok: "''Bearer '' @ Token sample_config = ''Bearer key''" by (simp add: sample_config_def)
  have path: "u_Path (sample_URL p) = p" "q_Method (sample_request m p) = m" for p m
    by (simp_all add: sample_URL_def sample_request_def)
  have get: "(''/v1/models'', ''GET'') \<in> set allowlist" by (simp add: allowlist_def)
  have "(u_Path (sample_URL ''/v1/models''), q_Method (sample_request ''GET'' ''/v1/models'')) \<in> set allowlist"
    unfolding path by (rule get)
  with sample_plain have "\<exists>h' rep out. ServeHTTP (sample_env (RtError False)) sample_handler new_writer
    (sample_request ''GET'' ''/v1/models'') = (h', rep, Some out)"
    unfolding iff tok by blast
  moreover have "(p, ''PUT'') \<notin> set allowlist" for p by (simp add: allowlist_def)
  then have "\<not> (\<exists>h' rep out. ServeHTTP (sample_env (RtError False)) sample_handler new_writer (sample_request ''PUT'' ''/v1/models'') = (h', rep, Some out))"
    unfolding iff path by blast
  ultimately show ?thesis using sample_New by blast
qed

text \<open>The forwarding headers, written out, and the names that are removed from a request altogether.\<close>

definition forwarding_name :: "bytes \<Rightarrow> bool" where
  "forwarding_name name \<longleftrightarrow>
     map lower_byte name \<in> {''forwarded'', ''x-forwarded-for'', ''x-forwarded-host'', ''x-forwarded-proto''}"

lemma forwarding_name_list: "forwarding_name name \<longleftrightarrow> (\<exists>t \<in> set forwarding_headers. same_name t name)"
proof -
  have "map (map lower_byte) forwarding_headers = [''forwarded'', ''x-forwarded-for'', ''x-forwarded-host'', ''x-forwarded-proto'']"
    (is "_ = ?names") by code_simp
  then have "map lower_byte ` set forwarding_headers = set ?names" by (simp only: flip: set_map)
  then have "map lower_byte name \<in> set ?names \<longleftrightarrow> (\<exists>t \<in> set forwarding_headers. map lower_byte name = map lower_byte t)" by blast
  then show ?thesis unfolding forwarding_name_def same_name_def by (simp only: list.set eq_commute)
qed

lemma cleaned_names:
  assumes "list_all valid_field_byte name"
  shows "CanonicalMIMEHeaderKey name \<in> CanonicalMIMEHeaderKey ` (set (connection_tokens h) \<union> set hopByHopHeaders \<union> set forwarding_headers) \<longleftrightarrow>
    hop_name name \<or> named_by_connection h name \<or> forwarding_name name"
  using removed_names [OF assms, of h] canonical_in_names [OF assms, of "set forwarding_headers"]
  by (simp add: image_Un forwarding_name_list del: canonical_name_sets)

text \<open>A removed key is absent from the map.\<close>

lemma Del_all: "fold (\<lambda>k h. Del h k) ks h j = (if j \<in> CanonicalMIMEHeaderKey ` set ks then None else h j)"
  by (induction ks arbitrary: h) (auto simp: Del_def)

lemma clean_user_agent:
  "clean_header h ''User-Agent'' = None \<longleftrightarrow> h ''User-Agent'' = None \<or> named_by_connection h ''User-Agent''"
proof -
  have valid: "list_all valid_field_byte ''User-Agent''" by code_simp
  have no: "\<not> hop_name ''User-Agent''" "\<not> forwarding_name ''User-Agent''"
    by (simp_all add: hop_name_def forwarding_name_def lower_byte_def code_def)
  have "clean_header h ''User-Agent'' = (if CanonicalMIMEHeaderKey ''User-Agent'' \<in> CanonicalMIMEHeaderKey `
      (set (connection_tokens h) \<union> set hopByHopHeaders \<union> set forwarding_headers) then None else h ''User-Agent'')"
    by (simp add: clean_header_def RemoveHopByHopHeaders_def Del_all image_Un)
  then show ?thesis unfolding cleaned_names [OF valid] using no by simp
qed

text \<open>C17: the request that reaches the engine has the client's method and body, the fixed target's scheme and
  host, the client's path (the metrics scrape renamed) and query (byte for byte where it can be parsed,
  and always on the profile route), and a single \<open>Authorization\<close> value, the configured token. Of the
  other headers it has none of the hop-by-hop names, of those that the client's \<open>Connection\<close> header
  lists, or of the forwarding names, and every other one as the client sent it, cookies and keys of the
  client's own included. A \<open>User-Agent\<close> that is absent or removed is sent empty.\<close>

theorem outgoing_request:
  assumes "handler_ok h" and "ServeHTTP env h w r = (h', rep, Some out)" and "q_URL r = Some u"
  shows "q_Method out = q_Method r \<and> q_Body out = q_Body r \<and> q_Host out = u_Host (h_target h) \<and>
    q_URL out = Some (u\<lparr>u_Scheme := u_Scheme (h_target h), u_Host := u_Host (h_target h),
      u_Path := (if u_Path u = ''/v1/metrics'' then ''/metrics'' else u_Path u),
      u_RawQuery := (if u_Path u = ''/admin/v1/predictive-profile'' \<or> query_parses (u_RawQuery u) then u_RawQuery u
                     else query_encode (ParseQuery (u_RawQuery u)))\<rparr>) \<and>
    Values (q_Header out) ''Authorization'' = [''Bearer '' @ Token (h_cfg h)] \<and>
    Values (q_Header out) ''User-Agent'' =
      (if q_Header r ''User-Agent'' = None \<or> named_by_connection (q_Header r) ''User-Agent'' then [[]]
       else Values (q_Header r) ''User-Agent'') \<and>
    (\<forall>k. list_all valid_field_byte k \<and> \<not> same_name k ''Authorization'' \<and> \<not> same_name k ''User-Agent'' \<longrightarrow>
      Values (q_Header out) k =
        (if hop_name k \<or> named_by_connection (q_Header r) k \<or> forwarding_name k then [] else Values (q_Header r) k))"
proof -
  from assms(2) ServeHTTP_forwards [OF assms(1), of env w r out] obtain v where v: "plain_request r v"
    "(u_Path v, q_Method r) \<in> set allowlist"
    "upstream_request (fst (forward_begin h (engine_request r))) (snd (forward_begin h (engine_request r))) = Some out"
    by blast
  have "v = u" using v(1) assms(3) by (simp add: plain_request_def)
  with v upstream_request_reached [OF assms(1) v(1,2)] have "engine_view h r u out" by auto
  note out = this [unfolded engine_view_def, THEN conjunct1] this [unfolded engine_view_def, THEN conjunct2]
  have url: "q_URL out = Some (u\<lparr>u_Scheme := u_Scheme (h_target h), u_Host := u_Host (h_target h),
      u_Path := (if u_Path u = ''/v1/metrics'' then ''/metrics'' else u_Path u),
      u_RawQuery := (if u_Path u = ''/admin/v1/predictive-profile'' \<or> query_parses (u_RawQuery u) then u_RawQuery u
                     else query_encode (ParseQuery (u_RawQuery u)))\<rparr>)"
    using out(2) unfolding cleanQueryParams_def by (cases u) simp
  have vals: "\<And>j. Values (q_Header out) j =
       (if CanonicalMIMEHeaderKey j = ''Authorization'' then [''Bearer '' @ Token (h_cfg h)]
        else if CanonicalMIMEHeaderKey j = ''User-Agent'' \<and> clean_header (q_Header r) ''User-Agent'' = None then [[]]
        else Values (clean_header (q_Header r)) j)" using out(2) by blast
  have agent: "list_all valid_field_byte ''User-Agent''" "\<not> hop_name ''User-Agent''" "\<not> forwarding_name ''User-Agent''"
    by (code_simp, simp_all add: hop_name_def forwarding_name_def lower_byte_def code_def)
  have other: "CanonicalMIMEHeaderKey k = n \<longleftrightarrow> same_name k n" if "list_all valid_field_byte k" "CanonicalMIMEHeaderKey n = n" for k n
    using canonical_key_eq [OF that(1), of n] that(2) by (simp add: same_name_def)
  have "Values (q_Header out) k = (if hop_name k \<or> named_by_connection (q_Header r) k \<or> forwarding_name k then [] else Values (q_Header r) k)"
    if "list_all valid_field_byte k" "\<not> same_name k ''Authorization''" "\<not> same_name k ''User-Agent''" for k
    unfolding vals Values_clean_header cleaned_names [OF that(1)] using that other [OF that(1)] by simp
  moreover have "Values (q_Header out) ''User-Agent'' =
      (if q_Header r ''User-Agent'' = None \<or> named_by_connection (q_Header r) ''User-Agent'' then [[]]
       else Values (q_Header r) ''User-Agent'')"
    unfolding vals Values_clean_header cleaned_names [OF agent(1)] clean_user_agent using agent by simp
  moreover have "Values (q_Header out) ''Authorization'' = [''Bearer '' @ Token (h_cfg h)]" unfolding vals by simp
  moreover have "q_Body out = q_Body r" "q_Host out = u_Host (h_target h)" using out(2) by blast+
  ultimately show ?thesis using out(1) url by blast
qed

theorem outgoing_request_witness:
  "handler_ok sample_handler \<and>
   (\<exists>h' rep out. ServeHTTP (sample_env (RtError False)) sample_handler new_writer (sample_request ''GET'' ''/v1/models'') = (h', rep, Some out) \<and>
      q_Host out = ''engine:8000'' \<and> Values (q_Header out) ''Authorization'' = [''Bearer key''])"
proof -
  obtain h' rep out where run: "ServeHTTP (sample_env (RtError False)) sample_handler new_writer
    (sample_request ''GET'' ''/v1/models'') = (h', rep, Some out)" using sample_forwarded by blast
  have url: "q_URL (sample_request ''GET'' ''/v1/models'') = Some (sample_URL ''/v1/models'')"
    by (simp add: sample_request_def)
  have "''Bearer '' @ Token (h_cfg sample_handler) = ''Bearer key''" "u_Host (h_target sample_handler) = ''engine:8000''"
    by (simp_all add: sample_handler_def sample_config_def)
  with outgoing_request [OF sample_ok run url] run sample_ok show ?thesis by metis
qed

section \<open>Without the token\<close>

text \<open>The status a client without the token receives.\<close>

definition outsider_status :: "Request \<Rightarrow> int" where
  "outsider_status r =
     (case canonical (Some r) of
        None \<Rightarrow> 404
      | Some p \<Rightarrow>
          if p = ''/healthz'' then (if q_Method r = ''GET'' then 200 else 405)
          else if is_management p \<or> is_public p (q_Method r) then 401 else 404)"

lemma openai_writer_status:
  assumes "w_status w = None"
  shows "final_status (WriteNotFound w) = 404" "final_status (WriteUnauthorized w) = 401"
    "final_status (WriteUnavailable w) = 503"
  using assms by (simp_all add: openai_writers write_json_body_def final_status_WriteHeader)

lemma outsider_route:
  assumes "\<not> authorized r (h_authorization h)"
  obtains f where "serve_route h r = Refuse f" "\<And>h'. \<not> authorized r (h_authorization h') \<Longrightarrow> serve_route h' r = Refuse f"
    "\<And>w. w_status w = None \<Longrightarrow> final_status (f w) = outsider_status r"
proof -
  define f where "f = (case canonical (Some r) of None \<Rightarrow> WriteNotFound
      | Some p \<Rightarrow> if p = ''/healthz'' then (if q_Method r \<noteq> ''GET'' then method_not_allowed else Write (''ok'' @ [LF]))
          else if \<not> is_management p \<and> \<not> is_public p (q_Method r) then WriteNotFound else unauthorized_reply p)"
  have route: "serve_route h' r = Refuse f" if "\<not> authorized r (h_authorization h')" for h'
    using that by (auto simp: serve_route_def f_def split: option.splits)
  have "final_status (f w) = outsider_status r" if "w_status w = None" for w
    using that by (auto simp: f_def outsider_status_def openai_writer_status method_not_allowed_def final_status_Error
        unauthorized_reply_def final_status_def [of w] split: option.splits)
  with route assms show thesis using that by blast
qed

text \<open>C18: a client whose \<open>Authorization\<close> header is not exactly the token gets a reply that depends on its request
  alone, not on the handler's state, its configuration, the engine or the reporter: 200 or 405 on
  the liveness path, 401 on a route that exists, 404 otherwise. The transport is not reached and the
  counters do not change.\<close>

theorem outsider_learns_nothing:
  assumes "handler_ok h1" and "handler_ok h2" and "w_status w = None"
    and "Values (q_Header r) ''Authorization'' \<noteq> [''Bearer '' @ Token (h_cfg h1)]"
    and "Values (q_Header r) ''Authorization'' \<noteq> [''Bearer '' @ Token (h_cfg h2)]"
  shows "\<exists>w'. ServeHTTP env1 h1 w r = (h1, Reply w', None) \<and> ServeHTTP env2 h2 w r = (h2, Reply w', None) \<and>
    final_status w' = outsider_status r"
proof -
  have no: "\<not> authorized r (h_authorization h1)" "\<not> authorized r (h_authorization h2)"
    using assms by (auto simp: authorized_iff handler_ok_def)
  from outsider_route [OF no(1)] obtain f where f: "serve_route h1 r = Refuse f"
    "\<And>h'. \<not> authorized r (h_authorization h') \<Longrightarrow> serve_route h' r = Refuse f"
    "\<And>w. w_status w = None \<Longrightarrow> final_status (f w) = outsider_status r" by blast
  then show ?thesis using no(2) assms(3) by (auto simp: ServeHTTP_def)
qed

theorem outsider_learns_nothing_witness:
  "handler_ok sample_handler \<and>
   (\<exists>w'. ServeHTTP (sample_env (RtError False)) sample_handler new_writer
      ((sample_request ''GET'' ''/v1/models'')\<lparr>q_Header := Map.empty\<rparr>) = (sample_handler, Reply w', None) \<and> final_status w' = 401)"
proof -
  let ?r = "(sample_request ''GET'' ''/v1/models'')\<lparr>q_Header := Map.empty\<rparr>"
  have no: "Values (q_Header ?r) ''Authorization'' \<noteq> [''Bearer '' @ Token (h_cfg sample_handler)]"
    by (simp add: Values_def)
  have "outsider_status ?r = 401" by code_simp
  with outsider_learns_nothing [OF sample_ok sample_ok _ no no, of new_writer "sample_env (RtError False)" "sample_env (RtError False)"]
  show ?thesis using sample_ok by simp
qed

section \<open>What the client receives\<close>

text \<open>A request that is served leaves the fixed part alone.\<close>

lemma ServeHTTP_fixed:
  assumes "ServeHTTP env h w r = (h', rep, sent)"
  shows "fixed_part h' = fixed_part h"
  using assms
  by (auto simp: ServeHTTP_def forward_def fixed_part_def forward_begin_def' forward_end_def finish_proxy_def ErrorHandler_def Let_def
      split: route.splits option.splits proxied.splits prod.splits if_splits)

lemma ServeHTTP_forward_result:
  assumes "ServeHTTP env h w r = (h', rep, Some out)"
  obtains h1 where "h1 = h\<lparr>h_inflight := h_inflight h + 1, h_forwarded := h_forwarded h + 1\<rparr>"
    "finish_proxy h1 (q_Header out) (e_transport env out) w = (fst (finish_proxy h1 (q_Header out) (e_transport env out) w), rep)"
    "h' = forward_end (fst (finish_proxy h1 (q_Header out) (e_transport env out) w))"
proof -
  let ?h1 = "h\<lparr>h_inflight := h_inflight h + 1, h_forwarded := h_forwarded h + 1\<rparr>"
  from assms have "rep = snd (finish_proxy ?h1 (q_Header out) (e_transport env out) w)"
    "h' = forward_end (fst (finish_proxy ?h1 (q_Header out) (e_transport env out) w))"
    by (auto simp: ServeHTTP_def forward_def forward_begin_def' split_beta split: route.splits option.splits)
  then show thesis by (intro that [OF refl]) simp_all
qed

lemma Values_proxy_removeHopByHop:
  "Values (proxy_removeHopByHop h) k =
     (if CanonicalMIMEHeaderKey k \<in> CanonicalMIMEHeaderKey ` (set (header_tokens (Values h ''Connection'')) \<union> set hopHeaders)
      then [] else Values h k)"
  by (simp add: proxy_removeHopByHop_def header.vals_del_all image_Un)

lemma Values_copyHeader: "Values (copyHeader dst src) k = Values dst k @ Values src k"
  by (simp add: Values_def copyHeader_def split: option.splits)

lemma counters_restored [simp]:
  "forward_end (h\<lparr>h_inflight := h_inflight h + 1, h_forwarded := f\<rparr>) = h\<lparr>h_forwarded := f\<rparr>"
  "forward_end (h\<lparr>h_inflight := h_inflight h + 1, h_forwarded := f, h_unavailable := k\<rparr>) = h\<lparr>h_forwarded := f, h_unavailable := k\<rparr>"
  by (cases h; simp add: forward_end_def)+

text \<open>C19: the engine's final response reaches the client with its status, its body and its headers except the
  hop-by-hop ones; a body the engine cuts off aborts the response. Afterwards the request is no
  longer in flight and one more has been forwarded.\<close>

theorem response_relayed:
  assumes "ServeHTTP env h new_writer r = (h', rep, Some out)"
    and "e_transport env out = RtResponse status header body whole" and "200 \<le> status"
  shows "h' = h\<lparr>h_forwarded := h_forwarded h + 1\<rparr> \<and>
    (\<exists>w' sent. rep = (if whole then Reply w' else Aborted w') \<and> w_status w' = Some (status, sent) \<and> w_body w' = body \<and>
      (\<forall>k. Values sent k =
        (if CanonicalMIMEHeaderKey k \<in> CanonicalMIMEHeaderKey ` (set (header_tokens (Values header ''Connection'')) \<union> set hopHeaders)
         then [] else Values header k)))"
proof -
  let ?sent = "copyHeader Map.empty (proxy_removeHopByHop header)"
  from ServeHTTP_forward_result [OF assms(1)] obtain h1 where
    h1: "h1 = h\<lparr>h_inflight := h_inflight h + 1, h_forwarded := h_forwarded h + 1\<rparr>"
    "finish_proxy h1 (q_Header out) (e_transport env out) new_writer = (fst (finish_proxy h1 (q_Header out) (e_transport env out) new_writer), rep)"
    "h' = forward_end (fst (finish_proxy h1 (q_Header out) (e_transport env out) new_writer))" .
  let ?w1 = "WriteHeader status (new_writer\<lparr>w_header := ?sent\<rparr>)"
  have w1: "w_status ?w1 = Some (status, ?sent)" "w_body ?w1 = []"
    using assms(3) by (simp_all add: WriteHeader_def new_writer_def)
  obtain w' where w': "w_status w' = Some (status, ?sent)" "w_body w' = body"
    "proxy_response (q_Header out) (e_transport env out) new_writer = ProxyDone w' whole"
  proof -
    have "proxy_response (q_Header out) (e_transport env out) new_writer =
      ProxyDone (if body = [] then ?w1 else Write body ?w1) whole"
      using assms(2,3) by (simp add: proxy_response_def new_writer_def)
    moreover have "w_status (if body = [] then ?w1 else Write body ?w1) = Some (status, ?sent)"
      "w_body (if body = [] then ?w1 else Write body ?w1) = body"
      using w1 by (simp_all add: Write_def WriteHeader_def [of 200])
    ultimately show thesis using that by blast
  qed
  have "Values ?sent k = (if CanonicalMIMEHeaderKey k \<in> CanonicalMIMEHeaderKey ` (set (header_tokens (Values header ''Connection'')) \<union> set hopHeaders)
         then [] else Values header k)" for k
    by (simp add: Values_copyHeader Values_proxy_removeHopByHop Values_def [of Map.empty])
  moreover have "h' = h\<lparr>h_forwarded := h_forwarded h + 1\<rparr>" using h1(1,3) w'(3) by (simp add: finish_proxy_def)
  moreover have "rep = (if whole then Reply w' else Aborted w')" using h1(2) w'(3) by (simp add: finish_proxy_def)
  ultimately show ?thesis using w'(1,2) by blast
qed

theorem response_relayed_witness:
  "\<exists>h' rep out w' sent. ServeHTTP (sample_env (RtResponse 429 (Set Map.empty ''Retry-After'' ''7'') ''busy'' True)) sample_handler new_writer
      (sample_request ''GET'' ''/v1/models'') = (h', rep, Some out) \<and> rep = Reply w' \<and> w_status w' = Some (429, sent) \<and>
      w_body w' = ''busy'' \<and> Values sent ''retry-after'' = [''7'']"
proof -
  let ?hd = "Set Map.empty ''Retry-After'' ''7''"
  let ?env = "sample_env (RtResponse 429 ?hd ''busy'' True)"
  obtain h' rep out where run: "ServeHTTP ?env sample_handler new_writer
    (sample_request ''GET'' ''/v1/models'') = (h', rep, Some out)" using sample_forwarded by blast
  have "e_transport ?env out = RtResponse 429 ?hd ''busy'' True" by (simp add: sample_env_def)
  from response_relayed [OF run this] obtain w' sent where w': "rep = Reply w'" "w_status w' = Some (429, sent)" "w_body w' = ''busy''"
    and sent: "\<And>k. Values sent k = (if CanonicalMIMEHeaderKey k \<in> CanonicalMIMEHeaderKey ` (set (header_tokens (Values ?hd ''Connection'')) \<union> set hopHeaders)
         then [] else Values ?hd k)" by auto
  have "CanonicalMIMEHeaderKey ''retry-after'' \<notin> CanonicalMIMEHeaderKey ` (set (header_tokens (Values ?hd ''Connection'')) \<union> set hopHeaders)"
    "Values ?hd ''retry-after'' = [''7'']" by code_simp+
  with sent run w' show ?thesis by simp
qed

text \<open>C20: when the transport fails, the client gets the engine-unavailable error with status 503 and the failure
  is counted, except when the client itself has canceled the request: then nothing is written or
  counted. In both cases the request has been counted as forwarded and is no longer in flight.\<close>

theorem transport_failure:
  assumes "ServeHTTP env h w r = (h', rep, Some out)" and "e_transport env out = RtError canceled" and "w_status w = None"
  shows "h' = h\<lparr>h_forwarded := h_forwarded h + 1, h_unavailable := h_unavailable h + (if canceled then 0 else 1)\<rparr> \<and>
    (\<exists>w'. rep = Reply w' \<and> (if canceled then w' = w else w' = WriteUnavailable w \<and> final_status w' = 503))"
proof -
  from ServeHTTP_forward_result [OF assms(1)] obtain h1 where
    h1: "h1 = h\<lparr>h_inflight := h_inflight h + 1, h_forwarded := h_forwarded h + 1\<rparr>"
    "finish_proxy h1 (q_Header out) (e_transport env out) w = (fst (finish_proxy h1 (q_Header out) (e_transport env out) w), rep)"
    "h' = forward_end (fst (finish_proxy h1 (q_Header out) (e_transport env out) w))" .
  show ?thesis
    using h1 assms(2,3) by (cases canceled)
      (simp_all add: finish_proxy_def proxy_response_def ErrorHandler_def openai_writer_status)
qed

theorem transport_failure_witness:
  "\<exists>h' w' out. ServeHTTP (sample_env (RtError False)) sample_handler new_writer (sample_request ''GET'' ''/v1/models'') = (h', Reply w', Some out) \<and>
     h_unavailable h' = 1 \<and> final_status w' = 503"
proof -
  obtain h' rep out where run: "ServeHTTP (sample_env (RtError False)) sample_handler new_writer
    (sample_request ''GET'' ''/v1/models'') = (h', rep, Some out)" using sample_forwarded by blast
  have "e_transport (sample_env (RtError False)) out = RtError False" by (simp add: sample_env_def)
  from transport_failure [OF run this] run show ?thesis by (auto simp: sample_handler_def)
qed

end
