(* ===== verification/Tail_Counters.thy ===== *)
theory Tail_Counters
  imports Tail_Props
begin

text \<open>
  Requests that overlap. A request that is forwarded changes the handler's counters one at a time: it
  enters, it is counted, the proxy runs and may count a failure, it leaves; in between any number of
  other requests do the same. The state of the step relation is the handler, the requests between their
  first and last change with the place each has reached, and two counts of the history: the requests
  counted and the failures.
\<close>

section \<open>Steps\<close>

datatype place = Entered | AtProxy | Leaving bool

text \<open>\<open>Leaving failed\<close>: the proxy is done with the request, which failed or not.\<close>

record system =
  s_handler :: Handler
  s_active :: "(place \<times> Request) list"
  s_started :: nat
  s_failed :: nat

text \<open>A round trip that is to be counted as unavailable: one that failed, unless the client canceled the
  request, and a switch of protocols that was not asked for.\<close>

definition counts_failure :: "header \<Rightarrow> round_trip \<Rightarrow> bool" where
  "counts_failure sent rt \<longleftrightarrow>
     (case rt of
        RtError canceled \<Rightarrow> \<not> canceled
      | RtResponse status header _ _ \<Rightarrow>
          status = 101 \<and> (\<not> is_print (upgradeType header) \<or>
            map lower_byte (upgradeType header) \<noteq> map lower_byte (upgradeType sent)))"

inductive step :: "system \<Rightarrow> system \<Rightarrow> bool" where
  enter: "serve_route (s_handler s) r = Forward r'
    \<Longrightarrow> step s (s\<lparr>s_handler := forward_enter (s_handler s), s_active := (Entered, forward_clone r') # s_active s\<rparr>)"
| counted: "s_active s = xs @ (Entered, er) # ys
    \<Longrightarrow> step s (s\<lparr>s_handler := forward_count (s_handler s), s_active := xs @ (AtProxy, er) # ys, s_started := Suc (s_started s)\<rparr>)"
| proxied: "\<lbrakk>s_active s = xs @ (AtProxy, er) # ys; upstream_request (s_handler s) er = Some out;
     finish_proxy (s_handler s) (q_Header out) rt w = (h, rep)\<rbrakk>
    \<Longrightarrow> step s (s\<lparr>s_handler := h, s_active := xs @ (Leaving (counts_failure (q_Header out) rt), er) # ys,
          s_failed := s_failed s + of_bool (counts_failure (q_Header out) rt)\<rparr>)"
| leave: "s_active s = xs @ (Leaving failed, er) # ys
    \<Longrightarrow> step s (s\<lparr>s_handler := forward_end (s_handler s), s_active := xs @ ys\<rparr>)"

definition initial :: "Handler \<Rightarrow> system" where
  "initial h = \<lparr>s_handler = h, s_active = [], s_started = 0, s_failed = 0\<rparr>"

text \<open>The active requests that have been counted and have not failed.\<close>

definition pending :: "(place \<times> Request) list \<Rightarrow> nat" where
  "pending rs = length (filter (\<lambda>(p, _). p = AtProxy \<or> p = Leaving False) rs)"

lemma pending_simps [simp]:
  "pending [] = 0" "pending ((p, er) # rs) = of_bool (p = AtProxy \<or> p = Leaving False) + pending rs"
  "pending (xs @ ys) = pending xs + pending ys"
  by (simp_all add: pending_def)

lemma pending_le: "pending rs \<le> length rs"
  by (simp add: pending_def)

section \<open>The invariant\<close>

definition counters_inv :: "Handler \<Rightarrow> system \<Rightarrow> bool" where
  "counters_inv h0 s \<longleftrightarrow>
     fixed_part (s_handler s) = fixed_part h0 \<and>
     h_inflight (s_handler s) = word_of_nat (length (s_active s)) \<and>
     h_forwarded (s_handler s) = word_of_nat (s_started s) \<and>
     h_unavailable (s_handler s) = word_of_nat (s_failed s) \<and>
     s_failed s + pending (s_active s) \<le> s_started s \<and>
     (\<forall>(p, er) \<in> set (s_active s). upstream_request h0 er \<noteq> None)"

text \<open>The request sent upstream depends on the fixed part of the handler only.\<close>

lemma upstream_request_fixed:
  assumes "fixed_part h = fixed_part h0" shows "upstream_request h r = upstream_request h0 r"
proof -
  have "Rewrite h = Rewrite h0" using assms by (intro ext) (simp add: Rewrite_def fixed_part_def)
  then show ?thesis by (simp add: upstream_request_def)
qed

lemma serve_route_Forward:
  assumes "handler_ok h" "serve_route h r = Forward r'"
  shows "upstream_request h (forward_clone r') \<noteq> None"
proof -
  from assms(2) obtain p where p: "canonical (Some r) = Some p" "authorized r (h_authorization h)"
    by (auto simp: serve_route_def split: option.splits if_splits)
  then obtain u where u: "plain_request r u" "p = u_Path u" unfolding canonical_Some by blast
  have "p = u_Path (req_URL r)" using u by (simp add: plain_request_def req_URL_def)
  from serve_route_allowlisted [OF p this] assms(2) u(2)
  have "(u_Path u, q_Method r) \<in> set allowlist" "r' = engine_request r" by auto
  with upstream_request_reached [OF assms(1) u(1)] show ?thesis
    using upstream_request_fixed [OF fixed_part_steps(1)] by (fastforce simp: forward_begin_def)
qed

lemma finish_proxy_counters:
  "h_inflight (fst (finish_proxy h sent rt w)) = h_inflight h"
  "h_forwarded (fst (finish_proxy h sent rt w)) = h_forwarded h"
  "h_unavailable (fst (finish_proxy h sent rt w)) = h_unavailable h + of_bool (counts_failure sent rt)"
  by (cases rt; auto simp: finish_proxy_def ErrorHandler_def counts_failure_def proxy_response_def Let_def split: proxied.splits)+

lemma atomic_fields [simp]:
  "h_inflight (forward_enter h) = h_inflight h + 1" "h_inflight (forward_end h) = h_inflight h - 1"
  "h_inflight (forward_count h) = h_inflight h" "h_forwarded (forward_enter h) = h_forwarded h"
  "h_forwarded (forward_count h) = h_forwarded h + 1" "h_forwarded (forward_end h) = h_forwarded h"
  "h_unavailable (forward_enter h) = h_unavailable h" "h_unavailable (forward_count h) = h_unavailable h"
  "h_unavailable (forward_end h) = h_unavailable h"
  "fixed_part (forward_enter h) = fixed_part h" "fixed_part (forward_count h) = fixed_part h"
  by (simp_all add: forward_enter_def forward_count_def forward_end_def fixed_part_def)

lemma counters_inv_step:
  assumes "handler_ok h0" "counters_inv h0 s" "step s t"
  shows "counters_inv h0 t"
  using assms(3)
proof cases
  case (enter r r')
  have fixed: "fixed_part (s_handler s) = fixed_part h0" using assms(2) by (simp add: counters_inv_def)
  have ok: "handler_ok (s_handler s)" using assms(1) by (simp add: handler_ok_fixed [OF fixed])
  have "upstream_request h0 (forward_clone r') \<noteq> None"
    using serve_route_Forward [OF ok enter(2)] upstream_request_fixed [OF fixed] by simp
  then show ?thesis using assms(2) by (simp add: enter(1) counters_inv_def)
next
  case (counted xs er ys)
  then show ?thesis using assms(2) by (simp add: counters_inv_def)
next
  case (proxied xs er ys out rt w h rep)
  have h: "h = fst (finish_proxy (s_handler s) (q_Header out) rt w)" using proxied(4) by simp
  show ?thesis using assms(2) proxied(2)
    by (cases "counts_failure (q_Header out) rt") (simp_all add: proxied(1) counters_inv_def h finish_proxy_counters)
next
  case (leave xs failed er ys)
  then show ?thesis using assms(2) by (cases failed) (simp_all add: counters_inv_def)
qed

lemma counters_inv_reachable:
  assumes "New cfg reporter now = Inr h0" "step\<^sup>*\<^sup>* (initial h0) s"
  shows "counters_inv h0 s"
  using assms(2)
proof induction
  case base
  show ?case using assms(1)
    by (auto simp: initial_def counters_inv_def New_def split: option.splits if_splits)
next
  case (step s t)
  then show ?case using counters_inv_step New_ok [OF assms(1)] by blast
qed

text \<open>Every active request can finish by itself.\<close>

lemma request_finishes:
  assumes "counters_inv h0 s" "s_active s = xs @ (p, er) # ys"
  shows "\<exists>t. step\<^sup>*\<^sup>* s t \<and> s_active t = xs @ ys"
proof -
  have leave: "\<exists>t. step\<^sup>*\<^sup>* s t \<and> s_active t = xs @ ys" if "s_active s = xs @ (Leaving f, er) # ys" for s f
    using step.leave [OF that] by (intro exI conjI) (rule r_into_rtranclp, assumption, simp)
  have at: "\<exists>t. step\<^sup>*\<^sup>* s t \<and> s_active t = xs @ ys" if "s_active s = xs @ (AtProxy, er) # ys" "fixed_part (s_handler s) = fixed_part h0" for s
  proof -
    note act = that(1) and fixed = that(2)
    obtain out where "upstream_request (s_handler s) er = Some out"
      using assms upstream_request_fixed [OF fixed] by (auto simp: counters_inv_def)
    from step.proxied [OF act this surjective_pairing [of "finish_proxy (s_handler s) (q_Header out) (RtError True) new_writer"]]
    obtain t f where t: "step s t" "s_active t = xs @ (Leaving f, er) # ys" by fastforce
    from leave [OF t(2)] t(1) show ?thesis by (meson converse_rtranclp_into_rtranclp)
  qed
  show ?thesis
  proof (cases p)
    case Entered
    with step.counted [of s xs er ys] assms(2) obtain t where t: "step s t" "s_active t = xs @ (AtProxy, er) # ys"
      "s_handler t = forward_count (s_handler s)" by fastforce
    then have "fixed_part (s_handler t) = fixed_part h0" using assms(1) by (simp add: counters_inv_def)
    from at [OF t(2) this] t(1) show ?thesis by (meson converse_rtranclp_into_rtranclp)
  next
    case AtProxy
    with at [of s] assms show ?thesis by (simp add: counters_inv_def)
  next
    case (Leaving f)
    with leave assms(2) show ?thesis by simp
  qed
qed

text \<open>C21: in every state that overlapping requests can reach from a new handler, whatever the order of their
  atomic changes, the in-flight counter is the number of active requests, the other two counters are
  the requests counted as forwarded and the failures so far, all modulo the counters' width; the
  failures, together with the requests that are counted and have not failed, never exceed the forwarded
  ones, the configuration has not changed, and every active request can finish.\<close>

theorem counters_count:
  assumes "New cfg reporter now = Inr h0" and "step\<^sup>*\<^sup>* (initial h0) s"
  shows "fixed_part (s_handler s) = fixed_part h0 \<and>
    h_inflight (s_handler s) = word_of_nat (length (s_active s)) \<and>
    h_forwarded (s_handler s) = word_of_nat (s_started s) \<and>
    h_unavailable (s_handler s) = word_of_nat (s_failed s) \<and>
    s_failed s + pending (s_active s) \<le> s_started s \<and>
    (\<forall>xs p er ys. s_active s = xs @ (p, er) # ys \<longrightarrow> (\<exists>t. step\<^sup>*\<^sup>* s t \<and> s_active t = xs @ ys))"
proof -
  have inv: "counters_inv h0 s" by (rule counters_inv_reachable [OF assms])
  with request_finishes [OF inv] show ?thesis by (simp add: counters_inv_def)
qed

text \<open>A request that has entered and is not yet counted.\<close>

lemma sample_entered:
  "\<exists>er. step (initial sample_handler) ((initial sample_handler)\<lparr>s_handler := forward_enter sample_handler, s_active := [(Entered, er)]\<rparr>)"
proof -
  let ?r = "sample_request ''GET'' ''/v1/models''"
  have "(u_Path (sample_URL ''/v1/models''), q_Method ?r) \<in> set allowlist"
    by (simp add: sample_URL_def sample_request_def allowlist_def)
  from canonical_allowlisted [OF sample_plain(1) this] have c: "canonical (Some ?r) = Some (u_Path (req_URL ?r))"
    by (simp add: sample_request_def sample_URL_def req_URL_def)
  have "authorized ?r (h_authorization sample_handler)"
    using sample_plain(3) by (simp add: authorized_iff sample_handler_def)
  from serve_route_allowlisted [OF c this refl]
  have "serve_route sample_handler ?r = Forward (engine_request ?r)"
    by (simp add: sample_request_def sample_URL_def req_URL_def allowlist_def)
  with step.enter [of "initial sample_handler" ?r] show ?thesis by (auto simp: initial_def)
qed

theorem counters_count_witness:
  "New sample_config True 0 = Inr sample_handler \<and>
   (\<exists>s. step\<^sup>*\<^sup>* (initial sample_handler) s \<and> length (s_active s) = 1 \<and> h_inflight (s_handler s) = 1)"
proof -
  obtain er where "step (initial sample_handler) ((initial sample_handler)\<lparr>s_handler := forward_enter sample_handler, s_active := [(Entered, er)]\<rparr>)"
    (is "step _ ?s") using sample_entered by blast
  then have "step\<^sup>*\<^sup>* (initial sample_handler) ?s" by (rule r_into_rtranclp)
  with counters_count [OF sample_New this] sample_New show ?thesis by (intro conjI exI [of _ ?s]) simp_all
qed

section \<open>Requests one after another\<close>

text \<open>Whether a request that was served has been counted as a failure.\<close>

definition failed_at :: "environment \<Rightarrow> Request option \<Rightarrow> bool" where
  "failed_at env sent = (case sent of None \<Rightarrow> False | Some out \<Rightarrow> counts_failure (q_Header out) (e_transport env out))"

text \<open>The steps of one request served without interruption.\<close>

lemma ServeHTTP_steps:
  assumes "handler_ok (s_handler s)" "ServeHTTP env (s_handler s) w r = (h', rep, sent)"
  shows "\<exists>t. step\<^sup>*\<^sup>* s t \<and> s_handler t = h' \<and> s_active t = s_active s \<and>
    s_started t = s_started s + of_bool (sent \<noteq> None) \<and> s_failed t = s_failed s + of_bool (failed_at env sent)"
proof (cases "\<exists>r'. serve_route (s_handler s) r = Forward r'")
  case False
  then have "h' = s_handler s \<and> sent = None" using assms(2) by (cases "serve_route (s_handler s) r") (auto simp: ServeHTTP_def)
  then show ?thesis by (intro exI [of _ s]) (simp add: failed_at_def)
next
  case True
  then obtain r' where r': "serve_route (s_handler s) r = Forward r'" by blast
  let ?h = "s_handler s" and ?er = "forward_clone r'"
  let ?h1 = "forward_count (forward_enter ?h)"
  obtain out where out: "upstream_request ?h1 ?er = Some out"
    using serve_route_Forward [OF assms(1) r'] upstream_request_fixed [of ?h1 ?h] by auto
  let ?fp = "finish_proxy ?h1 (q_Header out) (e_transport env out) w"
  let ?failed = "counts_failure (q_Header out) (e_transport env out)"
  have res: "h' = forward_end (fst ?fp)" "sent = Some out"
    using assms(2) r' out by (auto simp: ServeHTTP_def forward_def forward_begin_def split_beta)
  let ?s1 = "s\<lparr>s_handler := forward_enter ?h, s_active := (Entered, ?er) # s_active s\<rparr>"
  let ?s2 = "?s1\<lparr>s_handler := forward_count (s_handler ?s1), s_active := [] @ (AtProxy, ?er) # s_active s, s_started := Suc (s_started ?s1)\<rparr>"
  let ?s3 = "?s2\<lparr>s_handler := fst ?fp, s_active := [] @ (Leaving ?failed, ?er) # s_active s, s_failed := s_failed ?s2 + of_bool ?failed\<rparr>"
  let ?s4 = "?s3\<lparr>s_handler := forward_end (s_handler ?s3), s_active := [] @ s_active s\<rparr>"
  have "step s ?s1" by (rule step.enter [OF r'])
  moreover have "step ?s1 ?s2" by (rule step.counted) simp
  moreover have "step ?s2 ?s3" by (rule step.proxied [where w = w and rep = "snd ?fp"]) (simp_all add: out)
  moreover have "step ?s3 ?s4" by (rule step.leave) simp
  ultimately have "step\<^sup>*\<^sup>* s ?s4" by (meson converse_rtranclp_into_rtranclp rtranclp.rtrancl_refl)
  then show ?thesis by (intro exI conjI, assumption) (simp_all add: res failed_at_def)
qed

text \<open>Requests served one after another, each with its own environment and writer; the counts are of those
  that reached the transport and of those that failed there.\<close>

fun serve_all ::
  "(environment \<times> ResponseWriter \<times> Request) list \<Rightarrow> Handler \<Rightarrow> nat \<Rightarrow> nat \<Rightarrow> Handler \<times> nat \<times> nat" where
  "serve_all [] h n f = (h, n, f)"
| "serve_all ((env, w, r) # js) h n f =
     (case ServeHTTP env h w r of
        (h', rep, sent) \<Rightarrow> serve_all js h' (n + of_bool (sent \<noteq> None)) (f + of_bool (failed_at env sent)))"

lemma serve_all_steps:
  assumes "counters_inv h0 s" "handler_ok h0" "serve_all js (s_handler s) (s_started s) (s_failed s) = (h', n, f)"
  shows "\<exists>t. counters_inv h0 t \<and> s_handler t = h' \<and> s_active t = s_active s \<and> s_started t = n \<and> s_failed t = f"
  using assms(1,3)
proof (induction js arbitrary: s)
  case (Cons j js)
  obtain env w r where j: "j = (env, w, r)" by (cases j)
  obtain h1 rep sent where run: "ServeHTTP env (s_handler s) w r = (h1, rep, sent)" by (cases "ServeHTTP env (s_handler s) w r")
  have "handler_ok (s_handler s)" using assms(2) handler_ok_fixed Cons.prems(1) by (metis counters_inv_def)
  from ServeHTTP_steps [OF this run] obtain t where t: "step\<^sup>*\<^sup>* s t" "s_handler t = h1" "s_active t = s_active s"
    "s_started t = s_started s + of_bool (sent \<noteq> None)" "s_failed t = s_failed s + of_bool (failed_at env sent)" by blast
  have "counters_inv h0 t" using t(1) Cons.prems(1)
    by induction (use counters_inv_step [OF assms(2)] in blast)+
  moreover have "serve_all js (s_handler t) (s_started t) (s_failed t) = (h', n, f)" using Cons.prems(2) j run t(2,4,5) by simp
  ultimately show ?case using Cons.IH [of t] t(3) by simp
qed auto

text \<open>C22: after any requests served one after another by a new handler nothing is in flight, the forwarded
  counter is the number of requests that reached the transport, the unavailable counter is the number of
  those that failed there without the client having canceled them, and the configuration is unchanged.\<close>

theorem sequential_service:
  assumes "New cfg reporter now = Inr h0" and "serve_all js h0 0 0 = (h, n, f)"
  shows "h_inflight h = 0 \<and> h_forwarded h = word_of_nat n \<and> h_unavailable h = word_of_nat f \<and> f \<le> n \<and>
    fixed_part h = fixed_part h0"
proof -
  have inv: "counters_inv h0 (initial h0)" by (rule counters_inv_reachable [OF assms(1)]) simp
  have "serve_all js (s_handler (initial h0)) (s_started (initial h0)) (s_failed (initial h0)) = (h, n, f)"
    using assms(2) by (simp add: initial_def)
  from serve_all_steps [OF inv _ this] New_ok [OF assms(1)] show ?thesis
    by (auto simp: counters_inv_def initial_def)
qed

theorem sequential_service_witness:
  "\<exists>h. serve_all [(sample_env (RtError False), new_writer, sample_request ''GET'' ''/v1/models''),
        (sample_env (RtError True), new_writer, sample_request ''GET'' ''/v1/models'')] sample_handler 0 0 = (h, 2, 1) \<and>
     h_inflight h = 0 \<and> h_forwarded h = 2 \<and> h_unavailable h = 1"
proof -
  have served: "\<exists>h' rep out. ServeHTTP (sample_env rt) h new_writer (sample_request ''GET'' ''/v1/models'') = (h', rep, Some out) \<and>
      fixed_part h' = fixed_part sample_handler" if "fixed_part h = fixed_part sample_handler" for h rt
    using sample_served [OF that] ServeHTTP_fixed that by metis
  have failed: "failed_at (sample_env (RtError c)) (Some out) \<longleftrightarrow> \<not> c" for c out
    by (simp add: failed_at_def counts_failure_def sample_env_def)
  obtain h1 rep1 out1 where s1: "ServeHTTP (sample_env (RtError False)) sample_handler new_writer (sample_request ''GET'' ''/v1/models'') =
      (h1, rep1, Some out1)" "fixed_part h1 = fixed_part sample_handler" using served by blast
  obtain h2 rep2 out2 where s2: "ServeHTTP (sample_env (RtError True)) h1 new_writer (sample_request ''GET'' ''/v1/models'') =
      (h2, rep2, Some out2)" using served [OF s1(2)] by blast
  have "serve_all [(sample_env (RtError False), new_writer, sample_request ''GET'' ''/v1/models''),
      (sample_env (RtError True), new_writer, sample_request ''GET'' ''/v1/models'')] sample_handler 0 0 = (h2, 2, 1)"
    by (simp add: s1 s2 failed)
  from sequential_service [OF sample_New this] this show ?thesis by simp
qed

section \<open>The metrics document\<close>

lemma started_mono: "step\<^sup>*\<^sup>* s t \<Longrightarrow> s_started s \<le> s_started t"
  by (induction rule: rtranclp_induct) (auto elim!: step.cases)

text \<open>C23: the metrics document prints the number of requests in flight, forwarded and failed as they are when
  each is loaded, one after another, while other requests go on in between, as long as fewer than 2^63
  requests have been forwarded.\<close>

theorem metrics_document:
  assumes "New cfg reporter now = Inr h0"
    and "step\<^sup>*\<^sup>* (initial h0) s1" and "step\<^sup>*\<^sup>* s1 s2" and "step\<^sup>*\<^sup>* s2 s3"
    and "s_started s3 < 2 ^ 63" and "length (s_active s1) < 2 ^ 63"
  shows "w_body (metrics env (s_handler s1) (s_handler s2) (s_handler s3) new_writer) =
    ''tail_info{implementation='' @ DQUOTE # ''thin'' @ DQUOTE # ''} 1'' @ LF #
    ''tail_uptime_seconds '' @ format_fixed6 (duration_seconds (e_now env - now)) @ LF #
    ''tail_inflight '' @ show_int (int (length (s_active s1))) @ LF #
    ''tail_forwarded_total '' @ show_int (int (s_started s2)) @ LF #
    ''tail_transport_unavailable_total '' @ show_int (int (s_failed s3)) @ [LF]"
proof -
  have inv: "counters_inv h0 s1" "counters_inv h0 s2" "counters_inv h0 s3"
    using counters_inv_reachable [OF assms(1)] assms(2-4) by (meson rtranclp_trans)+
  then have bounds: "s_started s2 < 2 ^ 63" "s_failed s3 < 2 ^ 63"
    using assms(5) started_mono [OF assms(4)] by (simp_all add: counters_inv_def)
  have "uint (word_of_nat n :: 64 word) = int n" if "n < 2 ^ 63" for n
    using that by (simp add: unsigned_of_nat take_bit_nat_eq_self)
  moreover have "sint (word_of_nat n :: 64 word) = int n" if "n < 2 ^ 63" for n
    using that by (simp add: signed_of_nat take_bit_int_eq_self signed_take_bit_int_eq_self)
  moreover have "h_started h0 = now" using assms(1) by (auto simp: New_def split: option.splits if_splits)
  ultimately show ?thesis using inv bounds assms(6)
    by (simp add: metrics_def Let_def counters_inv_def fixed_part_def)
qed

theorem metrics_document_witness:
  "\<exists>s. step\<^sup>*\<^sup>* (initial sample_handler) s \<and> length (s_active s) = 1 \<and>
     w_body (metrics (sample_env (RtError False)) sample_handler (s_handler s) (s_handler s) new_writer) =
    ''tail_info{implementation='' @ DQUOTE # ''thin'' @ DQUOTE # ''} 1'' @ LF #
    ''tail_uptime_seconds '' @ format_fixed6 (duration_seconds (5 * 10 ^ 8)) @ LF # ''tail_inflight 0'' @ LF #
    ''tail_forwarded_total 0'' @ LF # ''tail_transport_unavailable_total 0'' @ [LF]"
proof -
  have up: "e_now (sample_env (RtError False)) - 0 = 5 * 10 ^ 8" by (simp add: sample_env_def)
  have zero: "show_int 0 = ''0''" by code_simp
  obtain er where "step (initial sample_handler) ((initial sample_handler)\<lparr>s_handler := forward_enter sample_handler, s_active := [(Entered, er)]\<rparr>)"
    (is "step _ ?s") using sample_entered by blast
  then have s: "step\<^sup>*\<^sup>* (initial sample_handler) ?s" by (rule r_into_rtranclp)
  have "s_handler (initial sample_handler) = sample_handler" "s_active (initial sample_handler) = []" by (simp_all add: initial_def)
  with metrics_document [OF sample_New rtranclp.rtrancl_refl s rtranclp.rtrancl_refl, of "sample_env (RtError False)"]
  have "w_body (metrics (sample_env (RtError False)) sample_handler (s_handler ?s) (s_handler ?s) new_writer) =
    ''tail_info{implementation='' @ DQUOTE # ''thin'' @ DQUOTE # ''} 1'' @ LF #
    ''tail_uptime_seconds '' @ format_fixed6 (duration_seconds (5 * 10 ^ 8)) @ LF # ''tail_inflight 0'' @ LF #
    ''tail_forwarded_total 0'' @ LF # ''tail_transport_unavailable_total 0'' @ [LF]"
    unfolding up by (simp add: initial_def zero)
  with s show ?thesis by (intro exI [of _ ?s]) simp
qed

end
