(* ===== verification/Go_Crypto.thy ===== *)
theory Go_Crypto
  imports Go_Encoding
begin

text \<open>
  \<open>crypto/sha256.Sum256\<close> and \<open>encoding/base64.StdEncoding\<close>, as far as the attestation package uses
  them. The constants of SHA-256 are computed the way the standard defines them: the first 32 bits of
  the fractional parts of the cube roots (the rounds) and square roots (the initial state) of the first
  primes.
\<close>

unbundle bit_operations_syntax

section \<open>SHA-256\<close>

definition first_primes :: "int list" where
  "first_primes =
     [2, 3, 5, 7, 11, 13, 17, 19, 23, 29, 31, 37, 41, 43, 47, 53, 59, 61, 67, 71, 73, 79, 83, 89, 97,
      101, 103, 107, 109, 113, 127, 131, 137, 139, 149, 151, 157, 163, 167, 173, 179, 181, 191, 193, 197,
      199, 211, 223, 227, 229, 233, 239, 241, 251, 257, 263, 269, 271, 277, 281, 283, 293, 307, 311]"

text \<open>The integer \<open>e\<close>-th root, bit by bit.\<close>

fun root_search :: "nat \<Rightarrow> int \<Rightarrow> nat \<Rightarrow> int \<Rightarrow> int" where
  "root_search e n 0 r = r"
| "root_search e n (Suc b) r = (let t = r + 2 ^ b in root_search e n b (if t ^ e \<le> n then t else r))"

definition root_fraction :: "nat \<Rightarrow> int \<Rightarrow> 32 word" where
  "root_fraction e p = word_of_int (root_search e (p * 2 ^ (32 * e)) 40 0)"

definition sha256_rounds :: "32 word list" where
  "sha256_rounds = map (root_fraction 3) first_primes"

definition sha256_start :: "32 word list" where
  "sha256_start = map (root_fraction 2) (take 8 first_primes)"

definition sha_ch :: "32 word \<Rightarrow> 32 word \<Rightarrow> 32 word \<Rightarrow> 32 word" where
  "sha_ch x y z = (x AND y) XOR (NOT x AND z)"

definition sha_maj :: "32 word \<Rightarrow> 32 word \<Rightarrow> 32 word \<Rightarrow> 32 word" where
  "sha_maj x y z = (x AND y) XOR (x AND z) XOR (y AND z)"

definition rotations :: "nat \<Rightarrow> nat \<Rightarrow> 32 word \<Rightarrow> 32 word" where
  "rotations a b x = word_rotr a x XOR word_rotr b x"

text \<open>The message schedule, latest word first.\<close>

fun sha_schedule :: "nat \<Rightarrow> 32 word list \<Rightarrow> 32 word list" where
  "sha_schedule 0 ws = ws"
| "sha_schedule (Suc n) ws =
     (let s1 = rotations 17 19 (ws ! 1) XOR drop_bit 10 (ws ! 1);
          s0 = rotations 7 18 (ws ! 14) XOR drop_bit 3 (ws ! 14)
      in sha_schedule n ((s1 + ws ! 6 + s0 + ws ! 15) # ws))"

fun sha_round :: "32 word \<times> 32 word \<Rightarrow> 32 word list \<Rightarrow> 32 word list" where
  "sha_round (k, w) [a, b, c, d, e, f, g, h] =
     (let t1 = h + (rotations 6 11 e XOR word_rotr 25 e) + sha_ch e f g + k + w;
          t2 = (rotations 2 13 a XOR word_rotr 22 a) + sha_maj a b c
      in [t1 + t2, a, b, c, d + t1, e, f, g])"
| "sha_round kw st = st"

definition word_of_bytes :: "bytes \<Rightarrow> 32 word" where
  "word_of_bytes s = foldl (\<lambda>a c. push_bit 8 a OR word_of_nat (code c)) 0 s"

definition bytes_of_word :: "32 word \<Rightarrow> bytes" where
  "bytes_of_word w = map (\<lambda>i. char_of (unat (drop_bit i w) mod 256)) [24, 16, 8, 0]"


text \<open>A list in pieces of \<open>n\<close>, the last one possibly shorter.\<close>

function pieces :: "nat \<Rightarrow> 'a list \<Rightarrow> 'a list list" where
  "pieces n s = (if s = [] \<or> n = 0 then [] else take n s # pieces n (drop n s))"
  by auto
termination by (relation "measure (\<lambda>(n, s). length s)") auto

declare pieces.simps [simp del]

lemma concat_pieces: "0 < n \<Longrightarrow> concat (pieces n s) = s"
  by (induction n s rule: pieces.induct) (subst pieces.simps, simp)

definition sha_block :: "bytes \<Rightarrow> 32 word list \<Rightarrow> 32 word list" where
  "sha_block b st =
     (let ws = rev (sha_schedule 48 (rev (map word_of_bytes (pieces 4 b))))
      in map2 (+) st (fold sha_round (zip sha256_rounds ws) st))"

definition sha_padding :: "nat \<Rightarrow> bytes" where
  "sha_padding n =
     CHR 0x80 # replicate ((119 - n mod 64) mod 64) (CHR 0x00) @
     map (\<lambda>i. char_of (8 * n div 256 ^ i mod 256)) [7, 6, 5, 4, 3, 2, 1, 0]"

definition Sum256 :: "bytes \<Rightarrow> bytes" where
  "Sum256 s = concat (map bytes_of_word (fold sha_block (pieces 64 (s @ sha_padding (length s))) sha256_start))"

lemma length_sha_round: "length (sha_round kw st) = length st"
  by (induction kw st rule: sha_round.induct) (simp_all add: Let_def)

lemma length_sha_rounds: "length (fold sha_round kws st) = length st"
  by (induction kws arbitrary: st) (simp_all add: length_sha_round)

lemma length_sha_block: "length (sha_block b st) = length st"
  by (simp add: sha_block_def Let_def length_sha_rounds)

lemma length_sha_start: "length sha256_start = 8"
  by (simp add: sha256_start_def first_primes_def)

lemma length_Sum256 [simp]: "length (Sum256 s) = 32"
proof -
  have "length (fold sha_block bs st) = length st" for bs st
    by (induction bs arbitrary: st) (simp_all add: length_sha_block)
  moreover have "length (concat (map bytes_of_word ws)) = 4 * length ws" for ws
    by (induction ws) (simp_all add: bytes_of_word_def)
  ultimately show ?thesis by (simp add: Sum256_def length_sha_start)
qed

section \<open>Base64\<close>

text \<open>The alphabet: capitals, small letters, digits, plus and slash.\<close>

definition base64_digit :: "nat \<Rightarrow> byte" where
  "base64_digit n =
     (let m = n mod 64 in
      char_of (if m < 26 then m + 65 else if m < 52 then m + 71 else if m < 62 then m - 4 else if m = 62 then 43 else 47))"

fun base64_encode :: "bytes \<Rightarrow> bytes" where
  "base64_encode [] = []"
| "base64_encode [a] = [base64_digit (code a div 4), base64_digit (code a * 16), CHR ''='', CHR ''='']"
| "base64_encode [a, b] =
     [base64_digit (code a div 4), base64_digit (code a * 16 + code b div 16), base64_digit (code b * 4), CHR ''='']"
| "base64_encode (a # b # c # s) =
     [base64_digit (code a div 4), base64_digit (code a * 16 + code b div 16),
      base64_digit (code b * 4 + code c div 64), base64_digit (code c)] @ base64_encode s"

definition base64_value :: "byte \<Rightarrow> nat option" where
  "base64_value c =
     (let n = code c in
      if 65 \<le> n \<and> n \<le> 90 then Some (n - 65) else if 97 \<le> n \<and> n \<le> 122 then Some (n - 71)
      else if 48 \<le> n \<and> n \<le> 57 then Some (n + 4) else if n = 43 then Some 62
      else if n = 47 then Some 63 else None)"

text \<open>Four digits at a time; padding ends the text.\<close>

fun base64_groups :: "bytes \<Rightarrow> bytes option" where
  "base64_groups [] = Some []"
| "base64_groups (w # x # y # z # s) =
     (case (base64_value w, base64_value x) of
        (Some p, Some q) \<Rightarrow>
          if y = CHR ''='' then
            (if z = CHR ''='' \<and> s = [] then Some [char_of (p * 4 + q div 16)] else None)
          else
            (case base64_value y of
               None \<Rightarrow> None
             | Some r \<Rightarrow>
                 if z = CHR ''='' then
                   (if s = [] then Some [char_of (p * 4 + q div 16), char_of (q mod 16 * 16 + r div 4)] else None)
                 else
                   (case (base64_value z, base64_groups s) of
                      (Some t, Some out) \<Rightarrow>
                        Some (char_of (p * 4 + q div 16) # char_of (q mod 16 * 16 + r div 4) # char_of (r mod 4 * 64 + t) # out)
                    | _ \<Rightarrow> None))
      | _ \<Rightarrow> None)"
| "base64_groups _ = None"

definition base64_decode :: "bytes \<Rightarrow> bytes option" where
  "base64_decode s = base64_groups (filter (\<lambda>c. c \<noteq> CR \<and> c \<noteq> LF) s)"

text \<open>Encoding and decoding are inverse, and the text holds digits and padding only.\<close>

lemma base64_value_digit [simp]: "base64_value (base64_digit n) = Some (n mod 64)"
proof -
  define m where "m = n mod 64"
  have m: "m < 64" by (simp add: m_def)
  then have "code (base64_digit n) =
    (if m < 26 then m + 65 else if m < 52 then m + 71 else if m < 62 then m - 4 else if m = 62 then 43 else 47)"
    unfolding base64_digit_def Let_def m_def [symmetric] by (intro code_char_of) auto
  with m have "base64_value (base64_digit n) = Some m" unfolding base64_value_def Let_def by auto
  then show ?thesis by (simp add: m_def)
qed

lemma base64_value_special [simp]:
  "base64_value (CHR ''='') = None" "base64_value (CHR ''-'') = None" "base64_value (CHR '':'') = None"
  "base64_value CR = None" "base64_value LF = None" "base64_value TAB = None" "base64_value (CHR '' '') = None"
  by (simp_all add: base64_value_def code_def)

lemma base64_digit_not_pad [simp]: "base64_digit n \<noteq> CHR ''=''"
  using base64_value_digit [of n] base64_value_special(1) by (metis option.distinct(1))

lemma base64_encode_chars: "c \<in> set (base64_encode s) \<Longrightarrow> c = CHR ''='' \<or> base64_value c \<noteq> None"
  by (induction s rule: base64_encode.induct) auto

lemma base64_encode_clean [simp]:
  "CR \<notin> set (base64_encode s)" "LF \<notin> set (base64_encode s)" "TAB \<notin> set (base64_encode s)" "CHR '' '' \<notin> set (base64_encode s)"
  "CHR ''-'' \<notin> set (base64_encode s)" "CHR '':'' \<notin> set (base64_encode s)"
  by (auto dest: base64_encode_chars)

text \<open>Putting the six-bit groups of three bytes together again.\<close>

lemma mod_high:
  fixes a k m r :: nat
  assumes "r < k"
  shows "(a * k + r) mod (k * m) = a mod m * k + r"
  using assms by (simp add: mod_mult2_eq)

lemma base64_parts:
  fixes a b :: nat
  assumes "b < 256"
  shows "(a * 16 + b div 16) mod 64 = a mod 4 * 16 + b div 16" "(a * 4 + b div 64) mod 64 = a mod 16 * 4 + b div 64"
    "a * 16 mod 64 = a mod 4 * 16" "a * 4 mod 64 = a mod 16 * 4"
  using assms mod_high [of "b div 16" 16 a 4] mod_high [of "b div 64" 4 a 16] mod_high [of 0 16 a 4] mod_high [of 0 4 a 16]
  by simp_all

lemma six_bits:
  fixes x b :: nat
  assumes "b < 256"
  shows "b div 4 mod 64 = b div 4" "b div 16 mod 16 = b div 16" "b div 64 mod 4 = b div 64" "(x * 16 + b div 16) div 16 = x" "(x * 16 + b div 16) mod 16 = b div 16"
    "(x * 4 + b div 64) div 4 = x" "(x * 4 + b div 64) mod 4 = b div 64"
proof -
  have "b div 4 < 64" "b div 16 < 16" "b div 64 < 4" using assms by auto
  then show "b div 4 mod 64 = b div 4" "b div 16 mod 16 = b div 16" "b div 64 mod 4 = b div 64" "(x * 16 + b div 16) div 16 = x" "(x * 16 + b div 16) mod 16 = b div 16"
    "(x * 4 + b div 64) div 4 = x" "(x * 4 + b div 64) mod 4 = b div 64" by simp_all
qed

lemmas base64_bits = base64_parts [OF code_less_256] six_bits [OF code_less_256]

lemma base64_groups_encode: "base64_groups (base64_encode s) = Some s"
proof (induction s rule: base64_encode.induct)
  case (4 a b c s)
  then show ?case by (simp add: base64_bits)
next
  case (3 a b)
  show ?case by (simp add: base64_bits)
next
  case (2 a)
  show ?case by (simp add: base64_bits)
qed simp

lemma base64_decode_lines:
  assumes "filter (\<lambda>c. c \<noteq> CR \<and> c \<noteq> LF) t = base64_encode s"
  shows "base64_decode t = Some s"
  by (simp add: base64_decode_def assms base64_groups_encode)

text \<open>Every text of whole groups of digits is the encoding of something, and so is one that ends with a
  padded group whose last digit has no bits left over.\<close>

lemma base64_digit_value: "base64_value c = Some v \<Longrightarrow> base64_digit v = c \<and> v < 64"
  by (auto simp: base64_value_def base64_digit_def Let_def split: if_splits intro!: code_inj simp: code_char_of)

lemma base64_group:
  assumes "base64_value w = Some p" "base64_value x = Some q" "base64_value y = Some r" "base64_value z = Some t"
  shows "base64_encode [char_of (p * 4 + q div 16), char_of (q mod 16 * 16 + r div 4), char_of (r mod 4 * 64 + t)] = [w, x, y, z]"
    "r mod 4 = 0 \<Longrightarrow> base64_encode [char_of (p * 4 + q div 16), char_of (q mod 16 * 16 + r div 4)] = [w, x, y, CHR ''='']"
proof -
  note d = assms [THEN base64_digit_value]
  have lt: "p < 64" "q < 64" "r < 64" "t < 64" using d by auto
  have q4: "q div 16 < 4" "r div 4 < 16" "q mod 16 < 16" "r mod 4 < 4" using lt by auto
  have "p * 4 + q div 16 < 256" "q mod 16 * 16 + r div 4 < 256" "r mod 4 * 64 + t < 256" using lt q4 by linarith+
  note codes = this [THEN code_char_of]
  have parts: "(p * 4 + q div 16) div 4 = p" "(p * 4 + q div 16) * 16 mod 64 = q div 16 * 16"
    "(q mod 16 * 16 + r div 4) div 16 = q mod 16" "(q mod 16 * 16 + r div 4) * 4 mod 64 = r div 4 * 4"
    "(r mod 4 * 64 + t) div 64 = r mod 4" "(r mod 4 * 64 + t) mod 64 = t"
    using lt q4 base64_parts(3) [of 0 "p * 4 + q div 16"] base64_parts(4) [of 0 "q mod 16 * 16 + r div 4"] by simp_all
  have digit: "base64_digit n = base64_digit (n mod 64)" for n by (simp add: base64_digit_def)
  have sums: "((p * 4 + q div 16) * 16 + q mod 16) mod 64 = q" "((q mod 16 * 16 + r div 4) * 4 + r mod 4) mod 64 = r"
  proof -
    have "((p * 4 + q div 16) * 16 + q mod 16) mod 64 = (p * 64 + (q div 16 * 16 + q mod 16)) mod 64" by (simp add: algebra_simps)
    then show "((p * 4 + q div 16) * 16 + q mod 16) mod 64 = q" using lt by simp
    have "((q mod 16 * 16 + r div 4) * 4 + r mod 4) mod 64 = (q mod 16 * 64 + (r div 4 * 4 + r mod 4)) mod 64" by (simp add: algebra_simps)
    then show "((q mod 16 * 16 + r div 4) * 4 + r mod 4) mod 64 = r" using lt by simp
  qed
  have third: "base64_digit (code (char_of (q mod 16 * 16 + r div 4)) * 4 + r mod 4) = y"
    using codes(2) sums(2) d(3) digit [of "(q mod 16 * 16 + r div 4) * 4 + r mod 4"] by simp
  show "base64_encode [char_of (p * 4 + q div 16), char_of (q mod 16 * 16 + r div 4), char_of (r mod 4 * 64 + t)] = [w, x, y, z]"
    using d codes sums parts digit [of "(p * 4 + q div 16) * 16 + q mod 16"] digit [of "(q mod 16 * 16 + r div 4) * 4 + r mod 4"]
      digit [of "r mod 4 * 64 + t"] by simp
  show "base64_encode [char_of (p * 4 + q div 16), char_of (q mod 16 * 16 + r div 4)] = [w, x, y, CHR ''='']" if "r mod 4 = 0"
    using d codes sums parts third that digit [of "(p * 4 + q div 16) * 16 + q mod 16"] by simp
qed

lemma dvd_Suc: "\<not> (3::nat) dvd Suc (Suc 0)" "3 dvd Suc (Suc (Suc n)) \<longleftrightarrow> 3 dvd n" "4 dvd Suc (Suc (Suc (Suc n))) \<longleftrightarrow> 4 dvd n"
  by presburger+

lemma base64_append: "3 dvd length a \<Longrightarrow> base64_encode (a @ b) = base64_encode a @ base64_encode b"
  by (induction a rule: base64_encode.induct) (simp_all add: dvd_Suc)

lemma base64_full:
  assumes "list_all (\<lambda>c. base64_value c \<noteq> None) t" "4 dvd length t"
  shows "\<exists>s. base64_encode s = t \<and> 3 dvd length s"
  using assms
proof (induction "length t" arbitrary: t rule: less_induct)
  case less
  show ?case
  proof (cases "t = []")
    case False
    with less.prems(2) have "4 \<le> length t" by (auto dest: dvd_imp_le)
    then obtain w x y z u where t: "t = w # x # y # z # u"
      by (auto simp: numeral_eq_Suc Suc_le_length_iff)
    then obtain p q r v where g: "base64_value w = Some p" "base64_value x = Some q" "base64_value y = Some r" "base64_value z = Some v"
      using less.prems(1) by auto
    have "\<exists>s. base64_encode s = u \<and> 3 dvd length s"
      by (rule less.hyps) (use less.prems t in \<open>simp_all add: dvd_Suc\<close>)
    then obtain s where s: "base64_encode s = u" "3 dvd length s" by blast
    let ?h = "[char_of (p * 4 + q div 16), char_of (q mod 16 * 16 + r div 4), char_of (r mod 4 * 64 + v)] :: bytes"
    have "base64_encode (?h @ s) = t" using base64_append [of ?h s] base64_group(1) [OF g] s(1) t by simp
    moreover have "3 dvd length (?h @ s)" using s(2) by (simp add: dvd_Suc)
    ultimately show ?thesis by blast
  qed (intro exI [of _ "[]"], simp)
qed

lemma base64_full_append:
  assumes "list_all (\<lambda>c. base64_value c \<noteq> None) t" "4 dvd length t" "\<exists>s. base64_encode s = u"
  shows "\<exists>s. base64_encode s = t @ u"
  using base64_full [OF assms(1,2)] assms(3) base64_append by metis

lemma base64_padded:
  assumes "base64_value w = Some p" "base64_value x = Some q" "base64_value y = Some r" "r mod 4 = 0"
  shows "\<exists>s. base64_encode s = [w, x, y, CHR ''='']"
  using base64_group(2) [OF assms(1-3) assms(3,4)] by blast

end
