(* ===== verification/Go_Pem.thy ===== *)
theory Go_Pem
  imports Go_Crypto Json_Encode
begin

text \<open>
  \<open>encoding/pem\<close>: \<open>Decode\<close> finds the next block of a text, \<open>EncodeToMemory\<close> prints one. The model
  follows the library as of Go 1.24.
\<close>

record Block =
  b_Type :: bytes
  b_Headers :: "(bytes \<times> bytes) list"
  b_Bytes :: bytes

definition pem_dashes :: bytes where
  "pem_dashes = ''-----''"

definition pem_start :: bytes where
  "pem_start = LF # ''-----BEGIN ''"

definition pem_end :: bytes where
  "pem_end = LF # ''-----END ''"

section \<open>Decoding\<close>

definition trim_right_blanks :: "bytes \<Rightarrow> bytes" where
  "trim_right_blanks s = rev (dropWhile (\<lambda>c. c = CHR '' '' \<or> c = TAB) (rev s))"

text \<open>A line without its end and without blanks there, and the rest.\<close>

definition getLine :: "bytes \<Rightarrow> bytes \<times> bytes" where
  "getLine s =
     (case cut LF s of (line, rest, found) \<Rightarrow>
        (trim_right_blanks (if found \<and> line \<noteq> [] \<and> last line = CR then butlast line else line), rest))"

text \<open>\<open>bytes.Index\<close>, as the text before and after the first occurrence.\<close>

fun cut_at :: "bytes \<Rightarrow> bytes \<Rightarrow> (bytes \<times> bytes) option" where
  "cut_at p [] = (if p = [] then Some ([], []) else None)"
| "cut_at p (c # s) =
     (if has_prefix p (c # s) then Some ([], drop (length p) (c # s))
      else map_option (\<lambda>(a, b). (c # a, b)) (cut_at p s))"

lemma cut_at_length: "\<lbrakk>cut_at p s = Some (a, b); p \<noteq> []\<rbrakk> \<Longrightarrow> length b < length s"
proof (induction s arbitrary: a b)
  case (Cons c s)
  then show ?case by (cases p) (fastforce split: if_splits)+
qed simp

definition pem_begin :: "bytes \<Rightarrow> bytes option" where
  "pem_begin s =
     (if has_prefix (tl pem_start) s then Some (drop (length (tl pem_start)) s) else map_option snd (cut_at pem_start s))"

lemma pem_begin_length: "pem_begin s = Some r \<Longrightarrow> length r < length s"
  using cut_at_length [of pem_start s] by (auto simp: pem_begin_def pem_start_def has_prefix_def split: if_splits dest!: arg_cong [of _ _ length])

lemma getLine_length: "s \<noteq> [] \<Longrightarrow> length (snd (getLine s)) < length s"
  using length_dropWhile_lt [of "\<lambda>c. c \<noteq> LF" s] by (auto simp: getLine_def cut_def split: list.splits)

lemma getLine_length_le: "length (snd (getLine s)) \<le> length s"
  using getLine_length [of s] by (cases s) (auto simp: getLine_def cut_def)

text \<open>Header lines, until one without a colon; \<open>None\<close> when the text ends before it.\<close>

function pem_headers :: "(bytes \<times> bytes) list \<Rightarrow> bytes \<Rightarrow> ((bytes \<times> bytes) list \<times> bytes) option" where
  "pem_headers hs rest =
     (if rest = [] then None
      else
        (case cut (CHR '':'') (fst (getLine rest)) of (key, val, found) \<Rightarrow>
           if \<not> found then Some (hs, rest)
           else pem_headers (map_put (trim_space key) (trim_space val) hs) (snd (getLine rest))))"
  by auto
termination by (relation "measure (\<lambda>(hs, rest). length rest)") (auto simp: getLine_length)

declare pem_headers.simps [simp del]

lemma pem_headers_length: "pem_headers hs s = Some (hs', r) \<Longrightarrow> length r \<le> length s"
proof (induction hs s rule: pem_headers.induct)
  case (1 hs s)
  obtain k v found where c: "cut (CHR '':'') (fst (getLine s)) = (k, v, found)" by (cases "cut (CHR '':'') (fst (getLine s))")
  have "s \<noteq> []" using "1.prems" by (subst (asm) pem_headers.simps) (auto split: if_splits)
  with c "1.prems" "1.IH" getLine_length [of s] show ?case
    by (subst (asm) pem_headers.simps) (fastforce split: if_splits)
qed

text \<open>The block after its headers: the text up to the end line, whose type must be the same.\<close>

definition pem_body :: "bytes \<Rightarrow> (bytes \<times> bytes) list \<Rightarrow> bytes \<Rightarrow> (Block \<times> bytes) option" where
  "pem_body ty hs rest =
     (case (if hs = [] \<and> has_prefix (tl pem_end) rest then Some ([], drop (length (tl pem_end)) rest) else cut_at pem_end rest) of
        None \<Rightarrow> None
      | Some (body, after) \<Rightarrow>
          let n = length ty + length pem_dashes in
          if length after < n \<or> \<not> has_prefix ty (take n after) \<or> \<not> has_suffix pem_dashes (take n after)
             \<or> fst (getLine (drop n after)) \<noteq> [] then None
          else
            (case base64_decode (filter (\<lambda>c. c \<noteq> CHR '' '' \<and> c \<noteq> TAB) body) of
               None \<Rightarrow> None
             | Some bs \<Rightarrow> Some (\<lparr>b_Type = ty, b_Headers = hs, b_Bytes = bs\<rparr>, snd (getLine after))))"

text \<open>\<open>pem.Decode\<close>: the next block and the rest of the text, or \<open>None\<close> for no block.\<close>

function pem_Decode :: "bytes \<Rightarrow> (Block \<times> bytes) option" where
  "pem_Decode s =
     (case pem_begin s of
        None \<Rightarrow> None
      | Some r1 \<Rightarrow>
          let (typeLine, r2) = getLine r1 in
          if \<not> has_suffix pem_dashes typeLine then pem_Decode r2
          else
            (case pem_headers [] r2 of
               None \<Rightarrow> None
             | Some (hs, r3) \<Rightarrow>
                 (case pem_body (take (length typeLine - length pem_dashes) typeLine) hs r3 of
                    Some (block, r4) \<Rightarrow> Some (block, r4)
                  | None \<Rightarrow> pem_Decode r3)))"
  by auto
termination
proof (relation "measure length", goal_cases)
  case (2 s r1 x typeLine r2)
  then show ?case using pem_begin_length [of s r1] getLine_length_le [of r1] by (auto dest!: arg_cong [of _ _ snd])
next
  case (3 s r1 x typeLine r2 y hs r3)
  then show ?case using pem_begin_length [of s r1] getLine_length_le [of r1] pem_headers_length [of "[]" r2 hs r3]
    by (auto dest!: arg_cong [of _ _ snd])
qed simp

declare pem_Decode.simps [simp del]

lemma pem_body_length: "pem_body ty hs s = Some (b, r) \<Longrightarrow> length r < length s"
proof -
  assume "pem_body ty hs s = Some (b, r)"
  then obtain body after where *: "(if hs = [] \<and> has_prefix (tl pem_end) s then Some ([], drop (length (tl pem_end)) s)
      else cut_at pem_end s) = Some (body, after)" "r = snd (getLine after)"
    by (auto simp: pem_body_def Let_def split: option.splits if_splits)
  have "length after < length s"
    using *(1) cut_at_length [of pem_end s] has_prefix_length [of "tl pem_end" s]
    by (auto simp: pem_end_def split: if_splits)
  with *(2) getLine_length_le [of after] show ?thesis by simp
qed

lemma pem_Decode_length: "pem_Decode s = Some (b, r) \<Longrightarrow> length r < length s"
proof (induction s rule: pem_Decode.induct)
  case (1 s)
  obtain r1 where r1: "pem_begin s = Some r1" using "1.prems" by (subst (asm) pem_Decode.simps) (auto split: option.splits)
  obtain typeLine r2 where r2: "getLine r1 = (typeLine, r2)" by (cases "getLine r1")
  have lt: "length r2 < length s" using pem_begin_length [OF r1] getLine_length_le [of r1] r2 by simp
  show ?case
  proof (cases "has_suffix pem_dashes typeLine")
    case False
    then have "pem_Decode r2 = Some (b, r)" using "1.prems" r1 r2 by (subst (asm) pem_Decode.simps) simp
    then show ?thesis using "1.IH"(1) [OF r1 refl r2 [symmetric] False] lt by simp
  next
    case True
    let ?ty = "take (length typeLine - length pem_dashes) typeLine"
    obtain hs r3 where r3: "pem_headers [] r2 = Some (hs, r3)"
      using "1.prems" r1 r2 True by (subst (asm) pem_Decode.simps) (auto split: option.splits)
    have lt3: "length r3 < length s" using pem_headers_length [OF r3] lt by simp
    show ?thesis
    proof (cases "pem_body ?ty hs r3")
      case None
      then have "pem_Decode r3 = Some (b, r)" using "1.prems" r1 r2 r3 True by (subst (asm) pem_Decode.simps) simp
      then show ?thesis using "1.IH"(2) [OF r1 refl r2 [symmetric] _ r3 refl None] True lt3 by simp
    next
      case (Some br)
      then have "br = (b, r)" using "1.prems" r1 r2 r3 True by (subst (asm) pem_Decode.simps) (auto split: prod.splits)
      then show ?thesis using pem_body_length Some lt3 by fastforce
    qed
  qed
qed

section \<open>Encoding\<close>

text \<open>Base64 in lines of 64; then the header \<open>Proc-Type\<close> first, the others by name.\<close>

definition pem_lines :: "bytes \<Rightarrow> bytes" where
  "pem_lines t = concat (map (\<lambda>l. l @ [LF]) (pieces 64 t))"

definition pem_header_lines :: "(bytes \<times> bytes) list \<Rightarrow> bytes" where
  "pem_header_lines hs =
     (let procs = filter (\<lambda>(k, _). k = ''Proc-Type'') hs @ filter (\<lambda>(k, _). k \<noteq> ''Proc-Type'') hs
      in if hs = [] then [] else concat (map (\<lambda>(k, v). k @ '': '' @ v @ [LF]) procs) @ [LF])"

definition pem_EncodeToMemory :: "Block \<Rightarrow> bytes" where
  "pem_EncodeToMemory b =
     (if \<exists>(k, v) \<in> set (b_Headers b). CHR '':'' \<in> set k then []
      else tl pem_start @ b_Type b @ pem_dashes @ [LF] @ pem_header_lines (b_Headers b) @
           pem_lines (base64_encode (b_Bytes b)) @ tl pem_end @ b_Type b @ pem_dashes @ [LF])"

section \<open>A printed block is read back\<close>

lemma cut_found: "x \<notin> set a \<Longrightarrow> cut x (a @ x # r) = (a, r, True)"
  by (simp add: cut_def dropWhile_append3 takeWhile_append2 takeWhile_eq_all_conv dropWhile_append split: list.splits)

lemma cut_not_found: "x \<notin> set a \<Longrightarrow> cut x a = (a, [], False)"
proof -
  assume "x \<notin> set a"
  then have "dropWhile (\<lambda>c. c \<noteq> x) a = []" unfolding dropWhile_eq_Nil_conv by auto
  then show ?thesis by (simp add: cut_def del: dropWhile_eq_Nil_conv)
qed

lemma cut_line: "fst (cut x s) = takeWhile (\<lambda>c. c \<noteq> x) s"
proof (cases "dropWhile (\<lambda>c. c \<noteq> x) s")
  case Nil
  then have "takeWhile (\<lambda>c. c \<noteq> x) s = s" using takeWhile_dropWhile_id [of "\<lambda>c. c \<noteq> x" s] by (metis append_Nil2)
  then show ?thesis by (simp only: cut_def Nil list.case fst_conv)
qed (simp add: cut_def)

lemma getLine_found:
  assumes "LF \<notin> set a" "a \<noteq> []" "last a \<notin> {CR, CHR '' '', TAB}"
  shows "getLine (a @ LF # r) = (a, r)"
proof -
  have "dropWhile (\<lambda>c. c = CHR '' '' \<or> c = TAB) (rev a) = rev a"
    using assms(2,3) by (cases a rule: rev_cases) auto
  then show ?thesis using assms by (simp add: getLine_def cut_found trim_right_blanks_def)
qed

lemma getLine_chars: "set (fst (getLine s)) \<subseteq> set (takeWhile (\<lambda>c. c \<noteq> LF) s)"
proof -
  have blanks: "set (trim_right_blanks t) \<subseteq> set t" for t
    by (auto simp: trim_right_blanks_def dest: set_dropWhileD)
  obtain line rest found where c: "cut LF s = (line, rest, found)" by (cases "cut LF s")
  have "line = takeWhile (\<lambda>c. c \<noteq> LF) s" using cut_line [of LF s] c by simp
  then show ?thesis using blanks [of line] blanks [of "butlast line"] c
    by (auto simp: getLine_def dest: in_set_butlastD)
qed

lemma cut_at_found:
  assumes "x \<notin> set a"
  shows "cut_at (LF # x # q) (a @ LF # x # q @ r) = Some (a, r)"
  using assms
proof (induction a)
  case (Cons c a)
  have "\<not> has_prefix (LF # x # q) (c # a @ LF # x # q @ r)"
    using Cons.prems by (cases a) (auto simp del: append_Cons simp: append_Cons [of _ _ "LF # x # q @ r"])
  then show ?case using Cons by simp
qed (simp add: has_prefix_def)

lemma pem_lines_shape:
  assumes "t \<noteq> []"
  obtains a where "pem_lines t = a @ [LF]" "filter (\<lambda>c. c \<noteq> LF) a = filter (\<lambda>c. c \<noteq> LF) t" "set a \<subseteq> insert LF (set t)"
proof -
  have "pieces 64 t \<noteq> []" using assms by (subst pieces.simps) simp
  then obtain ls l where ls: "pieces 64 t = ls @ [l]" by (metis append_butlast_last_id)
  let ?a = "concat (map (\<lambda>l. l @ [LF]) ls) @ l"
  have t: "concat (ls @ [l]) = t" using concat_pieces [of 64 t] ls by simp
  have "filter (\<lambda>c. c \<noteq> LF) (concat (map (\<lambda>l. l @ [LF]) ls)) = filter (\<lambda>c. c \<noteq> LF) (concat ls)" by (induction ls) auto
  then have "filter (\<lambda>c. c \<noteq> LF) ?a = filter (\<lambda>c. c \<noteq> LF) t" using t by auto
  moreover have "set ?a \<subseteq> insert LF (set t)" using t by auto
  moreover have "pem_lines t = ?a @ [LF]" by (simp add: pem_lines_def ls)
  ultimately show thesis using that by blast
qed

definition plain_block :: "Block \<Rightarrow> bool" where
  "plain_block b \<longleftrightarrow> b_Headers b = [] \<and> LF \<notin> set (b_Type b) \<and> CHR '':'' \<notin> set (b_Type b)"

text \<open>What may follow the last dashes: the end of the text, or a new line and the rest.\<close>

definition line_end :: "bytes \<Rightarrow> bytes \<Rightarrow> bool" where
  "line_end e rest \<longleftrightarrow> e = [] \<and> rest = [] \<or> e = LF # rest"

lemma getLine_end:
  assumes "line_end e r" "LF \<notin> set a" "a \<noteq> []" "last a \<notin> {CR, CHR '' '', TAB}"
  shows "getLine (a @ e) = (a, r)" "getLine e = ([], r)"
proof -
  have "trim_right_blanks a = a" using assms(3,4) by (cases a rule: rev_cases) (auto simp: trim_right_blanks_def)
  then have "getLine a = (a, [])" using assms(2) by (simp add: getLine_def cut_not_found)
  then show "getLine (a @ e) = (a, r)"
    using assms(1) getLine_found [OF assms(2-4)] by (auto simp: line_end_def)
  have "getLine [] = ([], [])" "getLine (LF # r) = ([], r)" by (simp_all add: getLine_def cut_def trim_right_blanks_def)
  then show "getLine e = ([], r)" using assms(1) by (auto simp: line_end_def)
qed

lemma pem_body_back:
  assumes "plain_block b" "line_end e rest"
  shows "pem_body (b_Type b) [] (pem_lines (base64_encode (b_Bytes b)) @ tl pem_end @ b_Type b @ pem_dashes @ e) = Some (b, rest)"
proof -
  let ?t = "base64_encode (b_Bytes b)" and ?after = "b_Type b @ pem_dashes @ e"
  have finish: "pem_body (b_Type b) [] s = Some (b, rest)"
    if "(if has_prefix (tl pem_end) s then Some ([], drop (length (tl pem_end)) s) else cut_at pem_end s) = Some (body, ?after)"
      "base64_decode (filter (\<lambda>c. c \<noteq> CHR '' '' \<and> c \<noteq> TAB) body) = Some (b_Bytes b)" for s body
  proof -
    have "getLine ?after = (b_Type b @ pem_dashes, rest)" "getLine e = ([], rest)"
      using getLine_end [OF assms(2), of "b_Type b @ pem_dashes"] assms(1) by (simp_all add: plain_block_def pem_dashes_def)
    then show ?thesis using that assms(1)
      by (simp add: pem_body_def plain_block_def has_prefix_def has_suffix_def)
  qed
  show ?thesis
  proof (cases "b_Bytes b = []")
    case True
    then show ?thesis by (intro finish [where body = "[]"]) (simp_all add: pem_lines_def pieces.simps pem_end_def has_prefix_def base64_decode_def)
  next
    case False
    then have "?t \<noteq> []" by (cases "b_Bytes b" rule: base64_encode.cases) auto
    then obtain a where a: "pem_lines ?t = a @ [LF]" "filter (\<lambda>c. c \<noteq> LF) a = filter (\<lambda>c. c \<noteq> LF) ?t" "set a \<subseteq> insert LF (set ?t)"
      by (rule pem_lines_shape)
    have clean: "filter (\<lambda>c. c \<noteq> CR \<and> c \<noteq> LF) (filter (\<lambda>c. c \<noteq> CHR '' '' \<and> c \<noteq> TAB) a) = ?t"
    proof -
      have "filter (\<lambda>c. c \<noteq> CR \<and> c \<noteq> LF) (filter (\<lambda>c. c \<noteq> CHR '' '' \<and> c \<noteq> TAB) a) =
        filter (\<lambda>c. c \<noteq> CR \<and> c \<noteq> CHR '' '' \<and> c \<noteq> TAB) (filter (\<lambda>c. c \<noteq> LF) a)" by (auto intro: filter_cong)
      also have "\<dots> = filter (\<lambda>c. c \<noteq> CR \<and> c \<noteq> CHR '' '' \<and> c \<noteq> TAB \<and> c \<noteq> LF) ?t" by (auto simp: a(2) intro: filter_cong)
      also have "\<dots> = ?t" by (intro filter_True) (metis base64_encode_clean)
      finally show ?thesis .
    qed
    have dash: "CHR ''-'' \<notin> set a" using a(3) by auto
    then have "\<not> has_prefix (tl pem_end) (a @ r)" if "a \<noteq> []" for r using that by (cases a) (auto simp: pem_end_def)
    moreover have "a \<noteq> []" using clean \<open>?t \<noteq> []\<close> by auto
    ultimately show ?thesis
      using cut_at_found [OF dash, of "tl (tl pem_end)" ?after]
      by (intro finish [where body = a]) (simp_all add: a(1) pem_end_def base64_decode_lines [OF clean])
  qed
qed


text \<open>The laws of a text format whose blocks can be printed one after another and read back.\<close>

locale block_format =
  fixes decode :: "bytes \<Rightarrow> ('b \<times> bytes) option" and encode :: "'b \<Rightarrow> bytes" and ok :: "'b \<Rightarrow> bool"
  assumes decode_encode: "ok b \<Longrightarrow> decode (encode b @ r) = Some (b, r)"
    and decode_shorter: "decode s = Some (b, r) \<Longrightarrow> length r < length s"
begin

lemma encode_not_empty: "ok b \<Longrightarrow> encode b \<noteq> []"
  using decode_encode [of b "[]"] decode_shorter [of "[]" b "[]"] by auto

lemma encode_inj: "\<lbrakk>ok a; ok b; encode a @ r = encode b @ t\<rbrakk> \<Longrightarrow> a = b \<and> r = t"
proof -
  assume "ok a" "ok b" and eq: "encode a @ r = encode b @ t"
  then have "Some (a, r) = Some (b, t)" using decode_encode [of a r] decode_encode [of b t] by (metis eq)
  then show ?thesis by simp
qed

end

lemma pem_Encode_lines:
  "plain_block b \<Longrightarrow> pem_EncodeToMemory b = tl pem_start @ (b_Type b @ pem_dashes) @ LF #
     pem_lines (base64_encode (b_Bytes b)) @ tl pem_end @ b_Type b @ pem_dashes @ [LF]"
  by (simp add: pem_EncodeToMemory_def plain_block_def pem_header_lines_def)

lemma pem_Decode_block:
  assumes "plain_block b" "line_end e rest"
  shows "pem_Decode (tl pem_start @ (b_Type b @ pem_dashes) @ LF #
     pem_lines (base64_encode (b_Bytes b)) @ tl pem_end @ b_Type b @ pem_dashes @ e) = Some (b, rest)"
proof -
  let ?tl = "pem_lines (base64_encode (b_Bytes b)) @ tl pem_end @ b_Type b @ pem_dashes @ e"
  have begin_ok: "pem_begin (tl pem_start @ s) = Some s" for s by (simp add: pem_begin_def has_prefix_def)
  have line: "getLine ((b_Type b @ pem_dashes) @ LF # ?tl) = (b_Type b @ pem_dashes, ?tl)"
    using assms(1) by (intro getLine_found) (simp_all add: plain_block_def pem_dashes_def)
  have colon: "CHR '':'' \<notin> set (takeWhile (\<lambda>c. c \<noteq> LF) ?tl)"
  proof (cases "base64_encode (b_Bytes b) = []")
    case True
    have "pieces 64 ([] :: bytes) = []" by (subst pieces.simps) simp
    moreover have "takeWhile (\<lambda>c. c \<noteq> LF) e = []" using assms(2) by (auto simp: line_end_def)
    ultimately have "set (takeWhile (\<lambda>c. c \<noteq> LF) ?tl) \<subseteq> set (tl pem_end) \<union> set (b_Type b) \<union> set pem_dashes"
      using True by (auto simp: pem_lines_def takeWhile_append dest: set_takeWhileD split: if_splits)
    then show ?thesis using assms(1) by (auto simp: plain_block_def pem_end_def pem_dashes_def)
  next
    case False
    then obtain a where a: "pem_lines (base64_encode (b_Bytes b)) = a @ [LF]" "set a \<subseteq> insert LF (set (base64_encode (b_Bytes b)))"
      by (rule pem_lines_shape)
    then have "set (takeWhile (\<lambda>c. c \<noteq> LF) ?tl) \<subseteq> set a" by (auto simp: takeWhile_append dest: set_takeWhileD)
    with a(2) show ?thesis by auto
  qed
  have "cut (CHR '':'') (fst (getLine ?tl)) = (fst (getLine ?tl), [], False)"
    using getLine_chars [of ?tl] colon by (intro cut_not_found) blast
  then have headers: "pem_headers [] ?tl = Some ([], ?tl)"
    by (subst pem_headers.simps) (simp add: pem_end_def)
  show ?thesis
    by (subst pem_Decode.simps)
      (simp only: begin_ok option.case Let_def prod.case line headers,
       simp add: has_suffix_def has_prefix_def pem_body_back [OF assms])
qed

lemma pem_Decode_Encode:
  assumes "plain_block b"
  shows "pem_Decode (pem_EncodeToMemory b @ rest) = Some (b, rest)"
    "pem_Decode (butlast (pem_EncodeToMemory b)) = Some (b, [])"
proof -
  have ends: "line_end (LF # rest) rest" "line_end [] []" by (simp_all add: line_end_def)
  show "pem_Decode (pem_EncodeToMemory b @ rest) = Some (b, rest)"
    using pem_Decode_block [OF assms ends(1)] by (simp add: pem_Encode_lines [OF assms])
  have "butlast (pem_EncodeToMemory b) = tl pem_start @ (b_Type b @ pem_dashes) @ LF #
     pem_lines (base64_encode (b_Bytes b)) @ tl pem_end @ b_Type b @ pem_dashes @ []"
    by (simp add: pem_Encode_lines [OF assms] butlast_append)
  then show "pem_Decode (butlast (pem_EncodeToMemory b)) = Some (b, [])"
    using pem_Decode_block [OF assms ends(2)] by simp
qed

interpretation pem: block_format pem_Decode pem_EncodeToMemory plain_block
  by unfold_locales (simp_all add: pem_Decode_Encode pem_Decode_length)

end
