(* ===== verification/Nvidia.thy ===== *)
theory Nvidia
  imports Go_Pem Go_Errors
begin

text \<open>
  \<open>internal/runtime/attestation/nvidia.go\<close>, \<open>nvidia_root_cert.go\<close>, \<open>nvidia_nvml.go\<close> and \<open>nvidia_stub.go\<close>:
  the payload sent to verifiers, certificate chains, and the collector of GPU evidence over NVML. The
  NVML library itself is a parameter: the functions it exports, or the error of loading it.
\<close>

section \<open>Payload\<close>

record nvidiaEvidence =
  Certificate :: bytes
  Evidence :: bytes
  Arch :: bytes

record nvidiaPayloadEnvelope =
  Nonce :: bytes
  EvidenceList :: "nvidiaEvidence list"
  EnvelopeArch :: bytes

definition evidence_any :: "nvidiaEvidence \<Rightarrow> any" where
  "evidence_any e = AObj [(''certificate'', AStr (Certificate e)), (''evidence'', AStr (Evidence e)), (''arch'', AStr (Arch e))]"

definition envelope_any :: "nvidiaPayloadEnvelope \<Rightarrow> any" where
  "envelope_any p = AObj
     [(''nonce'', AStr (Nonce p)), (''evidence_list'', AArr (map evidence_any (EvidenceList p))), (''arch'', AStr (EnvelopeArch p))]"

definition normalizeNVIDIAArchName :: "go_library \<Rightarrow> bytes \<Rightarrow> bytes" where
  "normalizeNVIDIAArchName lib arch =
     (let arch = trim_space (to_upper (uni_upper lib) arch) in if arch = [] then ''HOPPER'' else arch)"

definition emptyNVIDIAPayload :: "go_library \<Rightarrow> bytes \<Rightarrow> bytes \<Rightarrow> nvidiaPayloadEnvelope" where
  "emptyNVIDIAPayload lib nonceHex arch =
     \<lparr>Nonce = nonceHex, EvidenceList = [], EnvelopeArch = normalizeNVIDIAArchName lib arch\<rparr>"

definition marshalNVIDIAPayload :: "go_library \<Rightarrow> bytes \<Rightarrow> nvidiaEvidence list \<Rightarrow> bytes \<Rightarrow> bytes" where
  "marshalNVIDIAPayload lib nonceHex evidences fallbackArch =
     (let arch = (case evidences of
            e # _ \<Rightarrow> if Arch e \<noteq> [] then Arch e else normalizeNVIDIAArchName lib fallbackArch
          | [] \<Rightarrow> normalizeNVIDIAArchName lib fallbackArch)
      in Marshal (envelope_any \<lparr>Nonce = nonceHex, EvidenceList = evidences, EnvelopeArch = arch\<rparr>))"

definition nvidiaArchName :: "32 word \<Rightarrow> bytes option" where
  "nvidiaArchName arch = (if arch = 9 then Some ''HOPPER'' else if arch = 10 then Some ''BLACKWELL'' else None)"

section \<open>Certificate chains\<close>

text \<open>The base64 lines of the embedded certificate.\<close>

definition root_lines :: "bytes list" where
  "root_lines =
     [''MIICCzCCAZCgAwIBAgIQLTZwscoQBBHB/sDoKgZbVDAKBggqhkjOPQQDAzA1MSIw'',
      ''IAYDVQQDDBlOVklESUEgRGV2aWNlIElkZW50aXR5IENBMQ8wDQYDVQQKDAZOVklE'',
      ''SUEwIBcNMjExMTA1MDAwMDAwWhgPOTk5OTEyMzEyMzU5NTlaMDUxIjAgBgNVBAMM'',
      ''GU5WSURJQSBEZXZpY2UgSWRlbnRpdHkgQ0ExDzANBgNVBAoMBk5WSURJQTB2MBAG'',
      ''ByqGSM49AgEGBSuBBAAiA2IABA5MFKM7+KViZljbQSlgfky/RRnEQScW9NDZF8SX'',
      ''gAW96r6u/Ve8ZggtcYpPi2BS4VFu6KfEIrhN6FcHG7WP05W+oM+hxj7nyA1r1jkB'',
      ''2Ry70YfThX3Ba1zOryOP+MJ9vaNjMGEwDwYDVR0TAQH/BAUwAwEB/zAOBgNVHQ8B'',
      ''Af8EBAMCAQYwHQYDVR0OBBYEFFeF/4PyY8xlfWi3Olv0jUrL+0lfMB8GA1UdIwQY'',
      ''MBaAFFeF/4PyY8xlfWi3Olv0jUrL+0lfMAoGCCqGSM49BAMDA2kAMGYCMQCPeFM3'',
      ''TASsKQVaT+8S0sO9u97PVGCpE9d/I42IT7k3UUOLSR/qvJynVOD1vQKVXf0CMQC+'',
      ''EY55WYoDBvs2wPAH1Gw4LbcwUN8QCff8bFmV4ZxjCRr4WXTLFHBKjbfneGSBWwA='']"

definition nvidiaDeviceRootCertificatePEM :: bytes where
  "nvidiaDeviceRootCertificatePEM =
     ''-----BEGIN CERTIFICATE-----'' @ [LF] @ concat (map (\<lambda>l. l @ [LF]) root_lines) @ ''-----END CERTIFICATE-----'' @ [LF]"

text \<open>The loop over the blocks of a chain.\<close>

function extract_blocks :: "bytes list \<Rightarrow> bytes \<Rightarrow> go_error + bytes list" where
  "extract_blocks blocks rest =
     (if rest = [] then Inr blocks
      else
        (case pem_Decode rest of
           None \<Rightarrow> Inl (ErrMsg ''invalid PEM certificate chain'')
         | Some (block, remaining) \<Rightarrow>
             extract_blocks (if b_Type block = ''CERTIFICATE'' then blocks @ [pem_EncodeToMemory block] else blocks)
               (trim_space remaining)))"
  by auto
termination
  by (relation "measure (\<lambda>(blocks, rest). length rest)") (auto dest!: pem_Decode_length intro: le_less_trans [OF trim_space_length])

declare extract_blocks.simps [simp del]

definition extractCertificatePEMBlocks :: "bytes \<Rightarrow> go_error + bytes list" where
  "extractCertificatePEMBlocks raw = extract_blocks [] (trim_space raw)"

definition encodeNVIDIACertificateChain :: "bytes \<Rightarrow> go_error + bytes" where
  "encodeNVIDIACertificateChain raw =
     (case extractCertificatePEMBlocks raw of
        Inl err \<Rightarrow> Inl err
      | Inr blocks \<Rightarrow>
          if blocks = [] then Inl (ErrMsg ''nvidia attestation certificate chain contained no certificates'')
          else
            (case extractCertificatePEMBlocks nvidiaDeviceRootCertificatePEM of
               Inl err \<Rightarrow> Inl (ErrWrap ''parse NVIDIA device root certificate: '' err [])
             | Inr rootBlocks \<Rightarrow>
                 if length rootBlocks \<noteq> 1
                 then Inl (ErrMsg ''NVIDIA device root certificate must contain exactly one certificate'')
                 else Inr (base64_encode (concat (butlast blocks @ [rootBlocks ! 0])))))"

section \<open>The chain of a list of certificates\<close>

text \<open>The embedded root certificate is one printed block: its lines are the base64 of its bytes.\<close>

lemma pieces_append: "\<lbrakk>length a = n; 0 < n\<rbrakk> \<Longrightarrow> pieces n (a @ b) = a # pieces n b"
  by (subst pieces.simps) auto

lemma pieces_concat: "\<lbrakk>list_all (\<lambda>l. length l = n) ls; 0 < n\<rbrakk> \<Longrightarrow> pieces n (concat ls) = ls"
proof (induction ls)
  case Nil
  then show ?case by (subst pieces.simps) simp
qed (simp add: pieces_append)

lemma base64_full_lines:
  assumes "list_all (\<lambda>l. list_all (\<lambda>c. base64_value c \<noteq> None) l \<and> 4 dvd length l) ls" "\<exists>s. base64_encode s = u"
  shows "\<exists>s. base64_encode s = concat ls @ u"
  using assms(1)
proof (induction ls)
  case (Cons l ls)
  have "\<exists>s. base64_encode s = l @ (concat ls @ u)" by (rule base64_full_append) (use Cons in simp_all)
  then show ?case by simp
qed (simp add: assms(2))

lemma root_lines_base64: "\<exists>bs. base64_encode bs = concat root_lines"
proof -
  let ?last = "take 60 (last root_lines)"
  have split: "concat root_lines = concat (butlast root_lines @ [?last]) @ ''WwA=''"
    by (simp add: root_lines_def)
  have "\<exists>s. base64_encode s = ''WwA=''"
    by (rule base64_padded [where p = 22 and q = 48 and r = 0]) (simp_all add: base64_value_def code_def)
  moreover have "list_all (\<lambda>l. list_all (\<lambda>c. base64_value c \<noteq> None) l \<and> 4 dvd length l) (butlast root_lines @ [?last])"
    by (simp add: root_lines_def base64_value_def code_def dvd_Suc)
  ultimately show ?thesis unfolding split by (rule base64_full_lines [rotated])
qed

definition cert_block :: "bytes \<Rightarrow> Block" where
  "cert_block der = \<lparr>b_Type = ''CERTIFICATE'', b_Headers = [], b_Bytes = der\<rparr>"

abbreviation cert_pem :: "bytes \<Rightarrow> bytes" where
  "cert_pem der \<equiv> pem_EncodeToMemory (cert_block der)"

lemma plain_cert_block [simp]: "plain_block (cert_block der)" "b_Type (cert_block der) = ''CERTIFICATE''"
  by (simp_all add: plain_block_def cert_block_def)

lemma root_certificate: "\<exists>der. nvidiaDeviceRootCertificatePEM = cert_pem der"
proof -
  obtain der where der: "base64_encode der = concat root_lines" using root_lines_base64 by blast
  have "pieces 64 (concat root_lines) = root_lines" by (rule pieces_concat) (simp_all add: root_lines_def)
  then have "nvidiaDeviceRootCertificatePEM = cert_pem der"
    by (simp add: nvidiaDeviceRootCertificatePEM_def pem_EncodeToMemory_def cert_block_def pem_header_lines_def
        pem_lines_def der pem_start_def pem_end_def pem_dashes_def)
  then show ?thesis ..
qed

text \<open>Trimming between blocks removes the last end of line only.\<close>

lemma cert_pem_ends: "\<exists>s. cert_pem der = CHR ''-'' # s @ CHR ''-'' # [LF]"
  by (simp add: pem_Encode_lines [OF plain_cert_block(1)] pem_start_def pem_dashes_def)

lemma no_space_dash: "no_word_prefix unicode_spaces (CHR ''-'' # s)" "no_word_prefix (map rev unicode_spaces) (CHR ''-'' # s)"
  by (simp_all add: no_word_prefix_def unicode_spaces_def)

lemma trim_space_dashes: "trim_space (CHR ''-'' # s @ [CHR ''-'']) = CHR ''-'' # s @ [CHR ''-'']"
  by (rule trim_space_id) (simp_all add: no_space_dash)

lemma trim_space_dashes_LF: "trim_space (CHR ''-'' # s @ CHR ''-'' # [LF]) = CHR ''-'' # s @ [CHR ''-'']"
proof -
  have "strip_by (map rev unicode_spaces) (LF # r) = strip_by (map rev unicode_spaces) r" for r
    by (subst strip_by.simps) (simp add: unicode_spaces_def)
  then show ?thesis by (simp add: trim_space_def strip_by_id no_space_dash)
qed

lemma certs_ends: "ders \<noteq> [] \<Longrightarrow> \<exists>s. concat (map cert_pem ders) = CHR ''-'' # s @ CHR ''-'' # [LF]"
proof (induction ders)
  case (Cons d ders)
  obtain s where s: "cert_pem d = CHR ''-'' # s @ CHR ''-'' # [LF]" using cert_pem_ends by blast
  show ?case
  proof (cases "ders = []")
    case False
    then obtain t where "concat (map cert_pem ders) = CHR ''-'' # t @ CHR ''-'' # [LF]" using Cons by blast
    then have "concat (map cert_pem (d # ders)) = CHR ''-'' # (s @ CHR ''-'' # LF # CHR ''-'' # t) @ CHR ''-'' # [LF]" using s by simp
    then show ?thesis by blast
  qed (use s in simp)
qed simp

lemma trim_certs: "trim_space (concat (map cert_pem ders)) = butlast (concat (map cert_pem ders))"
    "trim_space (butlast (concat (map cert_pem ders))) = butlast (concat (map cert_pem ders))"
proof -
  have "trim_space (concat (map cert_pem ders)) = butlast (concat (map cert_pem ders)) \<and>
    trim_space (butlast (concat (map cert_pem ders))) = butlast (concat (map cert_pem ders))"
  proof (cases "ders = []")
    case False
    then obtain s where "concat (map cert_pem ders) = CHR ''-'' # s @ CHR ''-'' # [LF]" using certs_ends by blast
    then show ?thesis by (simp add: trim_space_dashes trim_space_dashes_LF butlast_append)
  qed simp
  then show "trim_space (concat (map cert_pem ders)) = butlast (concat (map cert_pem ders))"
    "trim_space (butlast (concat (map cert_pem ders))) = butlast (concat (map cert_pem ders))" by blast+
qed

lemma extract_blocks_certs: "extract_blocks bs (butlast (concat (map cert_pem ders))) = Inr (bs @ map cert_pem ders)"
proof (induction ders arbitrary: bs)
  case Nil
  then show ?case by (subst extract_blocks.simps) simp
next
  case (Cons d ders)
  let ?rest = "butlast (concat (map cert_pem ders))"
  have "pem_Decode (butlast (concat (map cert_pem (d # ders)))) = Some (cert_block d, ?rest)"
  proof (cases "ders = []")
    case False
    then have "concat (map cert_pem ders) \<noteq> []" using certs_ends [of ders] by (metis list.distinct(1))
    then have "butlast (concat (map cert_pem (d # ders))) = cert_pem d @ ?rest" by (simp only: list.map concat.simps butlast_append if_False)
    then show ?thesis by (simp only: pem_Decode_Encode(1) [OF plain_cert_block(1)])
  qed (simp add: pem_Decode_Encode(2))
  moreover have "butlast (concat (map cert_pem (d # ders))) \<noteq> []"
    using certs_ends [of "d # ders"] by (metis butlast_append list.distinct(1) butlast.simps(2) append_is_Nil_conv append_Cons)
  ultimately have "extract_blocks bs (butlast (concat (map cert_pem (d # ders)))) = extract_blocks (bs @ [cert_pem d]) ?rest"
    by (subst extract_blocks.simps) (simp add: trim_certs(2))
  then show ?case using Cons.IH [of "bs @ [cert_pem d]"] by simp
qed

lemma extract_certs: "extractCertificatePEMBlocks (concat (map cert_pem ders)) = Inr (map cert_pem ders)"
  by (simp add: extractCertificatePEMBlocks_def trim_certs(1) extract_blocks_certs)

lemma extract_root: "extractCertificatePEMBlocks nvidiaDeviceRootCertificatePEM = Inr [nvidiaDeviceRootCertificatePEM]"
proof -
  obtain der where "nvidiaDeviceRootCertificatePEM = cert_pem der" using root_certificate by blast
  then show ?thesis using extract_certs [of "[der]"] by simp
qed

end
