(* ===== verification/Nvidia_Nvml.thy ===== *)
theory Nvidia_Nvml
  imports Nvidia
begin

text \<open>
  \<open>internal/runtime/attestation/nvidia_nvml.go\<close> and \<open>nvidia_stub.go\<close>: the native collector of GPU
  evidence, with its C part. The dynamic loader and the functions NVML exports are parameters; every
  call the collector makes to them is recorded, so that the order of the calls can be stated.
\<close>

section \<open>The library\<close>

record gpu_certificate =
  certChainSize :: "32 word"
  attestationCertChainSize :: "32 word"
  certChain :: bytes
  attestationCertChain :: bytes

record gpu_report =
  isCecAttestationReportPresent :: "32 word"
  attestationReportSize :: "32 word"
  cecAttestationReportSize :: "32 word"
  report_nonce :: bytes
  attestationReport :: bytes
  cecAttestationReport :: bytes

type_synonym nvmlDevice_t = nat

text \<open>What the process finds: \<open>dlopen\<close> with the text of \<open>dlerror\<close>, the exported names, and the
  functions, with the values they leave behind their pointer arguments.\<close>

record nvml_library =
  dl_loads :: bool
  dl_error :: "bytes option"
  dl_exports :: "bytes \<Rightarrow> bool"
  nvmlInitWithFlags :: "32 word \<Rightarrow> int"
  nvmlDeviceGetCount :: "int \<times> 32 word"
  nvmlDeviceGetHandleByIndex :: "32 word \<Rightarrow> int \<times> nvmlDevice_t"
  nvmlDeviceGetArchitecture :: "nvmlDevice_t \<Rightarrow> int \<times> 32 word"
  nvmlDeviceGetCertificate :: "nvmlDevice_t \<Rightarrow> gpu_certificate \<Rightarrow> int \<times> gpu_certificate"
  nvmlDeviceGetAttestationReport :: "nvmlDevice_t \<Rightarrow> gpu_report \<Rightarrow> int \<times> gpu_report"

datatype nvml_call =
    Dlopen | Dlclose | Init | Shutdown | GetCount
  | GetHandle "32 word" | GetArch nvmlDevice_t | GetCert nvmlDevice_t | GetReport nvmlDevice_t bytes

definition nvml_names :: "bytes list" where
  "nvml_names =
     [''nvmlInitWithFlags'', ''nvmlShutdown'', ''nvmlDeviceGetCount_v2'', ''nvmlDeviceGetHandleByIndex_v2'',
      ''nvmlDeviceGetArchitecture'', ''nvmlDeviceGetConfComputeGpuCertificate'',
      ''nvmlDeviceGetConfComputeGpuAttestationReport'']"

text \<open>The first name the library does not export.\<close>

definition missing_symbol :: "nvml_library \<Rightarrow> bytes option" where
  "missing_symbol n = find (\<lambda>name. \<not> dl_exports n name) nvml_names"

text \<open>\<open>None\<close> is success; a library that lacks a name is closed again.\<close>

definition pig_nvml_open :: "nvml_library \<Rightarrow> nvml_call list \<times> bytes option" where
  "pig_nvml_open n =
     (if \<not> dl_loads n then
        ([Dlopen], Some (case dl_error n of None \<Rightarrow> ''dlopen libnvidia-ml.so.1 failed'' | Some err \<Rightarrow> err))
      else
        (case missing_symbol n of
           Some name \<Rightarrow> ([Dlopen, Dlclose], Some name)
         | None \<Rightarrow> ([Dlopen], None)))"

text \<open>The C wrappers of the library's functions.\<close>

definition pig_nvml_init :: "nvml_library \<Rightarrow> int" where
  [simp]: "pig_nvml_init n = nvmlInitWithFlags n 0"

definition pig_nvml_get_count :: "nvml_library \<Rightarrow> int \<times> 32 word" where
  [simp]: "pig_nvml_get_count n = nvmlDeviceGetCount n"

definition pig_nvml_get_handle :: "nvml_library \<Rightarrow> 32 word \<Rightarrow> int \<times> nvmlDevice_t" where
  [simp]: "pig_nvml_get_handle n index = nvmlDeviceGetHandleByIndex n index"

definition pig_nvml_get_arch :: "nvml_library \<Rightarrow> nvmlDevice_t \<Rightarrow> int \<times> 32 word" where
  [simp]: "pig_nvml_get_arch n device = nvmlDeviceGetArchitecture n device"

definition zero_certificate :: gpu_certificate where
  "zero_certificate = \<lparr>certChainSize = 0, attestationCertChainSize = 0,
     certChain = replicate 0x1000 (CHR 0x00), attestationCertChain = replicate 0x1400 (CHR 0x00)\<rparr>"

definition zero_report :: gpu_report where
  "zero_report = \<lparr>isCecAttestationReportPresent = 0, attestationReportSize = 0, cecAttestationReportSize = 0,
     report_nonce = replicate 0x20 (CHR 0x00), attestationReport = replicate 0x2000 (CHR 0x00),
     cecAttestationReport = replicate 0x1000 (CHR 0x00)\<rparr>"

definition pig_nvml_get_cert :: "nvml_library \<Rightarrow> nvmlDevice_t \<Rightarrow> int \<times> gpu_certificate" where
  "pig_nvml_get_cert n device = nvmlDeviceGetCertificate n device zero_certificate"

definition pig_nvml_get_report :: "nvml_library \<Rightarrow> nvmlDevice_t \<Rightarrow> bytes \<Rightarrow> int \<times> gpu_report" where
  "pig_nvml_get_report n device nonce =
     nvmlDeviceGetAttestationReport n device (zero_report\<lparr>report_nonce := take 0x20 nonce\<rparr>)"

section \<open>One GPU\<close>

definition failed_call :: "bytes \<Rightarrow> 32 word \<Rightarrow> int \<Rightarrow> go_error" where
  "failed_call name index ret = ErrMsg (name @ ''('' @ show_int (uint index) @ '') failed with code '' @ show_int ret)"

definition gpu_cert :: "nvml_library \<Rightarrow> nvmlDevice_t \<Rightarrow> 32 word \<Rightarrow> go_error + bytes" where
  "gpu_cert n device index =
     (case pig_nvml_get_cert n device of (ret, cert) \<Rightarrow>
        let size = attestationCertChainSize cert in
        if ret \<noteq> 0 then Inl (failed_call ''nvmlDeviceGetConfComputeGpuCertificate'' index ret)
        else if size = 0 \<or> 0x1400 < size
        then Inl (ErrMsg (''invalid NVIDIA attestation certificate chain size '' @ show_int (uint size)))
        else encodeNVIDIACertificateChain (take (unat size) (attestationCertChain cert)))"

definition gpu_evidence :: "nvml_library \<Rightarrow> nvmlDevice_t \<Rightarrow> 32 word \<Rightarrow> bytes \<Rightarrow> go_error + bytes" where
  "gpu_evidence n device index nonce =
     (case pig_nvml_get_report n device nonce of (ret, report) \<Rightarrow>
        let size = attestationReportSize report in
        if ret \<noteq> 0 then Inl (failed_call ''nvmlDeviceGetConfComputeGpuAttestationReport'' index ret)
        else if size = 0 \<or> 0x2000 < size
        then Inl (ErrMsg (''invalid NVIDIA attestation report size '' @ show_int (uint size)))
        else Inr (base64_encode (take (unat size) (attestationReport report))))"

definition collectNVIDIAEvidenceForGPU ::
  "nvml_library \<Rightarrow> 32 word \<Rightarrow> bytes \<Rightarrow> nvml_call list \<times> (go_error + nvidiaEvidence)" where
  "collectNVIDIAEvidenceForGPU n index nonce =
     (case pig_nvml_get_handle n index of (ret, device) \<Rightarrow>
        if ret \<noteq> 0 then ([GetHandle index], Inl (failed_call ''nvmlDeviceGetHandleByIndex_v2'' index ret))
        else
          (case pig_nvml_get_arch n device of (ret, archRaw) \<Rightarrow>
             let calls = [GetHandle index, GetArch device] in
             if ret \<noteq> 0 then (calls, Inl (failed_call ''nvmlDeviceGetArchitecture'' index ret))
             else
               (case nvidiaArchName archRaw of
                  None \<Rightarrow> (calls, Inl (ErrMsg (''unsupported NVIDIA GPU architecture '' @ show_int (uint archRaw))))
                | Some arch \<Rightarrow>
                    (case gpu_cert n device index of
                       Inl err \<Rightarrow> (calls @ [GetCert device], Inl err)
                     | Inr cert \<Rightarrow>
                         (calls @ [GetCert device, GetReport device nonce],
                          (case gpu_evidence n device index nonce of
                             Inl err \<Rightarrow> Inl err
                           | Inr ev \<Rightarrow> Inr \<lparr>Certificate = cert, Evidence = ev, Arch = arch\<rparr>))))))"

section \<open>All GPUs\<close>

text \<open>The loop over the GPUs. The context is checked before each one; \<open>ctx i\<close> is the error found then.\<close>

lemma word_next:
  assumes "(i :: 32 word) < count"
  shows "i + 1 \<le> count" "unat (count - i) = Suc (unat (count - (i + 1)))"
proof -
  show "i + 1 \<le> count" using assms by unat_arith
  have ne: "count - i \<noteq> 0" using assms by auto
  have eq: "count - (i + 1) = count - i - 1" by (simp add: algebra_simps)
  have "0 < unat (count - i)" using ne by (simp add: unat_gt_0)
  then show "unat (count - i) = Suc (unat (count - (i + 1)))" unfolding eq unat_minus_one [OF ne] by simp
qed

function collect_loop ::
  "nvml_library \<Rightarrow> (32 word \<Rightarrow> go_error option) \<Rightarrow> bytes \<Rightarrow> 32 word \<Rightarrow> 32 word \<Rightarrow> nvidiaEvidence list \<Rightarrow> nvml_call list
    \<Rightarrow> nvml_call list \<times> (go_error + nvidiaEvidence list)" where
  "collect_loop n ctx nonce count i evidences calls =
     (if i < count then
        (case ctx i of
           Some err \<Rightarrow> (calls, Inl err)
         | None \<Rightarrow>
             (case collectNVIDIAEvidenceForGPU n i nonce of (cs, res) \<Rightarrow>
                (case res of
                   Inl err \<Rightarrow> (calls @ cs, Inl err)
                 | Inr evidence \<Rightarrow> collect_loop n ctx nonce count (i + 1) (evidences @ [evidence]) (calls @ cs))))
      else (calls, Inr evidences))"
  by auto
termination
  by (relation "measure (\<lambda>(n, ctx, nonce, count, i, evidences, calls). unat (count - i))") (auto simp: word_next(2))

declare collect_loop.simps [simp del]

text \<open>\<open>Collect\<close>; the deferred calls come last, whatever the path.\<close>

definition Collect ::
  "go_library \<Rightarrow> nvml_library \<Rightarrow> (32 word \<Rightarrow> go_error option) \<Rightarrow> bytes \<Rightarrow> bytes \<Rightarrow> nvml_call list \<times> (go_error + bytes)" where
  "Collect lib n ctx nonceHex fallbackArch =
     (case hex_decode nonceHex of
        None \<Rightarrow> ([], Inl (ErrWrap ''nvidia nonce must be hex-encoded: '' (ErrMsg (hex_error lib nonceHex)) []))
      | Some nonce \<Rightarrow>
          if length nonce \<noteq> 0x20 then ([], Inl (ErrMsg ''nvidia nonce must be 32 bytes''))
          else
            (case pig_nvml_open n of
               (cs, Some errMsg) \<Rightarrow> (cs, Inl (ErrMsg (''open NVML: '' @ errMsg)))
             | (cs, None) \<Rightarrow>
                 let ret = pig_nvml_init n in
                 if ret \<noteq> 0 then (cs @ [Init, Dlclose], Inl (ErrMsg (''nvmlInitWithFlags failed with code '' @ show_int ret)))
                 else
                   (case pig_nvml_get_count n of (ret, count) \<Rightarrow>
                      let calls = cs @ [Init, GetCount] in
                      if ret \<noteq> 0 then
                        (calls @ [Shutdown, Dlclose], Inl (ErrMsg (''nvmlDeviceGetCount_v2 failed with code '' @ show_int ret)))
                      else if count = 0 then (calls @ [Shutdown, Dlclose], Inl (ErrMsg ''NVML returned zero GPUs''))
                      else
                        (case collect_loop n ctx nonce count 0 [] calls of
                           (calls, Inl err) \<Rightarrow> (calls @ [Shutdown, Dlclose], Inl err)
                         | (calls, Inr evidences) \<Rightarrow>
                             (calls @ [Shutdown, Dlclose], Inr (marshalNVIDIAPayload lib nonceHex evidences fallbackArch))))))"

text \<open>The collector of a build without cgo.\<close>

definition unavailable_Collect :: "bytes \<Rightarrow> bytes \<Rightarrow> go_error + bytes" where
  "unavailable_Collect nonceHex fallbackArch = Inl (ErrMsg ''native NVIDIA collector requires linux with cgo and NVML'')"

end
