(* ===== verification/Nvidia_Props.thy ===== *)
theory Nvidia_Props
  imports Nvidia_Nvml Openai_Response
begin

text \<open>
  What the collector of GPU evidence guarantees: the certificate chain it sends, the order of its calls
  to NVML, and the payload it returns.
\<close>

section \<open>Certificate chains\<close>

lemma encode_chain:
  "ders \<noteq> [] \<Longrightarrow> encodeNVIDIACertificateChain (concat (map cert_pem ders)) =
      Inr (base64_encode (concat (map cert_pem (butlast ders)) @ nvidiaDeviceRootCertificatePEM))"
  by (simp add: encodeNVIDIACertificateChain_def extract_certs extract_root map_butlast)

text \<open>C24: for a chain of printed certificates the encoded chain is the same certificates with the last one
  replaced by the embedded NVIDIA root, in base64; decoding it gives the blocks back.\<close>

theorem certificate_chain:
  assumes "ders \<noteq> []"
  shows "encodeNVIDIACertificateChain (concat (map cert_pem ders)) =
      Inr (base64_encode (concat (map cert_pem (butlast ders)) @ nvidiaDeviceRootCertificatePEM)) \<and>
    (\<exists>root. nvidiaDeviceRootCertificatePEM = cert_pem root \<and>
      extractCertificatePEMBlocks (concat (map cert_pem (butlast ders)) @ nvidiaDeviceRootCertificatePEM) =
        Inr (map cert_pem (butlast ders @ [root])))"
proof -
  obtain root where root: "nvidiaDeviceRootCertificatePEM = cert_pem root" using root_certificate by blast
  have "extractCertificatePEMBlocks (concat (map cert_pem (butlast ders)) @ nvidiaDeviceRootCertificatePEM) =
        Inr (map cert_pem (butlast ders @ [root]))"
    using extract_certs [of "butlast ders @ [root]"] by (simp add: root)
  then show ?thesis using encode_chain [OF assms] root by blast
qed

theorem certificate_chain_witness:
  "encodeNVIDIACertificateChain (cert_pem ''leaf'' @ cert_pem ''ca'') =
     Inr (base64_encode (cert_pem ''leaf'' @ nvidiaDeviceRootCertificatePEM))"
  using certificate_chain [of "[''leaf'', ''ca'']"] by simp

section \<open>The order of the calls\<close>

text \<open>The protocol of the library: it must be opened before it is used, initialised before devices are
  asked, and shut down before it is closed. \<open>None\<close> is a call out of order.\<close>

datatype nvml_state = Closed | Opened | Ready

fun nvml_step :: "nvml_library \<Rightarrow> nvml_call \<Rightarrow> nvml_state \<Rightarrow> nvml_state option" where
  "nvml_step n Dlopen Closed = Some (if dl_loads n then Opened else Closed)"
| "nvml_step n Dlclose Opened = Some Closed"
| "nvml_step n Init Opened =
     (if missing_symbol n = None then Some (if nvmlInitWithFlags n 0 = 0 then Ready else Opened) else None)"
| "nvml_step n Shutdown Ready = Some Opened"
| "nvml_step n GetCount Ready = Some Ready"
| "nvml_step n (GetHandle i) Ready = Some Ready"
| "nvml_step n (GetArch d) Ready = Some Ready"
| "nvml_step n (GetCert d) Ready = Some Ready"
| "nvml_step n (GetReport d x) Ready = Some Ready"
| "nvml_step n _ _ = None"

fun nvml_run :: "nvml_library \<Rightarrow> nvml_call list \<Rightarrow> nvml_state \<Rightarrow> nvml_state option" where
  "nvml_run n [] st = Some st"
| "nvml_run n (c # cs) st = (case nvml_step n c st of None \<Rightarrow> None | Some st' \<Rightarrow> nvml_run n cs st')"

lemma nvml_run_append:
  "nvml_run n (cs @ ds) st = (case nvml_run n cs st of None \<Rightarrow> None | Some st' \<Rightarrow> nvml_run n ds st')"
  by (induction cs arbitrary: st) (auto split: option.splits)

lemma gpu_calls_ready: "nvml_run n (fst (collectNVIDIAEvidenceForGPU n i nonce)) Ready = Some Ready"
  by (simp add: collectNVIDIAEvidenceForGPU_def Let_def split: prod.splits option.splits sum.splits)

lemma loop_calls_ready:
  "nvml_run n calls st = Some Ready \<Longrightarrow> nvml_run n (fst (collect_loop n ctx nonce count i evs calls)) st = Some Ready"
proof (induction n ctx nonce count i evs calls rule: collect_loop.induct)
  case (1 n ctx nonce count i evs calls)
  obtain cs res where g: "collectNVIDIAEvidenceForGPU n i nonce = (cs, res)" by (cases "collectNVIDIAEvidenceForGPU n i nonce")
  have "nvml_run n (calls @ cs) st = Some Ready"
    using "1.prems" gpu_calls_ready [of n i nonce] g by (simp add: nvml_run_append)
  with 1 g show ?case
    by (subst collect_loop.simps) (auto split: option.splits sum.splits)
qed

text \<open>C25: whatever the loader and NVML return, and whenever the request is given up, every call the collector
  makes is in order: nothing before the library is opened and initialised, a shutdown exactly after a
  successful initialisation, and the library is closed at the end.\<close>

theorem nvml_calls_in_order:
  "nvml_run n (fst (Collect lib n ctx nonceHex fallbackArch)) Closed = Some Closed"
proof -
  have open_ok: "nvml_run n [Dlopen] Closed = Some Opened" "missing_symbol n = None" "cs = [Dlopen]"
    if "pig_nvml_open n = (cs, None)" for cs
    using that by (auto simp: pig_nvml_open_def split: if_splits option.splits)
  have open_bad: "nvml_run n cs Closed = Some Closed" if "pig_nvml_open n = (cs, Some e)" for cs e
    using that by (auto simp: pig_nvml_open_def split: if_splits option.splits)
  have loop: "nvml_run n (calls @ [Shutdown, Dlclose]) Closed = Some Closed"
    if "pig_nvml_open n = (cs, None)" "nvmlInitWithFlags n 0 = 0"
      "collect_loop n ctx nonce count 0 [] (cs @ [Init, GetCount]) = (calls, res)" for cs nonce count calls res
    using that open_ok [OF that(1)] loop_calls_ready [of n "cs @ [Init, GetCount]" Closed ctx nonce count 0 "[]"]
    by (simp add: nvml_run_append)
  show ?thesis
    using open_ok open_bad loop
    by (auto simp: Collect_def Let_def nvml_run_append split: option.splits prod.splits sum.splits)
qed

section \<open>The payload\<close>

lemma collect_loop_result:
  "\<lbrakk>collect_loop n ctx nonce count i evs calls = (cs, Inr out); i \<le> count\<rbrakk> \<Longrightarrow>
    \<exists>found. out = evs @ found \<and> length found = unat (count - i) \<and>
      (\<forall>k < length found. snd (collectNVIDIAEvidenceForGPU n (i + word_of_nat k) nonce) = Inr (found ! k))"
proof (induction n ctx nonce count i evs calls rule: collect_loop.induct)
  case (1 n ctx nonce count i evs calls)
  show ?case
  proof (cases "i < count")
    case False
    with "1.prems" have "i = count" "out = evs" by (auto simp: collect_loop.simps)
    then show ?thesis by (intro exI [of _ "[]"]) simp
  next
    case True
    from "1.prems"(1) True obtain gs e where c: "ctx i = None" "collectNVIDIAEvidenceForGPU n i nonce = (gs, Inr e)"
      and rest: "collect_loop n ctx nonce count (i + 1) (evs @ [e]) (calls @ gs) = (cs, Inr out)"
      by (subst (asm) collect_loop.simps) (auto split: option.splits prod.splits sum.splits)
    from "1.IH" [OF True c(1) c(2) [symmetric] refl rest word_next(1) [OF True]] obtain found where
      f: "out = (evs @ [e]) @ found" "length found = unat (count - (i + 1))"
      "\<And>k. k < length found \<Longrightarrow> snd (collectNVIDIAEvidenceForGPU n (i + 1 + word_of_nat k) nonce) = Inr (found ! k)" by blast
    have "snd (collectNVIDIAEvidenceForGPU n (i + word_of_nat k) nonce) = Inr ((e # found) ! k)" if "k < length (e # found)" for k
      using that c(2) f(3) [of "k - 1"] by (cases k) (simp_all add: add.assoc)
    then show ?thesis using f(1,2) word_next(2) [OF True] by (intro exI [of _ "e # found"]) simp
  qed
qed

text \<open>The evidence of a successful collection, in the order of the GPUs.\<close>

lemma Collect_result:
  assumes "Collect lib n ctx nonceHex fallbackArch = (cs, Inr out)"
  obtains nonce evs where "hex_decode nonceHex = Some nonce" "length nonce = 32" "evs \<noteq> []"
    "length evs = unat (snd (nvmlDeviceGetCount n))"
    "\<And>k. k < length evs \<Longrightarrow> snd (collectNVIDIAEvidenceForGPU n (word_of_nat k) nonce) = Inr (evs ! k)"
    "out = marshalNVIDIAPayload lib nonceHex evs fallbackArch"
proof -
  from assms obtain nonce calls evs calls' where a: "hex_decode nonceHex = Some nonce" "length nonce = 32"
    "snd (nvmlDeviceGetCount n) \<noteq> 0"
    "collect_loop n ctx nonce (snd (nvmlDeviceGetCount n)) 0 [] calls = (calls', Inr evs)"
    "out = marshalNVIDIAPayload lib nonceHex evs fallbackArch"
    by (auto simp: Collect_def Let_def split: option.splits prod.splits sum.splits if_splits)
  from collect_loop_result [OF a(4)] have r: "length evs = unat (snd (nvmlDeviceGetCount n))"
    "\<And>k. k < length evs \<Longrightarrow> snd (collectNVIDIAEvidenceForGPU n (word_of_nat k) nonce) = Inr (evs ! k)" by auto
  have "evs \<noteq> []" using r(1) a(3) by (auto simp: unat_eq_zero)
  then show thesis using that a r by blast
qed

lemma gpu_arch: "collectNVIDIAEvidenceForGPU n i nonce = (cs, Inr e) \<Longrightarrow> Arch e = ''HOPPER'' \<or> Arch e = ''BLACKWELL''"
  by (auto simp: collectNVIDIAEvidenceForGPU_def Let_def nvidiaArchName_def split: prod.splits option.splits sum.splits if_splits)

text \<open>Everything in such a payload is ASCII.\<close>

lemma is_ascii_append [simp]: "is_ascii (a @ b) \<longleftrightarrow> is_ascii a \<and> is_ascii b" "is_ascii []"
  by (simp_all add: is_ascii_def)

lemma is_ascii_base64: "is_ascii (base64_encode s)"
proof -
  have "code c < 128" if "c \<in> set (base64_encode s)" for c
    using base64_encode_chars [OF that] by (auto simp: base64_value_def Let_def code_def split: if_splits)
  then show ?thesis by (auto simp: is_ascii_def list_all_iff)
qed

lemma is_ascii_hex: "hex_decode s = Some b \<Longrightarrow> is_ascii s"
proof (induction s arbitrary: b rule: hex_decode.induct)
  case (3 x y s)
  have digit: "code c < 128" if "hex_val c \<noteq> None" for c
    using that by (auto simp: hex_val_def Let_def split: if_splits)
  with 3 show ?case by (auto simp: is_ascii_def split: option.splits)
qed (auto simp: is_ascii_def)

lemma evidence_ascii:
  "collectNVIDIAEvidenceForGPU n i nonce = (cs, Inr e) \<Longrightarrow> is_ascii (Certificate e) \<and> is_ascii (Evidence e) \<and> is_ascii (Arch e)"
proof -
  have names: "is_ascii ''HOPPER''" "is_ascii ''BLACKWELL''" by code_simp+
  have cert: "is_ascii c" if "gpu_cert n d i = Inr c" for d c
    using that by (auto simp: gpu_cert_def encodeNVIDIACertificateChain_def Let_def is_ascii_base64 split: prod.splits if_splits sum.splits)
  have ev: "is_ascii v" if "gpu_evidence n d i nonce = Inr v" for d v
    using that by (auto simp: gpu_evidence_def Let_def is_ascii_base64 split: prod.splits if_splits)
  assume "collectNVIDIAEvidenceForGPU n i nonce = (cs, Inr e)"
  then show ?thesis using names cert ev
    by (auto simp: collectNVIDIAEvidenceForGPU_def Let_def nvidiaArchName_def split: prod.splits option.splits sum.splits if_splits)
qed

text \<open>What a verifier finds for one GPU.\<close>

definition evidence_json :: "nvidiaEvidence \<Rightarrow> json" where
  "evidence_json e = JObj
     [(''certificate'', json_quote (Certificate e), JStr (Certificate e)), (''evidence'', json_quote (Evidence e), JStr (Evidence e)),
      (''arch'', json_quote (Arch e), JStr (Arch e))]"

lemma ascii_fields: "is_ascii ''nonce''" "is_ascii ''evidence_list''" "is_ascii ''arch''" "is_ascii ''certificate''" "is_ascii ''evidence''"
  by code_simp+

lemma tree_evidence:
  "\<lbrakk>is_ascii (Certificate e); is_ascii (Evidence e); is_ascii (Arch e)\<rbrakk> \<Longrightarrow> tree (evidence_any e) = evidence_json e"
  by (simp only: evidence_any_def evidence_json_def tree.simps Marshal.simps list.map prod.case
      utf8_text_ascii [OF ascii_fields(3)] utf8_text_ascii [OF ascii_fields(4)] utf8_text_ascii [OF ascii_fields(5)] utf8_text_ascii)

lemma payload_parsed:
  assumes "is_ascii nonceHex" "is_ascii arch" "list_all (\<lambda>e. is_ascii (Certificate e) \<and> is_ascii (Evidence e) \<and> is_ascii (Arch e)) evs"
  shows "json_parse (Marshal (envelope_any \<lparr>Nonce = nonceHex, EvidenceList = evs, EnvelopeArch = arch\<rparr>)) = Some (JObj
    [(''nonce'', json_quote nonceHex, JStr nonceHex),
     (''evidence_list'', Marshal (AArr (map evidence_any evs)), JArr (map (\<lambda>e. (Marshal (evidence_any e), evidence_json e)) evs)),
     (''arch'', json_quote arch, JStr arch)])"
proof -
  let ?v = "envelope_any \<lparr>Nonce = nonceHex, EvidenceList = evs, EnvelopeArch = arch\<rparr>"
  have ok: "any_ok max_nesting_depth ?v"
    by (simp add: envelope_any_def evidence_any_def max_nesting_depth_def list_all_iff)
  have "map (\<lambda>x. (Marshal x, tree x)) (map evidence_any evs) = map (\<lambda>e. (Marshal (evidence_any e), evidence_json e)) evs"
    using assms(3) by (simp add: list_all_iff tree_evidence del: Marshal.simps)
  then have "tree ?v = JObj
    [(''nonce'', json_quote nonceHex, JStr nonceHex),
     (''evidence_list'', Marshal (AArr (map evidence_any evs)), JArr (map (\<lambda>e. (Marshal (evidence_any e), evidence_json e)) evs)),
     (''arch'', json_quote arch, JStr arch)]"
    by (simp only: envelope_any_def nvidiaPayloadEnvelope.select_convs tree.simps(4-6) Marshal.simps(4) list.map prod.case
        utf8_text_ascii [OF ascii_fields(1)] utf8_text_ascii [OF ascii_fields(2)] utf8_text_ascii [OF ascii_fields(3)]
        utf8_text_ascii [OF assms(1)] utf8_text_ascii [OF assms(2)])
  with json_parse_Marshal(1) [OF ok] show ?thesis by simp
qed

lemma native_payload_text:
  assumes "Collect lib n ctx nonceHex fallbackArch = (cs, Inr out)"
  obtains nonce evs where "hex_decode nonceHex = Some nonce" "length nonce = 32" "evs \<noteq> []"
    "length evs = unat (snd (nvmlDeviceGetCount n))"
    "\<And>k. k < length evs \<Longrightarrow> snd (collectNVIDIAEvidenceForGPU n (word_of_nat k) nonce) = Inr (evs ! k)"
    "out = Marshal (envelope_any \<lparr>Nonce = nonceHex, EvidenceList = evs, EnvelopeArch = Arch (evs ! 0)\<rparr>)"
    "is_ascii nonceHex" "list_all (\<lambda>e. is_ascii (Certificate e) \<and> is_ascii (Evidence e) \<and> is_ascii (Arch e)) evs"
proof -
  from Collect_result [OF assms] obtain nonce evs where r: "hex_decode nonceHex = Some nonce" "length nonce = 32" "evs \<noteq> []"
    "length evs = unat (snd (nvmlDeviceGetCount n))"
    "\<And>k. k < length evs \<Longrightarrow> snd (collectNVIDIAEvidenceForGPU n (word_of_nat k) nonce) = Inr (evs ! k)"
    "out = marshalNVIDIAPayload lib nonceHex evs fallbackArch" by blast
  have gpu: "\<exists>i gs. collectNVIDIAEvidenceForGPU n i nonce = (gs, Inr e)" if "e \<in> set evs" for e
    using that r(5) by (metis in_set_conv_nth prod.collapse)
  have "Arch (evs ! 0) \<noteq> []" using gpu [of "evs ! 0"] gpu_arch r(3) by fastforce
  then have "out = Marshal (envelope_any \<lparr>Nonce = nonceHex, EvidenceList = evs, EnvelopeArch = Arch (evs ! 0)\<rparr>)"
    using r(3,6) by (cases evs) (simp_all add: marshalNVIDIAPayload_def del: Marshal.simps)
  moreover have "list_all (\<lambda>e. is_ascii (Certificate e) \<and> is_ascii (Evidence e) \<and> is_ascii (Arch e)) evs"
    using gpu evidence_ascii by (fastforce simp: list_all_iff)
  ultimately show thesis using that r(1-5) is_ascii_hex [OF r(1)] by blast
qed

text \<open>C26: a successful collection returns a JSON document that a reader parses to the requested nonce, the
  architecture of the first GPU, and one entry for each GPU the library counts, in their order, each the
  certificate, report and architecture collected from that GPU with the same nonce.\<close>

theorem native_payload_parsed:
  assumes "Collect lib n ctx nonceHex fallbackArch = (cs, Inr out)"
  shows "\<exists>nonce evs. hex_decode nonceHex = Some nonce \<and> length nonce = 32 \<and>
    length evs = unat (snd (nvmlDeviceGetCount n)) \<and>
    (\<forall>k < length evs. snd (collectNVIDIAEvidenceForGPU n (word_of_nat k) nonce) = Inr (evs ! k)) \<and>
    json_parse out = Some (JObj
      [(''nonce'', json_quote nonceHex, JStr nonceHex),
       (''evidence_list'', Marshal (AArr (map evidence_any evs)), JArr (map (\<lambda>e. (Marshal (evidence_any e), evidence_json e)) evs)),
       (''arch'', json_quote (Arch (evs ! 0)), JStr (Arch (evs ! 0)))])"
proof -
  from native_payload_text [OF assms] obtain nonce evs where r: "hex_decode nonceHex = Some nonce" "length nonce = 32" "evs \<noteq> []"
    "length evs = unat (snd (nvmlDeviceGetCount n))"
    "\<And>k. k < length evs \<Longrightarrow> snd (collectNVIDIAEvidenceForGPU n (word_of_nat k) nonce) = Inr (evs ! k)"
    "out = Marshal (envelope_any \<lparr>Nonce = nonceHex, EvidenceList = evs, EnvelopeArch = Arch (evs ! 0)\<rparr>)"
    "is_ascii nonceHex" "list_all (\<lambda>e. is_ascii (Certificate e) \<and> is_ascii (Evidence e) \<and> is_ascii (Arch e)) evs" by blast
  have "is_ascii (Arch (evs ! 0))" using r(3,8) by (cases evs) auto
  from payload_parsed [OF r(7) this r(8)] show ?thesis using r(1,2,4,5,6) by blast
qed

text \<open>A library with one GPU.\<close>

definition sample_library :: "go_library" where
  "sample_library = \<lparr>uni_lower = (\<lambda>s. s), uni_upper = (\<lambda>s. s), hex_error = (\<lambda>_. []), json_error = (\<lambda>_. []), url_error = (\<lambda>_. [])\<rparr>"

definition sample_nvml :: nvml_library where
  "sample_nvml = \<lparr>dl_loads = True, dl_error = None, dl_exports = (\<lambda>_. True), nvmlInitWithFlags = (\<lambda>_. 0),
     nvmlDeviceGetCount = (0, 1), nvmlDeviceGetHandleByIndex = (\<lambda>_. (0, 7)), nvmlDeviceGetArchitecture = (\<lambda>_. (0, 9)),
     nvmlDeviceGetCertificate = (\<lambda>_ c. (0, c\<lparr>attestationCertChainSize := 63, attestationCertChain := cert_pem ''leaf''\<rparr>)),
     nvmlDeviceGetAttestationReport = (\<lambda>_ r. (0, r\<lparr>attestationReportSize := 4, attestationReport := ''spdm''\<rparr>))\<rparr>"

definition sample_nonce :: bytes where
  "sample_nonce = replicate 32 (CHR ''n'')"

lemma sample_gpu: "\<exists>cs cert. collectNVIDIAEvidenceForGPU sample_nvml i nonce =
  (cs, Inr \<lparr>Certificate = cert, Evidence = base64_encode ''spdm'', Arch = ''HOPPER''\<rparr>)"
proof -
  have "length (cert_pem ''leaf'') = 63" by code_simp
  then have "take 63 (cert_pem ''leaf'') = cert_pem ''leaf''" by simp
  then have "gpu_cert sample_nvml 7 i = Inr (base64_encode nvidiaDeviceRootCertificatePEM)"
    using encode_chain [of "[''leaf'']"] by (simp add: gpu_cert_def pig_nvml_get_cert_def sample_nvml_def)
  moreover have "gpu_evidence sample_nvml 7 i nonce = Inr (base64_encode ''spdm'')"
    by (simp add: gpu_evidence_def pig_nvml_get_report_def sample_nvml_def del: base64_encode.simps)
  moreover have "nvmlDeviceGetHandleByIndex sample_nvml i = (0, 7)" "nvmlDeviceGetArchitecture sample_nvml 7 = (0, 9)"
    "nvidiaArchName 9 = Some ''HOPPER''" by (simp_all add: sample_nvml_def nvidiaArchName_def)
  ultimately show ?thesis
    by (simp add: collectNVIDIAEvidenceForGPU_def Let_def del: base64_encode.simps)
qed

lemma sample_collect: "\<exists>cs out. Collect sample_library sample_nvml (\<lambda>_. None) (hex_encode sample_nonce) ''HOPPER'' = (cs, Inr out)"
proof -
  have "missing_symbol sample_nvml = None" by (simp add: missing_symbol_def find_None_iff sample_nvml_def)
  then have o: "pig_nvml_open sample_nvml = ([Dlopen], None)" by (simp add: pig_nvml_open_def sample_nvml_def)
  have "\<exists>gs evs. collect_loop sample_nvml (\<lambda>_. None) sample_nonce 1 0 [] [Dlopen, Init, GetCount] = (gs, Inr evs)"
    using sample_gpu [of 0 sample_nonce] by (subst collect_loop.simps, subst collect_loop.simps) auto
  then obtain gs evs where l: "collect_loop sample_nvml (\<lambda>_. None) sample_nonce 1 0 [] [Dlopen, Init, GetCount] = (gs, Inr evs)"
    by blast
  have n: "nvmlInitWithFlags sample_nvml 0 = 0" "nvmlDeviceGetCount sample_nvml = (0, 1)" "length sample_nonce = 32"
    by (simp_all add: sample_nvml_def sample_nonce_def)
  show ?thesis by (simp add: Collect_def o n l)
qed

theorem native_payload_parsed_witness:
  "\<exists>cs out ms. Collect sample_library sample_nvml (\<lambda>_. None) (hex_encode sample_nonce) ''HOPPER'' = (cs, Inr out) \<and>
     json_parse out = Some (JObj ms)"
proof -
  obtain cs out where c: "Collect sample_library sample_nvml (\<lambda>_. None) (hex_encode sample_nonce) ''HOPPER'' = (cs, Inr out)"
    using sample_collect by blast
  from native_payload_parsed [OF c] c show ?thesis by blast
qed

end
