(* ===== verification/Signing.thy ===== *)
theory Signing
  imports Go_Crypto Go_Errors Go_Pem
begin

text \<open>
  \<open>internal/runtime/attestation/signing.go\<close> and \<open>tls.go\<close>: the two signing identities made at start, and
  the fingerprint of a TLS certificate. Key generation (secp256k1 and ed25519), Keccak-256, the
  parsing of X.509 certificates and the file system are parameters.
\<close>

section \<open>Signing identities\<close>

definition AlgoECDSA :: bytes where "AlgoECDSA = ''ecdsa''"

definition AlgoEd25519 :: bytes where "AlgoEd25519 = ''ed25519''"

record SigningContext =
  Algo :: bytes
  Address :: bytes
  AddressBytes :: bytes
  PublicKeyHex :: bytes

record Signers =
  s_ECDSA :: SigningContext
  s_Ed25519 :: SigningContext

text \<open>The key material: the uncompressed public key of a fresh secp256k1 key, a fresh ed25519 public key,
  and the hash.\<close>

record key_source =
  k_secp256k1 :: "go_error + bytes"
  k_ed25519 :: "go_error + bytes"
  k_keccak256 :: "bytes \<Rightarrow> bytes"

definition newECDSAContext :: "key_source \<Rightarrow> go_error + SigningContext" where
  "newECDSAContext ks =
     (case k_secp256k1 ks of
        Inl err \<Rightarrow> Inl (ErrWrap ''generate ecdsa key: '' err [])
      | Inr publicKey \<Rightarrow>
          if length publicKey \<noteq> 65 \<or> publicKey ! 0 \<noteq> CHR 0x04
          then Inl (ErrMsg (''unexpected ecdsa public key length '' @ show_int (int (length publicKey))))
          else
            (let rawPublicKey = drop 1 publicKey; sum = k_keccak256 ks rawPublicKey;
                 addressBytes = drop (length sum - 20) sum
             in Inr \<lparr>Algo = AlgoECDSA, Address = ''0x'' @ hex_encode addressBytes, AddressBytes = addressBytes,
                  PublicKeyHex = hex_encode rawPublicKey\<rparr>))"

definition newEd25519Context :: "key_source \<Rightarrow> go_error + SigningContext" where
  "newEd25519Context ks =
     (case k_ed25519 ks of
        Inl err \<Rightarrow> Inl (ErrWrap ''generate ed25519 key: '' err [])
      | Inr publicKey \<Rightarrow>
          Inr \<lparr>Algo = AlgoEd25519, Address = hex_encode publicKey, AddressBytes = publicKey,
            PublicKeyHex = hex_encode publicKey\<rparr>)"

definition NewSigners :: "key_source \<Rightarrow> go_error + Signers" where
  "NewSigners ks =
     (case newECDSAContext ks of
        Inl err \<Rightarrow> Inl err
      | Inr ecdsa \<Rightarrow>
          (case newEd25519Context ks of
             Inl err \<Rightarrow> Inl err
           | Inr ed25519 \<Rightarrow> Inr \<lparr>s_ECDSA = ecdsa, s_Ed25519 = ed25519\<rparr>))"

definition Context :: "Signers \<Rightarrow> bytes \<Rightarrow> SigningContext option" where
  "Context s algo =
     (if algo = [] \<or> algo = AlgoECDSA then Some (s_ECDSA s)
      else if algo = AlgoEd25519 then Some (s_Ed25519 s)
      else None)"

text \<open>What the documentation of the libraries promises of the key material.\<close>

definition key_source_ok :: "key_source \<Rightarrow> bool" where
  "key_source_ok ks \<longleftrightarrow>
     (\<forall>m. length (k_keccak256 ks m) = 32) \<and> (\<forall>k. k_ed25519 ks = Inr k \<longrightarrow> length k = 32)"

text \<open>An identity whose address bytes fit the report data and whose texts are the hex of its keys.\<close>

definition context_ok :: "SigningContext \<Rightarrow> bool" where
  "context_ok c \<longleftrightarrow>
     (Algo c = AlgoECDSA \<and> length (AddressBytes c) = 20 \<and> Address c = ''0x'' @ hex_encode (AddressBytes c)) \<or>
     (Algo c = AlgoEd25519 \<and> length (AddressBytes c) = 32 \<and> Address c = hex_encode (AddressBytes c) \<and>
      PublicKeyHex c = Address c)"

lemma NewSigners_ok:
  assumes "key_source_ok ks" "NewSigners ks = Inr s"
  shows "context_ok (s_ECDSA s) \<and> Algo (s_ECDSA s) = AlgoECDSA \<and> context_ok (s_Ed25519 s) \<and> Algo (s_Ed25519 s) = AlgoEd25519"
  using assms by (auto simp: NewSigners_def newECDSAContext_def newEd25519Context_def key_source_ok_def context_ok_def
      Let_def split: sum.splits if_splits)

lemma Context_ok: "\<lbrakk>context_ok (s_ECDSA s); context_ok (s_Ed25519 s); Context s algo = Some c\<rbrakk> \<Longrightarrow> context_ok c"
  by (auto simp: Context_def split: if_splits)

section \<open>Certificate fingerprints\<close>

record cert_source =
  c_read_file :: "bytes \<Rightarrow> go_error + bytes"
  c_parse_certificate :: "bytes \<Rightarrow> go_error + bytes"

text \<open>\<open>c_parse_certificate\<close> gives the raw subject public key info of a DER certificate.\<close>

definition SPKISHA256FromPEM :: "cert_source \<Rightarrow> bytes \<Rightarrow> go_error + bytes" where
  "SPKISHA256FromPEM cs pemBytes =
     (case pem_Decode pemBytes of
        None \<Rightarrow> Inl (ErrMsg ''no PEM certificate found'')
      | Some (block, _) \<Rightarrow>
          (case c_parse_certificate cs (b_Bytes block) of
             Inl err \<Rightarrow> Inl err
           | Inr spki \<Rightarrow> Inr (Sum256 spki)))"

definition ResolveSPKIFingerprint :: "cert_source \<Rightarrow> bytes \<Rightarrow> go_error + bytes" where
  "ResolveSPKIFingerprint cs path =
     (if path = [] then Inl (ErrMsg ''TLS_CERT_PATH is not set'')
      else
        (case c_read_file cs path of
           Inl err \<Rightarrow> Inl err
         | Inr pemBytes \<Rightarrow> SPKISHA256FromPEM cs pemBytes))"

lemma ResolveSPKIFingerprint_length: "ResolveSPKIFingerprint cs path = Inr fp \<Longrightarrow> length fp = 32"
  by (auto simp: ResolveSPKIFingerprint_def SPKISHA256FromPEM_def split: if_splits sum.splits option.splits prod.splits)

end
