(* ===== verification/Dstack.thy ===== *)
theory Dstack
  imports Reverse_Proxy Json_Struct Go_Errors
begin

text \<open>
  \<open>internal/runtime/attestation/dstack.go\<close>: the client of the dstack guest agent. The HTTP client is a
  parameter: a request gives an error, or a status and the bytes of the body with the error that ends
  them, if any. Its timeout and the dialing
  of a unix socket belong to the transport; the model keeps which of the two transports is used.
\<close>

record QuoteResponse =
  Quote :: bytes
  EventLog :: bytes
  ReportData :: bytes
  VMConfig :: bytes

datatype dial = DialURL | DialUnix bytes

record DstackClient =
  baseURL :: bytes
  dc_dial :: dial

type_synonym http_client = "dial \<Rightarrow> Request \<Rightarrow> go_error + int \<times> bytes \<times> go_error option"

definition trim_right_slashes :: "bytes \<Rightarrow> bytes" where
  "trim_right_slashes s = rev (dropWhile (\<lambda>c. c = CHR ''/'') (rev s))"

text \<open>The second argument is the variable \<open>DSTACK_SIMULATOR_ENDPOINT\<close>.\<close>

definition NewDstackClient :: "bytes \<Rightarrow> bytes \<Rightarrow> DstackClient" where
  "NewDstackClient endpoint simulator =
     (let endpoint = trim_space endpoint;
          endpoint = (if endpoint = [] then trim_space simulator else endpoint);
          endpoint = (if endpoint = [] then ''/var/run/dstack.sock'' else endpoint)
      in if has_prefix ''http://'' endpoint \<or> has_prefix ''https://'' endpoint
         then \<lparr>baseURL = trim_right_slashes endpoint, dc_dial = DialURL\<rparr>
         else \<lparr>baseURL = ''http://dstack'', dc_dial = DialUnix endpoint\<rparr>)"

section \<open>Calls\<close>

text \<open>Every call gives the requests it hands to the HTTP client, before its result.\<close>

type_synonym rpc_log = "(dial \<times> Request) list"

text \<open>\<open>json.Decoder.Decode\<close> of the first value of a stream: what follows an object or array is not looked
  at, a literal must be followed by space or the end.\<close>

definition decode_stream :: "bytes \<times> go_error option \<Rightarrow> json option" where
  "decode_stream body =
     (case json_value max_nesting_depth (skip_ws (fst body)) of
        None \<Rightarrow> None
      | Some (v, r) \<Rightarrow>
          (case v of
             JObj _ \<Rightarrow> Some v
           | JArr _ \<Rightarrow> Some v
           | _ \<Rightarrow> if (if r = [] then snd body = None else json_ws (hd r)) then Some v else None))"

text \<open>\<open>http.NewRequest\<close> with a body; a colon without a port is dropped from the host.\<close>

definition removeEmptyPort :: "bytes \<Rightarrow> bytes" where
  "removeEmptyPort host =
     (case split_last (CHR '':'') host of
        Some (_, colonPort) \<Rightarrow> if CHR '']'' \<in> set colonPort then host else trim_suffix '':'' host
      | None \<Rightarrow> host)"

definition NewRequest :: "go_library \<Rightarrow> bytes \<Rightarrow> bytes \<Rightarrow> bytes \<Rightarrow> go_error + Request" where
  "NewRequest lib method rawURL body =
     (case Parse rawURL of
        None \<Rightarrow> Inl (ErrMsg (url_error lib rawURL))
      | Some u \<Rightarrow>
          (let u = u\<lparr>u_Host := removeEmptyPort (u_Host u)\<rparr>
           in Inr \<lparr>q_Method = method, q_URL = Some u, q_RequestURI = [], q_Host = u_Host u,
                q_Header = Map.empty, q_Body = body\<rparr>))"

definition postRPC ::
  "go_library \<Rightarrow> http_client \<Rightarrow> DstackClient \<Rightarrow> bytes \<Rightarrow> any \<Rightarrow> rpc_log \<times> (go_error + bytes \<times> go_error option)" where
  "postRPC lib client c method payload =
     (case NewRequest lib ''POST'' (baseURL c @ ''/'' @ method) (Marshal payload) of
        Inl err \<Rightarrow> ([], Inl err)
      | Inr request \<Rightarrow>
          (let request = request\<lparr>q_Header := Set (Set (q_Header request) ''Content-Type'' ''application/json'')
                 ''User-Agent'' ''pig-tail/dstack-go''\<rparr>
           in ([(dc_dial c, request)],
               case client (dc_dial c) request of
                 Inl err \<Rightarrow> Inl err
               | Inr (status, body) \<Rightarrow>
                   if status < 200 \<or> 300 \<le> status then Inl (ErrMsg (method @ '' status '' @ show_int status))
                   else Inr body)))"

definition store_quote :: "bytes \<Rightarrow> bytes \<Rightarrow> json \<Rightarrow> QuoteResponse \<Rightarrow> QuoteResponse option" where
  "store_quote k raw v q =
     (if field_is ''quote'' k then map_option (\<lambda>s. q\<lparr>Quote := s\<rparr>) (unmarshal_string v (Quote q))
      else if field_is ''event_log'' k then map_option (\<lambda>s. q\<lparr>EventLog := s\<rparr>) (unmarshal_string v (EventLog q))
      else if field_is ''report_data'' k then map_option (\<lambda>s. q\<lparr>ReportData := s\<rparr>) (unmarshal_string v (ReportData q))
      else if field_is ''vm_config'' k then map_option (\<lambda>s. q\<lparr>VMConfig := s\<rparr>) (unmarshal_string v (VMConfig q))
      else Some q)"

definition zero_quote :: QuoteResponse where
  "zero_quote = \<lparr>Quote = [], EventLog = [], ReportData = [], VMConfig = []\<rparr>"

definition GetQuote :: "go_library \<Rightarrow> http_client \<Rightarrow> DstackClient \<Rightarrow> bytes \<Rightarrow> rpc_log \<times> (go_error + QuoteResponse)" where
  "GetQuote lib client c reportData =
     (if length reportData = 0 then ([], Inl (ErrMsg ''report_data can not be empty''))
      else if 64 < length reportData then ([], Inl (ErrMsg ''report_data must be less than 64 bytes''))
      else
        (case postRPC lib client c ''GetQuote'' (AObj [(''report_data'', AStr (hex_encode reportData))]) of
           (calls, Inl err) \<Rightarrow> (calls, Inl err)
         | (calls, Inr body) \<Rightarrow>
             (calls,
              case Option.bind (decode_stream body) (\<lambda>v. unmarshal_struct store_quote v zero_quote) of
                None \<Rightarrow> Inl (ErrMsg (json_error lib (fst body)))
              | Some q \<Rightarrow> Inr q)))"

text \<open>Text that is JSON replaces the string that holds it; on a nil map nothing is stored.\<close>

definition normalizeInfoResponse :: "(bytes \<times> any) list \<Rightarrow> (bytes \<times> any) list" where
  "normalizeInfoResponse info =
     (case map_of info ''tcb_info'' of
        Some (AStr rawTCB) \<Rightarrow>
          if trim_space rawTCB = [] then info
          else (case Unmarshal_any rawTCB of None \<Rightarrow> info | Some parsed \<Rightarrow> map_put ''tcb_info'' parsed info)
      | _ \<Rightarrow> info)"

definition Info_call :: "go_library \<Rightarrow> http_client \<Rightarrow> DstackClient \<Rightarrow> rpc_log \<times> (go_error + (bytes \<times> any) list)" where
  "Info_call lib client c =
     (case postRPC lib client c ''Info'' (AObj []) of
        (calls, Inl err) \<Rightarrow> (calls, Inl err)
      | (calls, Inr body) \<Rightarrow>
          (calls,
           case Option.bind (Option.bind (decode_stream body) to_any) any_map of
             None \<Rightarrow> Inl (ErrMsg (json_error lib (fst body)))
           | Some response \<Rightarrow> Inr (normalizeInfoResponse response)))"

end
