(* ===== verification/Report.thy ===== *)
theory Report
  imports Signing Dstack Nvidia
begin

text \<open>
  \<open>internal/runtime/attestation/report.go\<close>: the attestation report. The service holds its configuration,
  the signing identities, the dstack agent and the collector of GPU evidence; files, randomness, the
  HTTP client and commands are parameters, the fields of a world record.
\<close>

section \<open>State\<close>

record ServiceConfig =
  TLSCertPath :: bytes
  TLSCertSPKISHA256 :: bytes
  GPUArch :: bytes
  NVIDIAPayload :: bytes
  NVIDIAPayloadFile :: bytes
  NVIDIAPayloadURL :: bytes
  NVIDIAPayloadAuth :: bytes
  NVIDIACommand :: bytes
  NVIDIACommandArgs :: "bytes list"
  NVIDIACommandTimeout :: int
  RequireNVIDIAEvidence :: bool

text \<open>The result of a command: the error of its context, and its output or error with what it wrote to
  the standard error stream, if it is known.\<close>

record command_result =
  cmd_ctx_err :: "go_error option"
  cmd_output :: "(go_error \<times> bytes) + bytes"

record world =
  w_lib :: go_library
  w_certs :: cert_source
  w_random32 :: "go_error + bytes"
  w_client :: http_client
  w_command :: "bytes \<Rightarrow> bytes list \<Rightarrow> command_result"

text \<open>The interface \<open>Dstack\<close>.\<close>

record dstack =
  ds_GetQuote :: "bytes \<Rightarrow> go_error + QuoteResponse"
  ds_Info :: "go_error + (bytes \<times> any) list"

text \<open>The dstack client as an implementation of the interface.\<close>

definition dstack_of :: "go_library \<Rightarrow> http_client \<Rightarrow> DstackClient \<Rightarrow> dstack" where
  "dstack_of lib client c =
     \<lparr>ds_GetQuote = (\<lambda>reportData. snd (GetQuote lib client c reportData)), ds_Info = snd (Info_call lib client c)\<rparr>"

record Service =
  sv_cfg :: ServiceConfig
  sv_signers :: Signers
  sv_dstack :: dstack
  sv_nvidia :: "(bytes \<Rightarrow> bytes \<Rightarrow> go_error + bytes) option"

definition NewService ::
  "key_source \<Rightarrow> (bytes \<Rightarrow> bytes \<Rightarrow> go_error + bytes) \<Rightarrow> ServiceConfig \<Rightarrow> dstack \<Rightarrow> go_error + Service" where
  "NewService ks native cfg ds =
     (if length (TLSCertSPKISHA256 cfg) \<noteq> 0 \<and> length (TLSCertSPKISHA256 cfg) \<noteq> 32
      then Inl (ErrMsg ''TLS certificate SPKI fingerprint must contain 32 bytes'')
      else
        (case NewSigners ks of
           Inl err \<Rightarrow> Inl err
         | Inr signers \<Rightarrow>
             (let cfg = (if GPUArch cfg = [] then cfg\<lparr>GPUArch := ''HOPPER''\<rparr> else cfg);
                  cfg = (if NVIDIACommandTimeout cfg \<le> 0 then cfg\<lparr>NVIDIACommandTimeout := 30 * 10 ^ 9\<rparr> else cfg)
              in Inr \<lparr>sv_cfg = cfg, sv_signers = signers, sv_dstack = ds, sv_nvidia = Some native\<rparr>)))"

section \<open>Report data\<close>

definition parseNonce :: "world \<Rightarrow> bytes \<Rightarrow> go_error + bytes" where
  "parseNonce wd raw =
     (if trim_space raw = [] then w_random32 wd
      else
        (case hex_decode raw of
           None \<Rightarrow> Inl (ErrMsg ''nonce must be hex-encoded'')
         | Some nonce \<Rightarrow> if length nonce \<noteq> 32 then Inl (ErrMsg ''nonce must be 32 bytes'') else Inr nonce))"

text \<open>\<open>copy\<close> into the 32 bytes at an offset of a slice of 64.\<close>

definition copy_half :: "bytes \<Rightarrow> bytes" where
  "copy_half s = take 32 s @ replicate (32 - length s) (CHR 0x00)"

definition buildReportData :: "bytes \<Rightarrow> bytes \<Rightarrow> bytes option \<Rightarrow> go_error + bytes" where
  "buildReportData signingAddressBytes nonce certFingerprint =
     (if length signingAddressBytes = 0 then Inl (ErrMsg ''signing address must be provided'')
      else if 32 < length signingAddressBytes then Inl (ErrMsg ''signing address exceeds 32 bytes'')
      else if length nonce \<noteq> 32 then Inl (ErrMsg ''nonce must be 32 bytes'')
      else Inr (copy_half (case certFingerprint of
              Some fp \<Rightarrow> Sum256 (signingAddressBytes @ fp)
            | None \<Rightarrow> signingAddressBytes) @ copy_half nonce))"

section \<open>GPU evidence payloads\<close>

text \<open>\<open>strings.ReplaceAll\<close> for a nonempty text.\<close>

function replace_all :: "bytes \<Rightarrow> bytes \<Rightarrow> bytes \<Rightarrow> bytes" where
  "replace_all old new [] = []"
| "replace_all old new (c # s) =
     (if old \<noteq> [] \<and> has_prefix old (c # s) then new @ replace_all old new (drop (length old) (c # s))
      else c # replace_all old new s)"
  by pat_completeness auto
termination by (relation "measure (\<lambda>(old, new, s). length s)") (auto simp: Suc_le_eq)

definition normalizeNVIDIAPayload :: "go_library \<Rightarrow> bytes \<Rightarrow> bytes \<Rightarrow> bytes \<Rightarrow> go_error + bytes" where
  "normalizeNVIDIAPayload lib raw nonceHex arch =
     (let raw = trim_space raw in
      if raw = [] then Inl (ErrMsg ''nvidia payload is empty'')
      else
        (case Unmarshal_map raw of
           None \<Rightarrow> Inl (ErrWrap ''nvidia payload must be JSON: '' (ErrMsg (json_error lib raw)) [])
         | Some payload \<Rightarrow>
             if map_of payload ''evidence_list'' \<noteq> None then
               (let payload = (if map_of payload ''nonce'' = None then map_put ''nonce'' (AStr nonceHex) payload else payload);
                    payload = (if map_of payload ''arch'' = None then map_put ''arch'' (AStr arch) payload else payload)
                in Inr (Marshal (AObj payload)))
             else
               (case map_of payload ''evidences'' of
                  Some evidences \<Rightarrow>
                    (let arch = (case map_of payload ''arch'' of
                           Some (AStr payloadArch) \<Rightarrow> if payloadArch \<noteq> [] then payloadArch else arch
                         | _ \<Rightarrow> arch)
                     in Inr (Marshal (AObj (map_of_pairs
                          [(''nonce'', AStr nonceHex), (''evidence_list'', evidences), (''arch'', AStr arch)]))))
                | None \<Rightarrow>
                    (case map_of payload ''evidence'' of
                       Some (AStr s) \<Rightarrow>
                         if s \<noteq> [] then Inr (Marshal (AObj (map_of_pairs
                           [(''nonce'', AStr nonceHex), (''evidence_list'', AArr [AObj payload]), (''arch'', AStr arch)])))
                         else Inl (ErrMsg ''nvidia payload JSON must contain evidence_list, evidences, or evidence'')
                     | _ \<Rightarrow> Inl (ErrMsg ''nvidia payload JSON must contain evidence_list, evidences, or evidence'')))))"

text \<open>The last member with a name, as a map of raw messages keeps it.\<close>

definition raw_member :: "bytes \<Rightarrow> (bytes \<times> bytes \<times> json) list \<Rightarrow> bytes option" where
  "raw_member name ms = map_option fst (map_of (rev ms) name)"

definition requireNonEmptyNVIDIAEvidence :: "go_library \<Rightarrow> bytes \<Rightarrow> go_error option" where
  "requireNonEmptyNVIDIAEvidence lib normalized =
     (case Option.bind (json_parse normalized) (\<lambda>v. case v of JObj ms \<Rightarrow> Some ms | JNull \<Rightarrow> Some [] | _ \<Rightarrow> None) of
        None \<Rightarrow> Some (ErrWrap ''nvidia payload must be JSON: '' (ErrMsg (json_error lib normalized)) [])
      | Some payload \<Rightarrow>
          (case raw_member ''evidence_list'' payload of
             None \<Rightarrow> Some (ErrMsg ''nvidia payload evidence_list is required when NVIDIA evidence is required'')
           | Some rawList \<Rightarrow>
               (case Option.bind (json_parse rawList) (\<lambda>v. case v of JArr xs \<Rightarrow> Some xs | JNull \<Rightarrow> Some [] | _ \<Rightarrow> None) of
                  None \<Rightarrow> Some (ErrWrap ''nvidia payload evidence_list must be an array: '' (ErrMsg (json_error lib rawList)) [])
                | Some evidenceList \<Rightarrow>
                    if evidenceList = []
                    then Some (ErrMsg ''nvidia payload evidence_list must not be empty when NVIDIA evidence is required'')
                    else if \<exists>(evidence, v) \<in> set evidenceList. trim_space evidence = [] \<or> trim_space evidence = ''null''
                    then Some (ErrMsg ''nvidia payload evidence_list must not contain empty evidence'')
                    else None)))"

definition svc_normalizeNVIDIAPayload :: "world \<Rightarrow> Service \<Rightarrow> bytes \<Rightarrow> bytes \<Rightarrow> go_error + bytes" where
  "svc_normalizeNVIDIAPayload wd s raw nonceHex =
     (case normalizeNVIDIAPayload (w_lib wd) raw nonceHex (GPUArch (sv_cfg s)) of
        Inl err \<Rightarrow> Inl err
      | Inr normalized \<Rightarrow>
          (case (if RequireNVIDIAEvidence (sv_cfg s) then requireNonEmptyNVIDIAEvidence (w_lib wd) normalized else None) of
             Some err \<Rightarrow> Inl err
           | None \<Rightarrow> Inr normalized))"

section \<open>Other sources of evidence\<close>

definition runNVIDIACommand :: "world \<Rightarrow> Service \<Rightarrow> bytes \<Rightarrow> go_error + bytes" where
  "runNVIDIACommand wd s nonceHex =
     (let args = map (replace_all ''{nonce}'' nonceHex) (NVIDIACommandArgs (sv_cfg s));
          res = w_command wd (NVIDIACommand (sv_cfg s)) args
      in case cmd_ctx_err res of
           Some err \<Rightarrow> Inl (ErrWrap ''nvidia evidence command timed out: '' err [])
         | None \<Rightarrow>
             (case cmd_output res of
                Inl (err, stderr) \<Rightarrow>
                  if stderr \<noteq> [] then Inl (ErrWrap ''nvidia evidence command failed: '' err ('': '' @ trim_space stderr))
                  else Inl (ErrWrap ''nvidia evidence command failed: '' err [])
              | Inr output \<Rightarrow> Inr output))"

definition extractNVIDIAPayloadResponse :: "go_library \<Rightarrow> bytes \<Rightarrow> go_error + bytes" where
  "extractNVIDIAPayloadResponse lib body =
     (let raw = trim_space body in
      case Unmarshal_map raw of
        None \<Rightarrow> Inl (ErrWrap ''nvidia payload response must be JSON: '' (ErrMsg (json_error lib raw)) [])
      | Some payload \<Rightarrow>
          let text_member = (\<lambda>name. case map_of payload name of Some (AStr t) \<Rightarrow> t | _ \<Rightarrow> []) in
          if trim_space (text_member ''nvidia_payload'') \<noteq> [] then Inr (text_member ''nvidia_payload'')
          else if map_of payload ''evidence_list'' \<noteq> None then Inr raw
          else if map_of payload ''evidences'' \<noteq> None then Inr raw
          else if text_member ''evidence'' \<noteq> [] then Inr raw
          else Inl (ErrMsg ''nvidia payload response JSON must contain nvidia_payload, evidence_list, evidences, or evidence''))"

definition maximum_payload :: nat where
  "maximum_payload = 32 * 1024 * 1024"

definition fetch_request :: "world \<Rightarrow> Service \<Rightarrow> bytes \<Rightarrow> go_error + Request" where
  "fetch_request wd s nonceHex =
     (let raw = NVIDIAPayloadURL (sv_cfg s); auth = NVIDIAPayloadAuth (sv_cfg s) in
      case Parse raw of
        None \<Rightarrow> Inl (ErrWrap ''nvidia payload url is invalid: '' (ErrMsg (url_error (w_lib wd) raw)) [])
      | Some payloadURL \<Rightarrow>
          (let query = ParseQuery (u_RawQuery payloadURL);
               query = (if query_get query ''nonce'' = [] then query_set ''nonce'' nonceHex query else query);
               payloadURL = payloadURL\<lparr>u_RawQuery := query_encode query\<rparr>
           in case NewRequest (w_lib wd) ''GET'' (url_String payloadURL) [] of
                Inl err \<Rightarrow> Inl (ErrWrap ''nvidia payload request: '' err [])
              | Inr request \<Rightarrow>
                  Inr (if auth \<noteq> [] then request\<lparr>q_Header := Set (q_Header request) ''Authorization'' auth\<rparr> else request)))"

definition fetchNVIDIAPayload :: "world \<Rightarrow> Service \<Rightarrow> bytes \<Rightarrow> go_error + bytes" where
  "fetchNVIDIAPayload wd s nonceHex =
     (case fetch_request wd s nonceHex of
        Inl err \<Rightarrow> Inl err
      | Inr request \<Rightarrow>
          (case w_client wd DialURL request of
             Inl err \<Rightarrow> Inl (ErrWrap ''fetch nvidia payload: '' err [])
           | Inr (status, body, readErr) \<Rightarrow>
               if status < 200 \<or> 300 \<le> status then Inl (ErrMsg (''fetch nvidia payload status '' @ show_int status))
               else if maximum_payload < length body then Inl (ErrMsg ''nvidia payload response exceeds 33554432 bytes'')
               else
                 (case readErr of
                    Some err \<Rightarrow> Inl (ErrWrap ''read nvidia payload: '' err [])
                  | None \<Rightarrow> extractNVIDIAPayloadResponse (w_lib wd) body)))"

section \<open>The payload of a report\<close>

definition static_payload :: "world \<Rightarrow> Service \<Rightarrow> go_error + bytes" where
  "static_payload wd s =
     (let payload = NVIDIAPayload (sv_cfg s); file = NVIDIAPayloadFile (sv_cfg s) in
      if payload = [] \<and> file \<noteq> [] then
        (case c_read_file (w_certs wd) file of
           Inl err \<Rightarrow> Inl (ErrWrap ''read nvidia payload file: '' err [])
         | Inr body \<Rightarrow> Inr (trim_space body))
      else Inr payload)"

text \<open>The sources tried after the native collector; the argument is its error, if there is a collector.\<close>

definition fallback_payload :: "world \<Rightarrow> Service \<Rightarrow> bytes \<Rightarrow> go_error option \<Rightarrow> go_error + bytes" where
  "fallback_payload wd s nonceHex nativeErr =
     (let cfg = sv_cfg s in
      if NVIDIAPayloadURL cfg \<noteq> [] then
        (case fetchNVIDIAPayload wd s nonceHex of
           Inl err \<Rightarrow> Inl err
         | Inr output \<Rightarrow> svc_normalizeNVIDIAPayload wd s output nonceHex)
      else if NVIDIACommand cfg \<noteq> [] then
        (case runNVIDIACommand wd s nonceHex of
           Inl err \<Rightarrow> Inl err
         | Inr output \<Rightarrow> svc_normalizeNVIDIAPayload wd s output nonceHex)
      else if RequireNVIDIAEvidence cfg then
        (case nativeErr of
           Some err \<Rightarrow> Inl (ErrWrap
             ''nvidia evidence is required but native collector failed and no fallback source succeeded: '' err [])
         | None \<Rightarrow> Inl (ErrMsg
             ''nvidia evidence is required but no native collector, payload, URL, or command source is available''))
      else Inr (Marshal (envelope_any (emptyNVIDIAPayload (w_lib wd) nonceHex (GPUArch cfg)))))"

definition nvidiaPayload :: "world \<Rightarrow> Service \<Rightarrow> bytes \<Rightarrow> go_error + bytes" where
  "nvidiaPayload wd s nonceHex =
     (case static_payload wd s of
        Inl err \<Rightarrow> Inl err
      | Inr payload \<Rightarrow>
          if payload \<noteq> [] then svc_normalizeNVIDIAPayload wd s (replace_all ''${nonce}'' nonceHex payload) nonceHex
          else
            (case sv_nvidia s of
               None \<Rightarrow> fallback_payload wd s nonceHex None
             | Some collect \<Rightarrow>
                 (case collect nonceHex (GPUArch (sv_cfg s)) of
                    Inr output \<Rightarrow> svc_normalizeNVIDIAPayload wd s output nonceHex
                  | Inl err \<Rightarrow> fallback_payload wd s nonceHex (Some err))))"

section \<open>The report\<close>

text \<open>A Go map is its list of entries sorted by key, so a copy is the map itself.\<close>

definition cloneMap :: "(bytes \<times> any) list \<Rightarrow> (bytes \<times> any) list" where
  "cloneMap input = fold (\<lambda>(k, v) m. map_put k v m) input []"

definition normalizeReportInfo :: "(bytes \<times> any) list \<Rightarrow> (bytes \<times> any) list" where
  "normalizeReportInfo info = map_delete ''cloud_vendor'' (map_delete ''cloud_product'' (cloneMap info))"

definition cert_fingerprint :: "world \<Rightarrow> Service \<Rightarrow> int \<Rightarrow> go_error + bytes option" where
  "cert_fingerprint wd s version =
     (if version < 2 then Inr None
      else if TLSCertSPKISHA256 (sv_cfg s) \<noteq> [] then Inr (Some (TLSCertSPKISHA256 (sv_cfg s)))
      else
        (case ResolveSPKIFingerprint (w_certs wd) (TLSCertPath (sv_cfg s)) of
           Inl err \<Rightarrow> Inl (badRequestError ''attestation version 2 requires a TLS certificate (set TLS_CERT_PATH)'')
         | Inr fp \<Rightarrow> Inr (Some fp)))"

definition attestation_map ::
  "SigningContext \<Rightarrow> bytes \<Rightarrow> QuoteResponse \<Rightarrow> bytes \<Rightarrow> (bytes \<times> any) list \<Rightarrow> int \<Rightarrow> bytes option \<Rightarrow> (bytes \<times> any) list" where
  "attestation_map c nonceHex quote payload info version fp =
     (let m = map_of_pairs
        [(''signing_address'', AStr (Address c)), (''signing_algo'', AStr (Algo c)),
         (''signing_public_key'', AStr (PublicKeyHex c)), (''request_nonce'', AStr nonceHex),
         (''intel_quote'', AStr (Quote quote)), (''nvidia_payload'', AStr payload), (''info'', AObj info),
         (''quote'', AStr (Quote quote)), (''event_log'', AStr (EventLog quote)),
         (''vm_config'', AStr (VMConfig quote)), (''version'', AInt version)]
      in case fp of None \<Rightarrow> m | Some f \<Rightarrow> map_put ''tls_cert_fingerprint'' (AStr (hex_encode f)) m)"

text \<open>The part of \<open>Generate\<close> after the report data is built.\<close>

definition assemble ::
  "world \<Rightarrow> Service \<Rightarrow> SigningContext \<Rightarrow> int \<Rightarrow> bytes \<Rightarrow> bytes option \<Rightarrow> bytes \<Rightarrow> go_error + (bytes \<times> any) list" where
  "assemble wd s c version nonce fp reportData =
     (case ds_GetQuote (sv_dstack s) reportData of
        Inl err \<Rightarrow> Inl (ErrWrap ''get dstack quote: '' err [])
      | Inr quote \<Rightarrow>
          (case ds_Info (sv_dstack s) of
             Inl err \<Rightarrow> Inl (ErrWrap ''get dstack info: '' err [])
           | Inr info \<Rightarrow>
               (case nvidiaPayload wd s (hex_encode nonce) of
                  Inl err \<Rightarrow> Inl err
                | Inr payload \<Rightarrow>
                    (let att = attestation_map c (hex_encode nonce) quote payload (normalizeReportInfo info) version fp
                     in Inr (map_put ''all_attestations'' (AArr [AObj att]) (cloneMap att))))))"

definition Generate :: "world \<Rightarrow> Service \<Rightarrow> ReportRequest \<Rightarrow> go_error + (bytes \<times> any) list" where
  "Generate wd s req =
     (let version = (if rr_Version req = 0 then 1 else rr_Version req) in
      if version \<noteq> 1 \<and> version \<noteq> 2
      then Inl (badRequestError (''Unsupported attestation report version: '' @ show_int version))
      else
        (case Context (sv_signers s) (to_lower (uni_lower (w_lib wd)) (trim_space (rr_SigningAlgo req))) of
           None \<Rightarrow> Inl (badRequestError ''Unsupported signing algorithm'')
         | Some c \<Rightarrow>
             (case parseNonce wd (rr_NonceHex req) of
                Inl err \<Rightarrow> Inl (badRequestError (error_text err))
              | Inr nonce \<Rightarrow>
                  (case cert_fingerprint wd s version of
                     Inl err \<Rightarrow> Inl err
                   | Inr fp \<Rightarrow>
                       (case buildReportData (AddressBytes c) nonce fp of
                          Inl err \<Rightarrow> Inl (badRequestError (error_text err))
                        | Inr reportData \<Rightarrow> assemble wd s c version nonce fp reportData)))))"

end
