(* ===== verification/Report_Props.thy ===== *)
theory Report_Props
  imports Report Nvidia_Props
begin

text \<open>
  What an attestation report guarantees to the one who verifies it: the quote covers the signing
  identity, the TLS certificate and the nonce that the report names, GPU evidence is there when it is
  required, and which requests are refused.
\<close>

section \<open>Maps\<close>

lemma map_of_map_put [simp]: "map_of (map_put k v m) x = (if x = k then Some v else map_of m x)"
  by (induction k v m rule: map_put.induct) auto

lemma map_of_map_delete [simp]: "map_of (map_delete k m) x = (if x = k then None else map_of m x)"
  by (induction m) (auto simp: map_delete_def)

lemma map_of_fold_put: "map_of (fold (\<lambda>(k, v) m. map_put k v m) ps m0) x = (case map_of (rev ps) x of None \<Rightarrow> map_of m0 x | Some v \<Rightarrow> Some v)"
proof (induction ps arbitrary: m0)
  case (Cons p ps)
  obtain k v where p: "p = (k, v)" by (cases p)
  show ?case using Cons.IH [of "map_put k v m0"] by (auto simp: p map_add_def split: option.splits)
qed simp

lemma map_of_cloneMap: "map_of (cloneMap m) x = map_of (rev m) x"
  by (simp add: cloneMap_def map_of_fold_put split: option.splits)

lemma map_of_pairs_lookup: "map_of (map_of_pairs ps) x = map_of (rev ps) x"
  by (simp add: map_of_pairs_def map_of_fold_put split: option.splits)

text \<open>Keys stay in strict order, so copying a map changes nothing.\<close>

lemma bytes_less_irrefl [simp]: "\<not> bytes_less k k"
  by (induction k) auto

lemma bytes_less_trans: "\<lbrakk>bytes_less a b; bytes_less b c\<rbrakk> \<Longrightarrow> bytes_less a c"
proof (induction a b arbitrary: c rule: bytes_less.induct)
  case (3 x s y t)
  then show ?case by (cases c) (auto split: if_splits)
qed (auto elim: bytes_less.elims)

lemma bytes_less_total: "bytes_less a b \<or> a = b \<or> bytes_less b a"
proof (induction a b rule: bytes_less.induct)
  case (3 x s y t)
  then show ?case using code_inj [of x y] by (auto simp: not_less)
next
  case (1 s)
  then show ?case by (cases s) auto
qed auto

definition sorted_keys :: "(bytes \<times> 'a) list \<Rightarrow> bool" where
  "sorted_keys m \<longleftrightarrow> sorted_wrt bytes_less (map fst m)"

lemma map_put_keys: "set (map fst (map_put k v m)) = insert k (set (map fst m))"
  by (induction k v m rule: map_put.induct) auto

lemma sorted_map_put: "sorted_keys m \<Longrightarrow> sorted_keys (map_put k v m)"
proof (induction k v m rule: map_put.induct)
  case (2 k v j w m)
  have rest: "\<forall>x \<in> set (map fst m). bytes_less j x" "sorted_keys m" using "2.prems" by (simp_all add: sorted_keys_def)
  show ?case
  proof (cases "k = j \<or> bytes_less k j")
    case True
    then show ?thesis using rest bytes_less_trans by (auto simp: sorted_keys_def)
  next
    case False
    then have "bytes_less j k" using bytes_less_total by blast
    then show ?thesis using False "2.IH" rest map_put_keys [of k v m] by (auto simp: sorted_keys_def)
  qed
qed (simp add: sorted_keys_def)

lemma sorted_map_of_pairs: "sorted_keys (map_of_pairs ps)"
proof -
  have "sorted_keys m \<Longrightarrow> sorted_keys (fold (\<lambda>(k, v) m. map_put k v m) ps m)" for m
    by (induction ps arbitrary: m) (auto simp: sorted_map_put split: prod.splits)
  then show ?thesis by (simp add: map_of_pairs_def sorted_keys_def)
qed

lemma map_put_last: "\<forall>x \<in> set (map fst m). bytes_less x k \<Longrightarrow> map_put k v m = m @ [(k, v)]"
proof (induction k v m rule: map_put.induct)
  case (2 k v j w m)
  then have "bytes_less j k" by simp
  then have "k \<noteq> j" "\<not> bytes_less k j" using bytes_less_trans [of j k j] by auto
  with 2 show ?case by simp
qed simp

lemma cloneMap_id:
  assumes "sorted_keys m" shows "cloneMap m = m"
proof -
  have "fold (\<lambda>(k, v) m. map_put k v m) ps acc = acc @ ps" if "sorted_wrt bytes_less (map fst (acc @ ps))" for ps acc :: "(bytes \<times> any) list"
    using that
  proof (induction ps arbitrary: acc)
    case (Cons p ps)
    have "map_put (fst p) (snd p) acc = acc @ [p]"
      using Cons.prems by (subst map_put_last) (auto simp: sorted_wrt_append)
    then show ?case using Cons.IH [of "acc @ [p]"] Cons.prems by (simp add: split_beta)
  qed simp
  from this [of "[]" m] assms show ?thesis by (simp add: cloneMap_def sorted_keys_def)
qed

section \<open>The fields of a report\<close>

lemma attestation_lookup:
  fixes c nonceHex quote payload info version fp
  defines "m \<equiv> attestation_map c nonceHex quote payload info version fp"
  shows "map_of m ''signing_address'' = Some (AStr (Address c))" "map_of m ''signing_algo'' = Some (AStr (Algo c))"
    "map_of m ''signing_public_key'' = Some (AStr (PublicKeyHex c))" "map_of m ''request_nonce'' = Some (AStr nonceHex)"
    "map_of m ''intel_quote'' = Some (AStr (Quote quote))" "map_of m ''quote'' = Some (AStr (Quote quote))"
    "map_of m ''nvidia_payload'' = Some (AStr payload)" "map_of m ''info'' = Some (AObj info)"
    "map_of m ''event_log'' = Some (AStr (EventLog quote))" "map_of m ''vm_config'' = Some (AStr (VMConfig quote))"
    "map_of m ''version'' = Some (AInt version)"
    "map_of m ''tls_cert_fingerprint'' = map_option (\<lambda>f. AStr (hex_encode f)) fp"
    "map_of m ''all_attestations'' = None"
  by (cases fp; simp add: m_def attestation_map_def map_of_pairs_lookup)+

lemma sorted_attestation: "sorted_keys (attestation_map c nonceHex quote payload info version fp)"
  by (simp add: attestation_map_def sorted_map_of_pairs sorted_map_put Let_def split: option.splits)

text \<open>What a successful call has done.\<close>

lemma Generate_success:
  assumes "Generate wd s req = Inr resp"
  obtains version c nonce fp rd quote info payload att where
    "version = (if rr_Version req = 0 then 1 else rr_Version req)" "version = 1 \<or> version = 2"
    "Context (sv_signers s) (to_lower (uni_lower (w_lib wd)) (trim_space (rr_SigningAlgo req))) = Some c"
    "parseNonce wd (rr_NonceHex req) = Inr nonce" "cert_fingerprint wd s version = Inr fp"
    "buildReportData (AddressBytes c) nonce fp = Inr rd" "ds_GetQuote (sv_dstack s) rd = Inr quote"
    "ds_Info (sv_dstack s) = Inr info" "nvidiaPayload wd s (hex_encode nonce) = Inr payload"
    "att = attestation_map c (hex_encode nonce) quote payload (normalizeReportInfo info) version fp"
    "resp = map_put ''all_attestations'' (AArr [AObj att]) att"
proof -
  from assms show thesis
    by (auto simp: Generate_def assemble_def Let_def cloneMap_id [OF sorted_attestation] split: if_splits option.splits sum.splits
        intro!: that)
qed

section \<open>What the quote covers\<close>

definition text_field :: "(bytes \<times> any) list \<Rightarrow> bytes \<Rightarrow> bytes option" where
  "text_field resp k = (case map_of resp k of Some (AStr t) \<Rightarrow> Some t | _ \<Rightarrow> None)"

text \<open>What a verifier computes from the fields of a report alone: the address bytes, padded with zeros or
  hashed with the certificate fingerprint, then the nonce.\<close>

definition expected_report_data :: "(bytes \<times> any) list \<Rightarrow> bytes option" where
  "expected_report_data resp =
     Option.bind (text_field resp ''signing_algo'') (\<lambda>algo.
     Option.bind (Option.bind (text_field resp ''signing_address'') (\<lambda>a. hex_decode (if algo = ''ecdsa'' then drop 2 a else a))) (\<lambda>addr.
     Option.bind (Option.bind (text_field resp ''request_nonce'') hex_decode) (\<lambda>nonce.
       (case map_of resp ''tls_cert_fingerprint'' of
          None \<Rightarrow> Some (addr @ replicate (32 - length addr) (CHR 0x00) @ nonce)
        | Some _ \<Rightarrow> Option.bind (Option.bind (text_field resp ''tls_cert_fingerprint'') hex_decode) (\<lambda>fp.
            Some (Sum256 (addr @ fp) @ nonce))))))"

lemma copy_half_32: "length s = 32 \<Longrightarrow> copy_half s = s"
  by (simp add: copy_half_def)

lemma buildReportData_result:
  assumes "buildReportData addr nonce fp = Inr rd"
  shows "rd = (case fp of None \<Rightarrow> addr @ replicate (32 - length addr) (CHR 0x00) | Some f \<Rightarrow> Sum256 (addr @ f)) @ nonce"
    "length nonce = 32" "length rd = 64"
  using assms by (auto simp: buildReportData_def copy_half_32 copy_half_def split: if_splits option.splits)

lemma parseNonce_result:
  assumes "parseNonce wd raw = Inr nonce" "\<And>n. w_random32 wd = Inr n \<Longrightarrow> length n = 32"
  shows "length nonce = 32" "trim_space raw \<noteq> [] \<Longrightarrow> hex_decode raw = Some nonce"
  using assms by (auto simp: parseNonce_def split: if_splits option.splits)

lemma cert_fingerprint_result:
  "cert_fingerprint wd s version = Inr fp \<Longrightarrow> fp = None \<longleftrightarrow> version < 2"
  "\<lbrakk>cert_fingerprint wd s version = Inr fp; TLSCertSPKISHA256 (sv_cfg s) \<noteq> []; 2 \<le> version\<rbrakk> \<Longrightarrow> fp = Some (TLSCertSPKISHA256 (sv_cfg s))"
  by (auto simp: cert_fingerprint_def split: if_splits sum.splits)

lemma NewService_result:
  assumes "NewService ks native cfg ds = Inr s"
  shows "sv_dstack s = ds" "sv_nvidia s = Some native" "NewSigners ks = Inr (sv_signers s)"
    "TLSCertSPKISHA256 (sv_cfg s) = TLSCertSPKISHA256 cfg" "RequireNVIDIAEvidence (sv_cfg s) = RequireNVIDIAEvidence cfg"
    "length (TLSCertSPKISHA256 cfg) = 0 \<or> length (TLSCertSPKISHA256 cfg) = 32"
  using assms by (auto simp: NewService_def Let_def split: if_splits sum.splits)

lemma expected_report_data_attestation:
  assumes "context_ok c" "buildReportData (AddressBytes c) nonce fp = Inr rd"
  shows "expected_report_data (map_put ''all_attestations'' v (attestation_map c (hex_encode nonce) quote payload info version fp)) = Some rd"
proof -
  have "Option.bind (Some (Address c)) (\<lambda>a. hex_decode (if Algo c = ''ecdsa'' then drop 2 a else a)) = Some (AddressBytes c)"
    using assms(1) by (auto simp: context_ok_def AlgoECDSA_def AlgoEd25519_def)
  then show ?thesis
    using buildReportData_result(1) [OF assms(2)]
    by (cases fp) (simp_all add: expected_report_data_def text_field_def attestation_lookup)
qed

text \<open>C27: the quote in a report is the answer of the dstack agent to 64 bytes of report data that a verifier
  can recompute from the report's own fields: the signing identity, bound to the TLS certificate exactly
  in version 2, and the nonce, which is the requested one if there is one. With a listener certificate
  the fingerprint is that certificate's.\<close>

theorem report_binds_identity:
  assumes "NewService ks native cfg ds = Inr s" and "key_source_ok ks"
    and "\<And>n. w_random32 wd = Inr n \<Longrightarrow> length n = 32" and "Generate wd s req = Inr resp"
  shows "\<exists>rd quote. ds_GetQuote ds rd = Inr quote \<and> expected_report_data resp = Some rd \<and> length rd = 64 \<and>
    text_field resp ''quote'' = Some (Quote quote) \<and> text_field resp ''intel_quote'' = Some (Quote quote) \<and>
    (trim_space (rr_NonceHex req) \<noteq> [] \<longrightarrow> hex_decode (rr_NonceHex req) = Some (drop 32 rd)) \<and>
    (map_of resp ''tls_cert_fingerprint'' \<noteq> None \<longleftrightarrow> rr_Version req = 2) \<and>
    (rr_Version req = 2 \<and> TLSCertSPKISHA256 cfg \<noteq> [] \<longrightarrow>
       text_field resp ''tls_cert_fingerprint'' = Some (hex_encode (TLSCertSPKISHA256 cfg)))"
proof -
  note ns = NewService_result [OF assms(1)]
  from Generate_success [OF assms(4)] obtain version c nonce fp rd quote info payload att where
    g: "version = (if rr_Version req = 0 then 1 else rr_Version req)" "version = 1 \<or> version = 2"
    "Context (sv_signers s) (to_lower (uni_lower (w_lib wd)) (trim_space (rr_SigningAlgo req))) = Some c"
    "parseNonce wd (rr_NonceHex req) = Inr nonce" "cert_fingerprint wd s version = Inr fp"
    "buildReportData (AddressBytes c) nonce fp = Inr rd" "ds_GetQuote (sv_dstack s) rd = Inr quote"
    "att = attestation_map c (hex_encode nonce) quote payload (normalizeReportInfo info) version fp"
    "resp = map_put ''all_attestations'' (AArr [AObj att]) att" by metis
  have c: "context_ok c" using Context_ok NewSigners_ok [OF assms(2) ns(3)] g(3) by blast
  have rd: "drop 32 rd = nonce" "length rd = 64" using buildReportData_result [OF g(6)] by auto
  have v2: "rr_Version req = 2 \<longleftrightarrow> version = 2" using g(1) by auto
  have fp: "fp = None \<longleftrightarrow> rr_Version req \<noteq> 2" "rr_Version req = 2 \<and> TLSCertSPKISHA256 cfg \<noteq> [] \<longrightarrow> fp = Some (TLSCertSPKISHA256 cfg)"
    using cert_fingerprint_result [OF g(5)] g(2) v2 ns(4) by auto
  have "expected_report_data resp = Some rd" unfolding g(8,9) by (rule expected_report_data_attestation [OF c g(6)])
  moreover have "ds_GetQuote ds rd = Inr quote" using g(7) ns(1) by simp
  moreover have "text_field resp ''quote'' = Some (Quote quote) \<and> text_field resp ''intel_quote'' = Some (Quote quote)"
    "map_of resp ''tls_cert_fingerprint'' = map_option (\<lambda>f. AStr (hex_encode f)) fp"
    by (simp_all add: g(8,9) text_field_def attestation_lookup)
  ultimately show ?thesis using rd parseNonce_result [OF g(4) assms(3)] fp by (auto simp: text_field_def)
qed

text \<open>A service with fixed keys and no GPU.\<close>

definition sample_keys :: key_source where
  "sample_keys = \<lparr>k_secp256k1 = Inr (CHR 0x04 # replicate 64 (CHR ''p'')), k_ed25519 = Inr (replicate 32 (CHR ''e'')),
     k_keccak256 = (\<lambda>_. replicate 32 (CHR ''h''))\<rparr>"

definition sample_service_config :: "bytes \<Rightarrow> bool \<Rightarrow> ServiceConfig" where
  "sample_service_config payload required = \<lparr>TLSCertPath = [], TLSCertSPKISHA256 = replicate 32 (CHR ''f''), GPUArch = [],
     NVIDIAPayload = payload, NVIDIAPayloadFile = [], NVIDIAPayloadURL = [], NVIDIAPayloadAuth = [], NVIDIACommand = [],
     NVIDIACommandArgs = [], NVIDIACommandTimeout = 0, RequireNVIDIAEvidence = required\<rparr>"

definition sample_dstack :: dstack where
  "sample_dstack = \<lparr>ds_GetQuote = (\<lambda>rd. Inr \<lparr>Quote = hex_encode rd, EventLog = [], ReportData = [], VMConfig = []\<rparr>), ds_Info = Inr []\<rparr>"

definition sample_world :: world where
  "sample_world = \<lparr>w_lib = sample_library, w_certs = \<lparr>c_read_file = (\<lambda>_. Inl (ErrMsg [])), c_parse_certificate = (\<lambda>_. Inl (ErrMsg []))\<rparr>,
     w_random32 = Inr (replicate 32 (CHR ''r'')), w_client = (\<lambda>_ _. Inl (ErrMsg [])),
     w_command = (\<lambda>_ _. \<lparr>cmd_ctx_err = None, cmd_output = Inl (ErrMsg [], [])\<rparr>)\<rparr>"

definition sample_report_request :: "bytes \<Rightarrow> ReportRequest" where
  "sample_report_request algo = \<lparr>rr_SigningAlgo = algo, rr_NonceHex = [], rr_Version = 2\<rparr>"

lemma sample_keys_ok: "key_source_ok sample_keys"
  by (simp add: key_source_ok_def sample_keys_def)

lemma sample_random: "w_random32 sample_world = Inr n \<Longrightarrow> length n = 32"
  by (auto simp: sample_world_def)

lemma sample_NewService:
  "\<exists>s. NewService sample_keys unavailable_Collect (sample_service_config payload required) ds = Inr s"
  by (simp add: NewService_def sample_service_config_def NewSigners_def newECDSAContext_def newEd25519Context_def sample_keys_def Let_def)

lemma sample_fingerprint: "TLSCertSPKISHA256 (sample_service_config payload required) \<noteq> []"
  by (simp add: sample_service_config_def)

lemma sample_Generate_payload:
  assumes "NewService sample_keys native cfg ds = Inr s"
    and "\<And>rd. length rd = 64 \<Longrightarrow> \<exists>q. ds_GetQuote ds rd = Inr q" and "\<exists>info. ds_Info ds = Inr info"
    and "\<exists>p. nvidiaPayload sample_world s (hex_encode (replicate 32 (CHR ''r''))) = Inr p" and "TLSCertSPKISHA256 cfg \<noteq> []"
  shows "\<exists>resp. Generate sample_world s (sample_report_request ''ed25519'') = Inr resp"
proof -
  let ?nonce = "replicate 32 (CHR ''r'')" and ?fp = "TLSCertSPKISHA256 cfg"
  note ns = NewService_result [OF assms(1)]
  have alg: "to_lower (uni_lower (w_lib sample_world)) (trim_space (rr_SigningAlgo (sample_report_request ''ed25519''))) = AlgoEd25519"
    by code_simp
  have ctx: "Context (sv_signers s) AlgoEd25519 = Some (s_Ed25519 (sv_signers s))"
    by (simp add: Context_def AlgoEd25519_def AlgoECDSA_def)
  have addr: "length (AddressBytes (s_Ed25519 (sv_signers s))) = 32"
    using NewSigners_ok [OF sample_keys_ok ns(3)] by (auto simp: context_ok_def AlgoECDSA_def AlgoEd25519_def)
  have nonce: "parseNonce sample_world (rr_NonceHex (sample_report_request ''ed25519'')) = Inr ?nonce"
    by (simp add: parseNonce_def sample_report_request_def sample_world_def)
  have fp: "cert_fingerprint sample_world s 2 = Inr (Some ?fp)"
    using ns(4) assms(5) by (simp add: cert_fingerprint_def)
  have "\<exists>rd. buildReportData (AddressBytes (s_Ed25519 (sv_signers s))) ?nonce (Some ?fp) = Inr rd"
    using addr by (simp add: buildReportData_def)
  then obtain rd where rd: "buildReportData (AddressBytes (s_Ed25519 (sv_signers s))) ?nonce (Some ?fp) = Inr rd" by blast
  have "\<exists>resp. assemble sample_world s c 2 ?nonce f rd = Inr resp" for c f
    using ns(1) assms(2) [of rd] assms(3,4) buildReportData_result(3) [OF rd] by (auto simp: assemble_def Let_def)
  moreover have "rr_Version (sample_report_request ''ed25519'') = 2" by (simp add: sample_report_request_def)
  ultimately show ?thesis by (simp add: Generate_def alg ctx nonce fp rd)
qed

lemma sample_config_fields:
  assumes "NewService sample_keys unavailable_Collect (sample_service_config payload required) ds = Inr s"
  shows "NVIDIAPayload (sv_cfg s) = payload" "NVIDIAPayloadFile (sv_cfg s) = []" "NVIDIAPayloadURL (sv_cfg s) = []"
    "NVIDIACommand (sv_cfg s) = []" "RequireNVIDIAEvidence (sv_cfg s) = required" "GPUArch (sv_cfg s) = ''HOPPER''"
  using assms by (auto simp: NewService_def sample_service_config_def Let_def split: if_splits sum.splits)

lemma sample_dstack_answers: "\<exists>q. ds_GetQuote sample_dstack rd = Inr q" "\<exists>info. ds_Info sample_dstack = Inr info"
  by (simp_all add: sample_dstack_def)

lemma sample_Generate:
  assumes "NewService sample_keys unavailable_Collect (sample_service_config [] False) ds = Inr s"
    and "\<And>rd. length rd = 64 \<Longrightarrow> \<exists>q. ds_GetQuote ds rd = Inr q" and "\<exists>info. ds_Info ds = Inr info"
  shows "\<exists>resp. Generate sample_world s (sample_report_request ''ed25519'') = Inr resp"
proof (rule sample_Generate_payload [OF assms(1)])
  show "\<exists>p. nvidiaPayload sample_world s (hex_encode (replicate 32 (CHR ''r''))) = Inr p"
    using sample_config_fields [OF assms(1)] NewService_result(2) [OF assms(1)]
    by (simp add: nvidiaPayload_def static_payload_def unavailable_Collect_def fallback_payload_def del: Marshal.simps)
qed (use assms(2,3) sample_fingerprint in auto)

theorem report_binds_identity_witness:
  "key_source_ok sample_keys \<and> (\<exists>s resp rd. NewService sample_keys unavailable_Collect (sample_service_config [] False) sample_dstack = Inr s \<and>
     Generate sample_world s (sample_report_request ''ed25519'') = Inr resp \<and> expected_report_data resp = Some rd \<and>
     text_field resp ''quote'' = Some (hex_encode rd))"
proof -
  obtain s where s: "NewService sample_keys unavailable_Collect (sample_service_config [] False) sample_dstack = Inr s"
    using sample_NewService by blast
  obtain resp where g: "Generate sample_world s (sample_report_request ''ed25519'') = Inr resp" using sample_Generate [OF s sample_dstack_answers] by blast
  from report_binds_identity [OF s sample_keys_ok sample_random g] obtain rd quote where
    r: "ds_GetQuote sample_dstack rd = Inr quote" "expected_report_data resp = Some rd" "text_field resp ''quote'' = Some (Quote quote)"
    by blast
  then have "Quote quote = hex_encode rd" by (auto simp: sample_dstack_def)
  with r s g sample_keys_ok show ?thesis by auto
qed

section \<open>Refused requests\<close>

text \<open>A request the client got wrong: the version, the algorithm, the nonce, or version 2 without a certificate.\<close>

definition bad_request :: "world \<Rightarrow> Service \<Rightarrow> ReportRequest \<Rightarrow> bool" where
  "bad_request wd s req \<longleftrightarrow>
     rr_Version req \<notin> {0, 1, 2} \<or>
     Context (sv_signers s) (to_lower (uni_lower (w_lib wd)) (trim_space (rr_SigningAlgo req))) = None \<or>
     (\<exists>e. parseNonce wd (rr_NonceHex req) = Inl e) \<or>
     (rr_Version req = 2 \<and> TLSCertSPKISHA256 (sv_cfg s) = [] \<and>
       (\<exists>e. ResolveSPKIFingerprint (w_certs wd) (TLSCertPath (sv_cfg s)) = Inl e))"

text \<open>Errors from outside carry no HTTP status.\<close>

definition plain :: "go_error \<Rightarrow> bool" where
  "plain e \<longleftrightarrow> as_HTTPError e = None"

lemma plain_simps [simp]: "plain (ErrMsg m)" "plain (ErrWrap a e b) = plain e"
  by (simp_all add: plain_def)

definition outside_plain :: "world \<Rightarrow> Service \<Rightarrow> bool" where
  "outside_plain wd s \<longleftrightarrow>
     (\<forall>f e. c_read_file (w_certs wd) f = Inl e \<longrightarrow> plain e) \<and>
     (\<forall>d r e. w_client wd d r = Inl e \<longrightarrow> plain e) \<and> (\<forall>d r st b e. w_client wd d r = Inr (st, b, Some e) \<longrightarrow> plain e) \<and>
     (\<forall>c a e. cmd_ctx_err (w_command wd c a) = Some e \<longrightarrow> plain e) \<and>
     (\<forall>c a e t. cmd_output (w_command wd c a) = Inl (e, t) \<longrightarrow> plain e) \<and>
     (\<forall>rd e. ds_GetQuote (sv_dstack s) rd = Inl e \<longrightarrow> plain e) \<and> (\<forall>e. ds_Info (sv_dstack s) = Inl e \<longrightarrow> plain e) \<and>
     (case sv_nvidia s of None \<Rightarrow> True | Some collect \<Rightarrow> (\<forall>n a e. collect n a = Inl e \<longrightarrow> plain e))"

lemma outside_plainD:
  assumes "outside_plain wd s"
  shows "c_read_file (w_certs wd) f = Inl e \<Longrightarrow> plain e" "w_client wd d r = Inl e \<Longrightarrow> plain e"
    "w_client wd d r = Inr (st, b, Some e) \<Longrightarrow> plain e" "cmd_ctx_err (w_command wd c a) = Some e \<Longrightarrow> plain e"
    "cmd_output (w_command wd c a) = Inl (e, t) \<Longrightarrow> plain e" "ds_GetQuote (sv_dstack s) rd = Inl e \<Longrightarrow> plain e"
    "ds_Info (sv_dstack s) = Inl e \<Longrightarrow> plain e" "\<lbrakk>sv_nvidia s = Some collect; collect n x = Inl e\<rbrakk> \<Longrightarrow> plain e"
  using assms by (simp_all add: outside_plain_def) blast

lemma require_plain: "requireNonEmptyNVIDIAEvidence lib t = Some e \<Longrightarrow> plain e"
  by (auto simp: requireNonEmptyNVIDIAEvidence_def split: option.splits if_splits)

lemma normalize_plain: "svc_normalizeNVIDIAPayload wd s raw n = Inl e \<Longrightarrow> plain e"
proof -
  have "normalizeNVIDIAPayload lib raw n a = Inl e \<Longrightarrow> plain e" for lib a
    unfolding normalizeNVIDIAPayload_def Let_def
    by (auto split: option.splits if_splits any.splits simp del: Marshal.simps)
  moreover assume "svc_normalizeNVIDIAPayload wd s raw n = Inl e"
  ultimately show ?thesis
    by (auto simp: svc_normalizeNVIDIAPayload_def intro: require_plain split: sum.splits option.splits if_splits)
qed

lemma extract_plain: "extractNVIDIAPayloadResponse lib body = Inl e \<Longrightarrow> plain e"
  unfolding extractNVIDIAPayloadResponse_def Let_def by (simp split: option.splits if_splits) auto

lemma fetch_plain: "\<lbrakk>outside_plain wd s; fetchNVIDIAPayload wd s n = Inl e\<rbrakk> \<Longrightarrow> plain e"
proof -
  have "fetch_request wd s n = Inl e \<Longrightarrow> plain e"
    unfolding fetch_request_def NewRequest_def Let_def by (auto split: option.splits sum.splits if_splits)
  moreover assume "outside_plain wd s" "fetchNVIDIAPayload wd s n = Inl e"
  ultimately show ?thesis
    unfolding fetchNVIDIAPayload_def
    by (simp split: sum.splits if_splits option.splits prod.splits)
      (auto simp: extract_plain outside_plainD(2,3) [OF \<open>outside_plain wd s\<close>])
qed

lemma command_plain: "\<lbrakk>outside_plain wd s; runNVIDIACommand wd s n = Inl e\<rbrakk> \<Longrightarrow> plain e"
proof -
  assume "outside_plain wd s" "runNVIDIACommand wd s n = Inl e"
  note o = outside_plainD(4,5) [OF this(1)]
  show ?thesis using \<open>runNVIDIACommand wd s n = Inl e\<close> unfolding runNVIDIACommand_def Let_def
    by (simp split: option.splits sum.splits if_splits prod.splits) (auto simp: o)
qed

lemma fallback_plain:
  "\<lbrakk>outside_plain wd s; fallback_payload wd s n nerr = Inl e; \<And>x. nerr = Some x \<Longrightarrow> plain x\<rbrakk> \<Longrightarrow> plain e"
  unfolding fallback_payload_def Let_def
  by (auto intro: normalize_plain fetch_plain command_plain split: if_splits sum.splits option.splits simp del: Marshal.simps)

lemma nvidiaPayload_plain:
  assumes "outside_plain wd s" "nvidiaPayload wd s n = Inl e" shows "plain e"
proof -
  have static: "plain x" if "static_payload wd s = Inl x" for x
    using that outside_plainD(1) [OF assms(1)] by (auto simp: static_payload_def Let_def split: if_splits sum.splits)
  have native: "plain e" if "sv_nvidia s = Some collect" "collect m a = Inl x" "fallback_payload wd s n (Some x) = Inl e" for collect m a x
    using fallback_plain [OF assms(1) that(3)] outside_plainD(8) [OF assms(1) that(1,2)] by simp
  have none: "plain e" if "fallback_payload wd s n None = Inl e" using fallback_plain [OF assms(1) that] by simp
  show ?thesis using assms(2) unfolding nvidiaPayload_def
    by (auto intro: static normalize_plain native none split: sum.splits if_splits option.splits)
qed

lemma assemble_plain: "\<lbrakk>outside_plain wd s; assemble wd s c v n f rd = Inl e\<rbrakk> \<Longrightarrow> plain e"
proof -
  assume "outside_plain wd s" "assemble wd s c v n f rd = Inl e"
  note o = outside_plainD(6,7) [OF this(1)] nvidiaPayload_plain [OF this(1)]
  show ?thesis using \<open>assemble wd s c v n f rd = Inl e\<close> unfolding assemble_def Let_def
    by (simp split: sum.splits) (auto simp: o)
qed

lemma Generate_good:
  assumes "\<not> bad_request wd s req"
  obtains version c nonce fp where "version = (if rr_Version req = 0 then 1 else rr_Version req)" "version = 1 \<or> version = 2"
    "Context (sv_signers s) (to_lower (uni_lower (w_lib wd)) (trim_space (rr_SigningAlgo req))) = Some c"
    "parseNonce wd (rr_NonceHex req) = Inr nonce" "cert_fingerprint wd s version = Inr fp"
proof -
  obtain c where c: "Context (sv_signers s) (to_lower (uni_lower (w_lib wd)) (trim_space (rr_SigningAlgo req))) = Some c"
    using assms by (auto simp: bad_request_def)
  obtain nonce where n: "parseNonce wd (rr_NonceHex req) = Inr nonce"
    using assms by (cases "parseNonce wd (rr_NonceHex req)") (auto simp: bad_request_def)
  define version where "version = (if rr_Version req = 0 then 1 else rr_Version req)"
  have v: "version = 1 \<or> version = 2" using assms by (auto simp: bad_request_def version_def)
  have "\<exists>fp. cert_fingerprint wd s version = Inr fp"
    using assms v by (auto simp: bad_request_def cert_fingerprint_def version_def split: sum.splits if_splits)
  then show thesis using that c n v version_def by blast
qed

lemma Generate_bad:
  assumes "bad_request wd s req" shows "\<exists>m. Generate wd s req = Inl (HTTPError 400 m)"
  using assms by (auto simp: bad_request_def Generate_def cert_fingerprint_def badRequestError_def Let_def split: option.splits sum.splits)

lemma Generate_refusal:
  assumes "NewService ks native cfg ds = Inr s" and "key_source_ok ks" and "outside_plain wd s"
    and "\<And>n. w_random32 wd = Inr n \<Longrightarrow> length n = 32"
  shows "if bad_request wd s req then (\<exists>m. Generate wd s req = Inl (HTTPError 400 m))
    else (case Generate wd s req of Inl e \<Rightarrow> as_HTTPError e = None | Inr resp \<Rightarrow> True)"
proof (cases "bad_request wd s req")
  case False
  from Generate_good [OF this] obtain version c nonce fp where g: "version = (if rr_Version req = 0 then 1 else rr_Version req)"
    "version = 1 \<or> version = 2" "Context (sv_signers s) (to_lower (uni_lower (w_lib wd)) (trim_space (rr_SigningAlgo req))) = Some c"
    "parseNonce wd (rr_NonceHex req) = Inr nonce" "cert_fingerprint wd s version = Inr fp" .
  have "context_ok c" using Context_ok NewSigners_ok [OF assms(2)] NewService_result(3) [OF assms(1)] g(3) by blast
  then have "length (AddressBytes c) = 20 \<or> length (AddressBytes c) = 32" by (auto simp: context_ok_def)
  then have "AddressBytes c \<noteq> []" "length (AddressBytes c) \<le> 32" by auto
  then have "\<exists>rd. buildReportData (AddressBytes c) nonce fp = Inr rd"
    using parseNonce_result(1) [OF g(4) assms(4)] by (simp add: buildReportData_def)
  then obtain rd where rd: "buildReportData (AddressBytes c) nonce fp = Inr rd" by blast
  have "Generate wd s req = assemble wd s c version nonce fp rd"
    using g rd by (auto simp: Generate_def Let_def)
  then show ?thesis using False assemble_plain [OF assms(3)] by (auto simp: plain_def split: sum.splits)
qed (use Generate_bad in simp)

text \<open>C28: a report is refused with status 400 exactly for the requests the client got wrong; every other
  failure (the agent, the collector, a fetch, a command) carries no status and becomes a 500.\<close>

theorem refused_iff_bad_request:
  assumes "NewService ks native cfg ds = Inr s" and "key_source_ok ks" and "outside_plain wd s"
    and "\<And>n. w_random32 wd = Inr n \<Longrightarrow> length n = 32"
  shows "if bad_request wd s req then (\<exists>m. Generate wd s req = Inl (HTTPError 400 m))
    else (case Generate wd s req of Inl e \<Rightarrow> as_HTTPError e = None | Inr resp \<Rightarrow> True)"
  by (rule Generate_refusal [OF assms])

theorem refused_iff_bad_request_witness:
  "\<exists>s m. NewService sample_keys unavailable_Collect (sample_service_config [] False) sample_dstack = Inr s \<and> key_source_ok sample_keys \<and>
     outside_plain sample_world s \<and> Generate sample_world s (sample_report_request ''rsa'') = Inl (HTTPError 400 m)"
proof -
  obtain s where s: "NewService sample_keys unavailable_Collect (sample_service_config [] False) sample_dstack = Inr s"
    using sample_NewService by blast
  note ns = NewService_result [OF s]
  have out: "outside_plain sample_world s"
    by (simp add: outside_plain_def ns sample_world_def sample_dstack_def unavailable_Collect_def)
  have "to_lower (uni_lower (w_lib sample_world)) (trim_space (rr_SigningAlgo (sample_report_request ''rsa''))) = ''rsa''" by code_simp
  then have "bad_request sample_world s (sample_report_request ''rsa'')"
    by (simp add: bad_request_def Context_def AlgoECDSA_def AlgoEd25519_def)
  with refused_iff_bad_request [OF s sample_keys_ok out sample_random, of "sample_report_request ''rsa''"] s out sample_keys_ok
  show ?thesis by auto
qed

section \<open>Required GPU evidence\<close>

text \<open>A null element of an array is the text \<open>null\<close>.\<close>

lemma json_value_null: "json_value d s = Some (JNull, r) \<Longrightarrow> s = ''null'' @ r"
proof (cases s)
  case (Cons c t)
  assume "json_value d s = Some (JNull, r)"
  then have "json_literal s = Some (JNull, r)"
    unfolding Cons by (auto simp: json_value.simps Let_def split: if_splits)
  then show ?thesis by (auto simp: json_literal_def has_prefix_append split: if_splits)
qed (simp add: json_value.simps)

lemma json_elems_null: "\<lbrakk>json_elems d s = Some (xs, q); (raw, JNull) \<in> set xs\<rbrakk> \<Longrightarrow> raw = ''null''"
proof (induction "length s" arbitrary: s xs q rule: less_induct)
  case less
  obtain v r where v: "json_value d s = Some (v, r)" using less.prems(1) by (subst (asm) json_elems_eq) (auto split: option.splits)
  obtain c r' where c: "skip_ws r = c # r'" using less.prems(1) v by (subst (asm) json_elems_eq) (auto split: list.splits)
  have lt: "length (skip_ws r') < length s"
    using json_value_length [OF v] skip_ws_Cons [OF c] skip_ws_length [of r'] by linarith
  have head: "raw_text s r = ''null''" if "v = JNull" using json_value_null [of d s r] v that by (metis raw_text_append)
  show ?case
  proof (cases "c = CHR '']''")
    case True
    then have "xs = [(raw_text s r, v)]" using less.prems(1) v c by (subst (asm) json_elems_eq) simp
    then show ?thesis using head less.prems(2) by auto
  next
    case False
    then obtain ys where "json_elems d (skip_ws r') = Some (ys, q)" "xs = (raw_text s r, v) # ys"
      using less.prems(1) v c by (subst (asm) json_elems_eq) (auto split: if_splits)
    then show ?thesis using less.hyps [OF lt] head less.prems(2) by auto
  qed
qed

lemma json_parse_array_null:
  assumes "json_parse s = Some (JArr xs)" "(raw, JNull) \<in> set xs" shows "raw = ''null''"
proof -
  obtain r where v: "json_value max_nesting_depth (skip_ws s) = Some (JArr xs, r)"
    using assms(1) by (auto simp: json_parse_def split: option.splits prod.splits if_splits)
  then obtain t where t: "skip_ws s = CHR ''['' # t"
    by (cases "skip_ws s") (auto simp: json_value.simps json_literal_def Let_def split: if_splits option.splits)
  have "xs = [] \<or> (\<exists>q. json_elems (max_nesting_depth - 1) (skip_ws t) = Some (xs, q))"
    using v unfolding t by (auto simp: json_value.simps Let_def split: if_splits)
  then show ?thesis using json_elems_null assms(2) by auto
qed

text \<open>What a reader finds in a payload that passed the check.\<close>

definition has_evidence :: "bytes \<Rightarrow> bool" where
  "has_evidence out \<longleftrightarrow>
     (\<exists>ms rawList xs. json_parse out = Some (JObj ms) \<and> raw_member ''evidence_list'' ms = Some rawList \<and>
        json_parse rawList = Some (JArr xs) \<and> xs \<noteq> [] \<and> JNull \<notin> snd ` set xs)"

lemma trim_null: "trim_space ''null'' = ''null''"
  by code_simp

lemma requireNonEmpty_evidence: "requireNonEmptyNVIDIAEvidence lib out = None \<Longrightarrow> has_evidence out"
proof -
  assume none: "requireNonEmptyNVIDIAEvidence lib out = None"
  then obtain ms where ms: "json_parse out = Some (JObj ms) \<or> ms = []"
    "Option.bind (json_parse out) (\<lambda>v. case v of JObj ms \<Rightarrow> Some ms | JNull \<Rightarrow> Some [] | _ \<Rightarrow> None) = Some ms"
    by (auto simp: requireNonEmptyNVIDIAEvidence_def Option.bind_eq_Some_conv split: option.splits json.splits)
  with none obtain rawList where raw: "raw_member ''evidence_list'' ms = Some rawList"
    by (auto simp: requireNonEmptyNVIDIAEvidence_def split: option.splits)
  with ms(1) have obj: "json_parse out = Some (JObj ms)" by (auto simp: raw_member_def)
  from none obj raw obtain v where v: "json_parse rawList = Some v"
    by (auto simp: requireNonEmptyNVIDIAEvidence_def Option.bind_eq_Some_conv split: option.splits)
  from none obj raw v obtain xs where xs: "v = JArr xs" "xs \<noteq> []"
    "\<not> (\<exists>(evidence, v) \<in> set xs. trim_space evidence = [] \<or> trim_space evidence = ''null'')"
    by (cases v) (auto simp: requireNonEmptyNVIDIAEvidence_def split: if_splits)
  have "JNull \<notin> snd ` set xs"
    using xs(3) json_parse_array_null [OF v [unfolded xs(1)]] trim_null by fastforce
  then show ?thesis using obj raw v xs(1,2) by (auto simp: has_evidence_def)
qed

lemma normalized_evidence:
  "\<lbrakk>svc_normalizeNVIDIAPayload wd s raw n = Inr out; RequireNVIDIAEvidence (sv_cfg s)\<rbrakk> \<Longrightarrow> has_evidence out"
  by (auto simp: svc_normalizeNVIDIAPayload_def intro: requireNonEmpty_evidence split: sum.splits option.splits)

lemma Generate_evidence:
  assumes "RequireNVIDIAEvidence (sv_cfg s)" and "Generate wd s req = Inr resp"
  shows "\<exists>out. text_field resp ''nvidia_payload'' = Some out \<and> has_evidence out"
proof -
  from Generate_success [OF assms(2)] obtain c nonce quote payload info version fp att where
    p: "nvidiaPayload wd s (hex_encode nonce) = Inr payload"
    and att: "att = attestation_map c (hex_encode nonce) quote payload (normalizeReportInfo info) version fp"
      "resp = map_put ''all_attestations'' (AArr [AObj att]) att" by metis
  have "has_evidence payload"
    using p assms(1) unfolding nvidiaPayload_def fallback_payload_def Let_def
    by (auto intro: normalized_evidence split: sum.splits if_splits option.splits)
  then show ?thesis by (simp add: text_field_def att attestation_lookup)
qed

text \<open>C29: when GPU evidence is required, a report has a payload whose evidence list is an array with at
  least one element and none that is null, whichever source the payload came from; without such a
  payload there is no report.\<close>

theorem required_evidence_present:
  assumes "RequireNVIDIAEvidence (sv_cfg s)" and "Generate wd s req = Inr resp"
  shows "\<exists>out. text_field resp ''nvidia_payload'' = Some out \<and> has_evidence out"
  by (rule Generate_evidence [OF assms])

definition sample_payload :: bytes where
  "sample_payload = jq ''{`evidence_list`:[`spdm`]}''"

lemma sample_payload_normalized:
  "\<exists>out. normalizeNVIDIAPayload sample_library (replace_all ''${nonce}'' n sample_payload) nonceHex ''HOPPER'' = Inr out \<and>
    out = Marshal (AObj [(''arch'', AStr ''HOPPER''), (''evidence_list'', AArr [AStr ''spdm'']), (''nonce'', AStr nonceHex)])"
proof -
  have "replace_all ''${nonce}'' n sample_payload = sample_payload" by (simp add: sample_payload_def jq_def)
  moreover have "trim_space sample_payload = sample_payload" by code_simp
  moreover have "Unmarshal_map sample_payload = Some [(''evidence_list'', AArr [AStr ''spdm''])]" by code_simp
  moreover have "sample_payload \<noteq> []" by (simp add: sample_payload_def jq_def)
  ultimately show ?thesis
    by (simp add: normalizeNVIDIAPayload_def Let_def code_def del: Marshal.simps)
qed

lemma sample_payload_text: "replace_all ''${nonce}'' n sample_payload = sample_payload" "sample_payload \<noteq> []"
  by (simp_all add: sample_payload_def jq_def)

lemma sample_payload_accepted:
  assumes "GPUArch (sv_cfg s) = ''HOPPER''"
  shows "\<exists>p. svc_normalizeNVIDIAPayload sample_world s sample_payload (hex_encode (replicate 32 (CHR ''r''))) = Inr p"
proof -
  let ?n = "hex_encode (replicate 32 (CHR ''r''))"
  have ok: "requireNonEmptyNVIDIAEvidence sample_library
    (Marshal (AObj [(''arch'', AStr ''HOPPER''), (''evidence_list'', AArr [AStr ''spdm'']), (''nonce'', AStr ?n)])) = None" by code_simp
  have "w_lib sample_world = sample_library" by (simp add: sample_world_def)
  then show ?thesis
    using sample_payload_normalized [of ?n ?n] ok assms
    by (auto simp: svc_normalizeNVIDIAPayload_def sample_payload_text simp del: Marshal.simps hex_encode.simps)
qed

theorem required_evidence_present_witness:
  "\<exists>s resp out. RequireNVIDIAEvidence (sv_cfg s) \<and> Generate sample_world s (sample_report_request ''ed25519'') = Inr resp \<and>
     text_field resp ''nvidia_payload'' = Some out \<and> has_evidence out"
proof -
  let ?n = "hex_encode (replicate 32 (CHR ''r''))"
  obtain s where s: "NewService sample_keys unavailable_Collect (sample_service_config sample_payload True) sample_dstack = Inr s"
    using sample_NewService by blast
  note cfg = sample_config_fields [OF s]
  have "\<exists>p. nvidiaPayload sample_world s ?n = Inr p"
    using sample_payload_accepted [OF cfg(6)] by (simp add: nvidiaPayload_def static_payload_def cfg sample_payload_text)
  from sample_Generate_payload [OF s sample_dstack_answers this sample_fingerprint] obtain resp where g: "Generate sample_world s (sample_report_request ''ed25519'') = Inr resp" by blast
  from required_evidence_present [OF _ g] cfg(5) g show ?thesis by auto
qed

text \<open>The object a normalized payload consists of, entry by entry, when the source's object is \<open>p\<close>: a complete
  envelope with what it lacks, or a new one around the source's evidence.\<close>

definition completed :: "(bytes \<times> any) list \<Rightarrow> bytes \<Rightarrow> bytes \<Rightarrow> bytes \<Rightarrow> any option" where
  "completed p nonceHex arch k =
     (case map_of p k of
        Some v \<Rightarrow> Some v
      | None \<Rightarrow> if k = ''nonce'' then Some (AStr nonceHex) else if k = ''arch'' then Some (AStr arch) else None)"

definition enveloped :: "bytes \<Rightarrow> any \<Rightarrow> bytes \<Rightarrow> bytes \<Rightarrow> any option" where
  "enveloped nonceHex evidence arch =
     [''nonce'' \<mapsto> AStr nonceHex, ''evidence_list'' \<mapsto> evidence, ''arch'' \<mapsto> AStr arch]"

text \<open>The architecture a payload names: a text that is not empty.\<close>

definition named_arch :: "(bytes \<times> any) list \<Rightarrow> bytes \<Rightarrow> bytes" where
  "named_arch p arch = (case map_of p ''arch'' of Some (AStr a) \<Rightarrow> if a = [] then arch else a | _ \<Rightarrow> arch)"

definition single_evidence :: "(bytes \<times> any) list \<Rightarrow> bool" where
  "single_evidence p \<longleftrightarrow> (\<exists>s. map_of p ''evidence'' = Some (AStr s) \<and> s \<noteq> [])"

lemma enveloped_lookup:
  "map_of (map_of_pairs [(''nonce'', AStr n), (''evidence_list'', l), (''arch'', AStr a)]) k = enveloped n l a k"
  by (simp add: map_of_pairs_lookup enveloped_def)

lemma enveloped_map: "\<exists>m. map_of m = enveloped n l a \<and> Inr (Marshal (AObj
    (map_of_pairs [(''nonce'', AStr n), (''evidence_list'', l), (''arch'', AStr a)]))) = Inr (Marshal (AObj m))"
  using enveloped_lookup by blast

lemma completed_lookup:
  fixes p n a defines "q \<equiv> (if map_of p ''nonce'' = None then map_put ''nonce'' (AStr n) p else p)"
  shows "map_of (if map_of q ''arch'' = None then map_put ''arch'' (AStr a) q else q) k = completed p n a k"
  by (auto simp: q_def completed_def split: option.splits)

lemma unmarshal_nothing: "Unmarshal_map [] = None"
  by code_simp

text \<open>C30: a payload is normalized exactly if it is a JSON object with an evidence list, with evidences, or with
  a single evidence text. An object with an evidence list keeps every entry it has, its own nonce and
  architecture among them, and gets the requested nonce and the configured architecture where it lacks
  them. From evidences a new object is made, of the requested nonce, these evidences and the
  architecture the payload names or else the configured one; a single evidence becomes the one element
  of the list, as the whole object, with the configured architecture.\<close>

theorem normalized_payload:
  shows "case normalizeNVIDIAPayload lib raw nonceHex arch of
      Inl err \<Rightarrow> \<not> (\<exists>p. Unmarshal_map (trim_space raw) = Some p \<and>
        (map_of p ''evidence_list'' \<noteq> None \<or> map_of p ''evidences'' \<noteq> None \<or> single_evidence p))
    | Inr out \<Rightarrow> \<exists>p m. Unmarshal_map (trim_space raw) = Some p \<and> out = Marshal (AObj m) \<and>
        (map_of p ''evidence_list'' \<noteq> None \<and> map_of m = completed p nonceHex arch \<or>
         map_of p ''evidence_list'' = None \<and>
           (\<exists>l. map_of p ''evidences'' = Some l \<and> map_of m = enveloped nonceHex l (named_arch p arch)) \<or>
         map_of p ''evidence_list'' = None \<and> map_of p ''evidences'' = None \<and> single_evidence p \<and>
           map_of m = enveloped nonceHex (AArr [AObj p]) arch)"
proof (cases "Unmarshal_map (trim_space raw)")
  case None
  then show ?thesis by (simp add: normalizeNVIDIAPayload_def Let_def unmarshal_nothing)
next
  case (Some p)
  then have ne: "trim_space raw \<noteq> []" using unmarshal_nothing by (metis option.distinct(1))
  note def = normalizeNVIDIAPayload_def [of lib raw nonceHex arch, unfolded Let_def]
  show ?thesis
  proof (cases "map_of p ''evidence_list''")
    case l: (Some l)
    let ?q = "if map_of p ''nonce'' = None then map_put ''nonce'' (AStr nonceHex) p else p"
    let ?m = "if map_of ?q ''arch'' = None then map_put ''arch'' (AStr arch) ?q else ?q"
    have "map_of ?m = completed p nonceHex arch" by (rule ext) (rule completed_lookup)
    moreover have "normalizeNVIDIAPayload lib raw nonceHex arch = Inr (Marshal (AObj ?m))"
      by (simp add: def ne Some l del: Marshal.simps)
    ultimately obtain m where m: "map_of m = completed p nonceHex arch" "normalizeNVIDIAPayload lib raw nonceHex arch = Inr (Marshal (AObj m))"
      by blast
    show ?thesis unfolding m(2) sum.case using Some l m(1) by blast
  next
    case no_list: None
    show ?thesis
    proof (cases "map_of p ''evidences''")
      case e: (Some l)
      have "normalizeNVIDIAPayload lib raw nonceHex arch =
        Inr (Marshal (AObj (map_of_pairs [(''nonce'', AStr nonceHex), (''evidence_list'', l), (''arch'', AStr (named_arch p arch))])))"
        by (simp add: def ne Some no_list e named_arch_def del: Marshal.simps split: option.splits any.splits)
      then obtain m where m: "map_of m = enveloped nonceHex l (named_arch p arch)" "normalizeNVIDIAPayload lib raw nonceHex arch = Inr (Marshal (AObj m))"
        using enveloped_map by metis
      show ?thesis unfolding m(2) sum.case using Some no_list e m(1) by blast
    next
      case no_evidences: None
      show ?thesis
      proof (cases "single_evidence p")
        case True
        then have "normalizeNVIDIAPayload lib raw nonceHex arch =
          Inr (Marshal (AObj (map_of_pairs [(''nonce'', AStr nonceHex), (''evidence_list'', AArr [AObj p]), (''arch'', AStr arch)])))"
          by (auto simp: def ne Some no_list no_evidences single_evidence_def simp del: Marshal.simps)
        then obtain m where m: "map_of m = enveloped nonceHex (AArr [AObj p]) arch" "normalizeNVIDIAPayload lib raw nonceHex arch = Inr (Marshal (AObj m))"
          using enveloped_map by metis
        show ?thesis unfolding m(2) sum.case using Some no_list no_evidences True m(1) by blast
      next
        case False
        then have "\<exists>e. normalizeNVIDIAPayload lib raw nonceHex arch = Inl e"
          by (simp add: def ne Some no_list no_evidences single_evidence_def del: Marshal.simps split: option.splits any.splits)
        then obtain e where e: "normalizeNVIDIAPayload lib raw nonceHex arch = Inl e" by blast
        show ?thesis unfolding e sum.case using Some no_list no_evidences False by auto
      qed
    qed
  qed
qed

theorem normalized_payload_witness:
  "\<exists>out m. normalizeNVIDIAPayload sample_library sample_payload ''ab'' ''HOPPER'' = Inr out \<and> out = Marshal (AObj m) \<and>
     map_of m ''evidence_list'' = Some (AArr [AStr ''spdm'']) \<and> map_of m ''nonce'' = Some (AStr ''ab'') \<and>
     map_of m ''arch'' = Some (AStr ''HOPPER'')"
proof -
  have "replace_all ''${nonce}'' [] sample_payload = sample_payload" by (simp add: sample_payload_def jq_def)
  then obtain out where n: "normalizeNVIDIAPayload sample_library sample_payload ''ab'' ''HOPPER'' = Inr out"
    using sample_payload_normalized [of "[]" "''ab''"] by (auto simp del: Marshal.simps)
  have p: "Unmarshal_map (trim_space sample_payload) = Some [(''evidence_list'', AArr [AStr ''spdm''])]" by code_simp
  from normalized_payload [where lib = sample_library and raw = sample_payload and nonceHex = "''ab''" and arch = "''HOPPER''"] n p obtain m where
    "out = Marshal (AObj m)" "map_of m = completed [(''evidence_list'', AArr [AStr ''spdm''])] ''ab'' ''HOPPER''"
    by (auto simp del: Marshal.simps)
  with n show ?thesis by (intro exI [of _ out] exI [of _ m]) (simp add: completed_def del: Marshal.simps)
qed

end
