(* ===== verification/Collectors.thy ===== *)
theory Collectors
  imports Report_Props
begin

text \<open>
  The interface \<open>nvidiaCollector\<close>: what the service relies on in a collector of GPU evidence, what follows
  for the report, and the two collectors of the sources as instances.
\<close>

section \<open>The contract\<close>

text \<open>The object a collector's payload decodes to.\<close>

definition collected :: "bytes \<Rightarrow> any list \<Rightarrow> bytes \<Rightarrow> (bytes \<times> any) list" where
  "collected ar es nonceHex = [(''arch'', AStr ar), (''evidence_list'', AArr es), (''nonce'', AStr nonceHex)]"

definition entries_ok :: "any list \<Rightarrow> bool" where
  "entries_ok es \<longleftrightarrow> es \<noteq> [] \<and> list_all (\<lambda>e. \<exists>ms. e = AObj ms) es \<and> any_ok (max_nesting_depth - 1) (AArr es)"

locale nvidia_collector =
  fixes collect :: "bytes \<Rightarrow> bytes \<Rightarrow> go_error + bytes"
  assumes collect_object: "collect nonceHex arch = Inr out \<Longrightarrow>
    trim_space out \<noteq> [] \<and>
    (\<exists>ar es. Unmarshal_map (trim_space out) = Some (collected ar es nonceHex) \<and> entries_ok es)"
begin

lemma normalize_collected:
  assumes "collect nonceHex arch = Inr out"
  obtains ar es where "Unmarshal_map (trim_space out) = Some (collected ar es nonceHex)" "entries_ok es"
    "normalizeNVIDIAPayload lib out nonceHex a = Inr (Marshal (AObj (collected ar es nonceHex)))"
proof -
  from collect_object [OF assms] obtain ar es where c: "trim_space out \<noteq> []"
    "Unmarshal_map (trim_space out) = Some (collected ar es nonceHex)" "entries_ok es" by blast
  then have "normalizeNVIDIAPayload lib out nonceHex a = Inr (Marshal (AObj (collected ar es nonceHex)))"
    by (simp add: normalizeNVIDIAPayload_def Let_def collected_def del: Marshal.simps)
  with c that show thesis by blast
qed

end

section \<open>The check of required evidence accepts collected payloads\<close>

lemma trim_space_braces: "trim_space (CHR ''{'' # s @ [CHR ''}'']) = CHR ''{'' # s @ [CHR ''}'']"
  by (rule trim_space_id) (simp_all add: no_word_prefix_def unicode_spaces_def)

lemma trim_space_object: "trim_space (Marshal (AObj ms)) = Marshal (AObj ms)"
  using trim_space_braces by simp

lemma ascii_collected: "is_ascii ''arch''" "is_ascii ''evidence_list''" "is_ascii ''nonce''"
  by code_simp+

lemma require_collected:
  assumes "entries_ok es"
  shows "requireNonEmptyNVIDIAEvidence lib (Marshal (AObj (collected ar es n))) = None"
proof -
  have ok: "any_ok max_nesting_depth (AObj (collected ar es n))" "any_ok max_nesting_depth (AArr es)"
  proof -
    have mono: "any_ok d a \<Longrightarrow> d \<le> d' \<Longrightarrow> any_ok d' a" for d d' a
      by (induction a arbitrary: d d') (fastforce simp: list_all_iff diff_le_mono)+
    from assms have "any_ok (max_nesting_depth - 1) (AArr es)" by (simp add: entries_ok_def)
    moreover have "max_nesting_depth - 1 \<le> max_nesting_depth" "0 < max_nesting_depth" by (simp_all add: max_nesting_depth_def)
    ultimately show "any_ok max_nesting_depth (AObj (collected ar es n))" "any_ok max_nesting_depth (AArr es)"
      using mono by (simp_all add: collected_def del: any_ok.simps(5))
  qed
  let ?ms = "map (\<lambda>(k, v). (utf8_text k, Marshal v, tree v)) (collected ar es n)"
  have raw: "raw_member ''evidence_list'' ?ms = Some (Marshal (AArr es))"
    by (simp add: collected_def raw_member_def utf8_text_ascii [OF ascii_collected(1)] utf8_text_ascii [OF ascii_collected(2)]
        utf8_text_ascii [OF ascii_collected(3)] del: Marshal.simps)
  have "trim_space raw \<noteq> [] \<and> trim_space raw \<noteq> ''null''" if "(raw, v) \<in> set (map (\<lambda>x. (Marshal x, tree x)) es)" for raw v
  proof -
    from that assms obtain ms where "raw = Marshal (AObj ms)" by (auto simp: entries_ok_def list_all_iff simp del: Marshal.simps)
    then show ?thesis using trim_space_object [of ms] by simp
  qed
  then have nonnull: "\<not> (\<exists>(raw, v) \<in> set (map (\<lambda>x. (Marshal x, tree x)) es). trim_space raw = [] \<or> trim_space raw = ''null'')" by blast
  show ?thesis
    using json_parse_Marshal(1) [OF ok(1)] json_parse_Marshal(1) [OF ok(2)] raw nonnull assms
    by (simp add: requireNonEmptyNVIDIAEvidence_def entries_ok_def del: Marshal.simps)
qed

context nvidia_collector begin

text \<open>Without a static payload, what the collector returns is what the report carries, required or not.\<close>

lemma payload_collected:
  assumes "sv_nvidia s = Some collect" "static_payload wd s = Inr []" "collect nonceHex (GPUArch (sv_cfg s)) = Inr out"
  shows "\<exists>ar es. nvidiaPayload wd s nonceHex = Inr (Marshal (AObj (collected ar es nonceHex))) \<and>
    Unmarshal_map (trim_space out) = Some (collected ar es nonceHex)"
proof -
  obtain ar es where n: "Unmarshal_map (trim_space out) = Some (collected ar es nonceHex)" "entries_ok es"
    "normalizeNVIDIAPayload (w_lib wd) out nonceHex (GPUArch (sv_cfg s)) = Inr (Marshal (AObj (collected ar es nonceHex)))"
    by (rule normalize_collected [OF assms(3)])
  have "nvidiaPayload wd s nonceHex = Inr (Marshal (AObj (collected ar es nonceHex)))"
    using n(3) require_collected [OF n(2)] by (simp add: nvidiaPayload_def assms svc_normalizeNVIDIAPayload_def del: Marshal.simps)
  with n(1) show ?thesis by blast
qed

end

section \<open>The collectors of the sources\<close>

interpretation stub: nvidia_collector unavailable_Collect
  by unfold_locales (simp add: unavailable_Collect_def)

definition gpu_any :: "nvidiaEvidence \<Rightarrow> any" where
  "gpu_any e = AObj [(''arch'', AStr (Arch e)), (''certificate'', AStr (Certificate e)), (''evidence'', AStr (Evidence e))]"

lemma those_Some: "those (map (\<lambda>x. Some (f x)) xs) = Some (map f xs)"
  by (induction xs) auto

lemma to_any_evidence: "to_any (evidence_json e) = Some (gpu_any e)"
  by (simp add: evidence_json_def gpu_any_def map_of_pairs_def code_def)

lemma to_any_payload:
  "those (map (\<lambda>(raw, v). to_any v) xs) = Some es \<Longrightarrow>
   to_any (JObj [(''nonce'', a, JStr n), (''evidence_list'', b, JArr xs), (''arch'', c, JStr ar)]) = Some (AObj (collected ar es n))"
  by (simp add: map_of_pairs_def collected_def code_def)

lemma native_decoded:
  assumes "Collect lib nv ctx nonceHex fallbackArch = (cs, Inr out)"
  obtains nonce evs where "trim_space out = out" "out \<noteq> []"
    "Unmarshal_map out = Some (collected (Arch (evs ! 0)) (map gpu_any evs) nonceHex)" "entries_ok (map gpu_any evs)"
    "length evs = unat (snd (nvmlDeviceGetCount nv))" "hex_decode nonceHex = Some nonce"
    "\<And>k. k < length evs \<Longrightarrow> snd (collectNVIDIAEvidenceForGPU nv (word_of_nat k) nonce) = Inr (evs ! k)"
proof -
  from native_payload_text [OF assms] obtain nonce evs where c: "hex_decode nonceHex = Some nonce" "length nonce = 32" "evs \<noteq> []"
    "length evs = unat (snd (nvmlDeviceGetCount nv))"
    "\<And>k. k < length evs \<Longrightarrow> snd (collectNVIDIAEvidenceForGPU nv (word_of_nat k) nonce) = Inr (evs ! k)"
    and r: "out = Marshal (envelope_any \<lparr>Nonce = nonceHex, EvidenceList = evs, EnvelopeArch = Arch (evs ! 0)\<rparr>)"
    "is_ascii nonceHex" "list_all (\<lambda>e. is_ascii (Certificate e) \<and> is_ascii (Evidence e) \<and> is_ascii (Arch e)) evs"
    by blast
  have arch: "is_ascii (Arch (evs ! 0))" using c(3) r(3) by (cases evs) auto
  have trim: "trim_space out = out" unfolding r(1) envelope_any_def by (rule trim_space_object)
  have "those (map (\<lambda>(raw, v). to_any v) (map (\<lambda>e. (Marshal (evidence_any e), evidence_json e)) evs)) = Some (map gpu_any evs)"
    using those_Some [of gpu_any evs] by (simp add: comp_def to_any_evidence del: Marshal.simps)
  from to_any_payload [OF this] payload_parsed [OF r(2) arch r(3)]
  have "Unmarshal_any out = Some (AObj (collected (Arch (evs ! 0)) (map gpu_any evs) nonceHex))"
    unfolding r(1) Unmarshal_any_def by (simp only: bind.bind_lunit)
  then have "Unmarshal_map out = Some (collected (Arch (evs ! 0)) (map gpu_any evs) nonceHex)"
    by (simp only: Unmarshal_map_def bind.bind_lunit any_map_def any.case)
  moreover have "entries_ok (map gpu_any evs)"
    using c(3) by (simp add: entries_ok_def gpu_any_def list_all_iff max_nesting_depth_def)
  moreover have "out \<noteq> []" using r(1) by (simp add: envelope_any_def)
  ultimately show thesis using trim c(1,4,5) that by blast
qed

interpretation native: nvidia_collector "\<lambda>nonceHex arch. snd (Collect lib nv ctx nonceHex arch)" for lib nv ctx
proof unfold_locales
  fix nonceHex arch out
  assume "snd (Collect lib nv ctx nonceHex arch) = Inr out"
  then obtain cs where "Collect lib nv ctx nonceHex arch = (cs, Inr out)" by (metis prod.collapse)
  from native_decoded [OF this] obtain evs where "trim_space out = out" "out \<noteq> []"
    "Unmarshal_map out = Some (collected (Arch (evs ! 0)) (map gpu_any evs) nonceHex)" "entries_ok (map gpu_any evs)"
    by blast
  then show "trim_space out \<noteq> [] \<and>
    (\<exists>ar es. Unmarshal_map (trim_space out) = Some (collected ar es nonceHex) \<and> entries_ok es)" by metis
qed

text \<open>C31: with the native collector and no static payload, a collection that succeeds is what the report
  carries, whether evidence is required or not: the payload is the object that the collector's output
  encodes, with the requested nonce and one entry for each GPU, in their order, each the evidence
  collected from that GPU with this nonce; the later sources are not asked.\<close>

theorem native_evidence_reported:
  assumes "sv_nvidia s = Some (\<lambda>nonceHex arch. snd (Collect lib nv ctx nonceHex arch))"
    and "static_payload wd s = Inr []" and "Collect lib nv ctx nonceHex (GPUArch (sv_cfg s)) = (cs, Inr out)"
  shows "\<exists>nonce evs. hex_decode nonceHex = Some nonce \<and> length evs = unat (snd (nvmlDeviceGetCount nv)) \<and>
    (\<forall>k < length evs. snd (collectNVIDIAEvidenceForGPU nv (word_of_nat k) nonce) = Inr (evs ! k)) \<and>
    Unmarshal_map out = Some (collected (Arch (evs ! 0)) (map gpu_any evs) nonceHex) \<and>
    nvidiaPayload wd s nonceHex = Inr (Marshal (AObj (collected (Arch (evs ! 0)) (map gpu_any evs) nonceHex)))"
proof -
  have c: "snd (Collect lib nv ctx nonceHex (GPUArch (sv_cfg s))) = Inr out" using assms(3) by simp
  from native.payload_collected [OF assms(1,2) c] obtain ar es where p:
    "nvidiaPayload wd s nonceHex = Inr (Marshal (AObj (collected ar es nonceHex)))"
    "Unmarshal_map (trim_space out) = Some (collected ar es nonceHex)" by blast
  obtain nonce evs where d: "trim_space out = out" "Unmarshal_map out = Some (collected (Arch (evs ! 0)) (map gpu_any evs) nonceHex)"
    "length evs = unat (snd (nvmlDeviceGetCount nv))" "hex_decode nonceHex = Some nonce"
    "\<And>k. k < length evs \<Longrightarrow> snd (collectNVIDIAEvidenceForGPU nv (word_of_nat k) nonce) = Inr (evs ! k)"
    using native_decoded [OF assms(3)] by blast
  with p have "collected ar es nonceHex = collected (Arch (evs ! 0)) (map gpu_any evs) nonceHex" by simp
  with p(1) d show ?thesis by metis
qed

theorem native_evidence_reported_witness:
  "\<exists>s out evs. sv_nvidia s = Some (\<lambda>nonceHex arch. snd (Collect sample_library sample_nvml (\<lambda>_. None) nonceHex arch)) \<and>
     nvidiaPayload sample_world s (hex_encode sample_nonce) = Inr out \<and>
     out = Marshal (AObj (collected (Arch (evs ! 0)) (map gpu_any evs) (hex_encode sample_nonce))) \<and> length evs = 1"
proof -
  let ?collect = "\<lambda>nonceHex arch. snd (Collect sample_library sample_nvml (\<lambda>_. None) nonceHex arch)"
  obtain s where s: "NewService sample_keys ?collect (sample_service_config [] True) sample_dstack = Inr s"
    by (simp add: NewService_def sample_service_config_def NewSigners_def newECDSAContext_def newEd25519Context_def sample_keys_def Let_def)
  have cfg: "static_payload sample_world s = Inr []" "GPUArch (sv_cfg s) = ''HOPPER''"
    using s by (auto simp: NewService_def sample_service_config_def static_payload_def Let_def split: if_splits sum.splits)
  obtain cs out where "Collect sample_library sample_nvml (\<lambda>_. None) (hex_encode sample_nonce) (GPUArch (sv_cfg s)) = (cs, Inr out)"
    using sample_collect cfg(2) by metis
  from native_evidence_reported [OF NewService_result(2) [OF s] cfg(1) this] NewService_result(2) [OF s]
  show ?thesis by (auto simp: sample_nvml_def simp del: Marshal.simps)
qed

end
