(* ===== verification/Dstack_Props.thy ===== *)
theory Dstack_Props
  imports Report_Props
begin

text \<open>
  What the client of the dstack agent guarantees: the report data reaches the agent unchanged, the
  agent's answer reaches the report unchanged, and which fields of the agent's information are kept.
\<close>

section \<open>Quotes\<close>

text \<open>The call as the agent receives it.\<close>

definition quote_call :: "URL \<Rightarrow> bytes \<Rightarrow> Request" where
  "quote_call u reportData =
     \<lparr>q_Method = ''POST'', q_URL = Some (u\<lparr>u_Host := removeEmptyPort (u_Host u)\<rparr>), q_RequestURI = [],
      q_Host = removeEmptyPort (u_Host u),
      q_Header = Set (Set Map.empty ''Content-Type'' ''application/json'') ''User-Agent'' ''pig-tail/dstack-go'',
      q_Body = Marshal (AObj [(''report_data'', AStr (hex_encode reportData))])\<rparr>"

definition quote_any :: "QuoteResponse \<Rightarrow> any" where
  "quote_any q = AObj [(''quote'', AStr (Quote q)), (''event_log'', AStr (EventLog q)), (''report_data'', AStr (ReportData q)),
     (''vm_config'', AStr (VMConfig q))]"

lemma quote_fields:
  "field_is ''quote'' ''quote''" "field_is ''event_log'' ''event_log''" "field_is ''report_data'' ''report_data''"
  "field_is ''vm_config'' ''vm_config''" "\<not> field_is ''quote'' ''event_log''" "\<not> field_is ''quote'' ''report_data''"
  "\<not> field_is ''quote'' ''vm_config''" "\<not> field_is ''event_log'' ''report_data''" "\<not> field_is ''event_log'' ''vm_config''"
  "\<not> field_is ''report_data'' ''vm_config''"
  by code_simp+

lemma quote_names: "is_ascii ''quote''" "is_ascii ''event_log''" "is_ascii ''report_data''" "is_ascii ''vm_config''"
  by code_simp+

lemma is_ascii_hex_encode: "is_ascii (hex_encode s)"
  using is_ascii_hex [of "hex_encode s" s] by simp

lemma decode_stream_object:
  assumes "any_ok max_nesting_depth (AObj ms)"
  shows "decode_stream (Marshal (AObj ms), err) = Some (tree (AObj ms))"
proof -
  have "json_value max_nesting_depth (Marshal (AObj ms)) = Some (tree (AObj ms), [])"
    using reads_backD [OF json_value_Marshal [OF assms], of "[]"] by (simp del: Marshal.simps tree.simps)
  moreover have "skip_ws (Marshal (AObj ms)) = Marshal (AObj ms)" by (rule head_ok_skip [OF Marshal_head [OF assms]])
  ultimately show ?thesis by (simp add: decode_stream_def del: Marshal.simps)
qed

lemma store_quote_any:
  assumes "is_ascii (Quote q)" "is_ascii (EventLog q)" "is_ascii (ReportData q)" "is_ascii (VMConfig q)"
  shows "unmarshal_struct store_quote (tree (quote_any q)) zero_quote = Some q"
  using assms quote_names
  by (cases q) (simp add: quote_any_def unmarshal_struct_def store_quote_def quote_fields unmarshal_string_def utf8_text_ascii
      zero_quote_def del: Marshal.simps)

text \<open>The call that is made, and what becomes of its answer.\<close>

lemma quote_rpc:
  assumes "Parse (baseURL c @ ''/GetQuote'') = Some u"
  shows "postRPC lib client c ''GetQuote'' (AObj [(''report_data'', AStr (hex_encode rd))]) =
    ([(dc_dial c, quote_call u rd)],
     case client (dc_dial c) (quote_call u rd) of
       Inl err \<Rightarrow> Inl err
     | Inr (status, body) \<Rightarrow>
         if status < 200 \<or> 300 \<le> status then Inl (ErrMsg (''GetQuote'' @ '' status '' @ show_int status)) else Inr body)"
proof -
  have "NewRequest lib ''POST'' (baseURL c @ ''/'' @ ''GetQuote'') (Marshal (AObj [(''report_data'', AStr (hex_encode rd))])) =
    Inr \<lparr>q_Method = ''POST'', q_URL = Some (u\<lparr>u_Host := removeEmptyPort (u_Host u)\<rparr>), q_RequestURI = [],
      q_Host = removeEmptyPort (u_Host u), q_Header = Map.empty, q_Body = Marshal (AObj [(''report_data'', AStr (hex_encode rd))])\<rparr>"
    using assms by (simp add: NewRequest_def del: Marshal.simps)
  then show ?thesis unfolding postRPC_def quote_call_def by (simp add: Let_def del: Marshal.simps append.simps)
qed

text \<open>C32: report data of up to 64 bytes reaches the agent as the hex text of one field, from which the agent
  decodes exactly these bytes, in the only call that is made, and the agent's answer with a success
  status is returned field by field.\<close>

theorem quote_roundtrip:
  assumes "0 < length rd" and "length rd \<le> 64" and "Parse (baseURL c @ ''/GetQuote'') = Some u"
    and "client (dc_dial c) (quote_call u rd) = Inr (status, Marshal (quote_any q), err)" and "200 \<le> status" and "status < 300"
    and "is_ascii (Quote q)" and "is_ascii (EventLog q)" and "is_ascii (ReportData q)" and "is_ascii (VMConfig q)"
  shows "GetQuote lib client c rd = ([(dc_dial c, quote_call u rd)], Inr q) \<and>
    (\<exists>raw t. json_parse (q_Body (quote_call u rd)) = Some (JObj [(''report_data'', raw, JStr t)]) \<and> hex_decode t = Some rd)"
proof -
  have "postRPC lib client c ''GetQuote'' (AObj [(''report_data'', AStr (hex_encode rd))]) =
      ([(dc_dial c, quote_call u rd)], Inr (Marshal (quote_any q), err))"
    using quote_rpc [OF assms(3)] assms(4-6) by (simp del: Marshal.simps)
  moreover have "decode_stream (Marshal (quote_any q), err) = Some (tree (quote_any q))"
    unfolding quote_any_def by (rule decode_stream_object) (simp add: max_nesting_depth_def)
  ultimately have "GetQuote lib client c rd = ([(dc_dial c, quote_call u rd)], Inr q)"
    using assms(1,2) store_quote_any [OF assms(7-10)] by (simp add: GetQuote_def del: Marshal.simps)
  moreover have "json_parse (q_Body (quote_call u rd)) =
      Some (JObj [(''report_data'', Marshal (AStr (hex_encode rd)), JStr (hex_encode rd))])"
    using json_parse_Marshal(1) [of "AObj [(''report_data'', AStr (hex_encode rd))]"] quote_names is_ascii_hex_encode
    by (simp add: quote_call_def utf8_text_ascii max_nesting_depth_def del: Marshal.simps)
  ultimately show ?thesis using hex_roundtrip by blast
qed

theorem quote_roundtrip_witness:
  "\<exists>u client. Parse (baseURL (NewDstackClient [] []) @ ''/GetQuote'') = Some u \<and>
     snd (GetQuote sample_library client (NewDstackClient [] []) ''data'') =
       Inr \<lparr>Quote = ''q'', EventLog = ''e'', ReportData = [], VMConfig = ''v''\<rparr>"
proof -
  let ?q = "\<lparr>Quote = ''q'', EventLog = ''e'', ReportData = [], VMConfig = ''v''\<rparr>"
  let ?c = "NewDstackClient [] []"
  obtain u where u: "Parse (baseURL ?c @ ''/GetQuote'') = Some u"
  proof -
    have "Parse (baseURL ?c @ ''/GetQuote'') \<noteq> None" by code_simp
    then show thesis using that by blast
  qed
  have "is_ascii ''q''" "is_ascii ''e''" "is_ascii ''v''" by code_simp+
  then have "snd (GetQuote sample_library (\<lambda>d r. Inr (200, Marshal (quote_any ?q), None)) ?c ''data'') = Inr ?q"
    using quote_roundtrip [OF _ _ u, of "''data''" "\<lambda>d r. Inr (200, Marshal (quote_any ?q), None)" 200 ?q None sample_library]
    by (simp del: Marshal.simps)
  with u show ?thesis by blast
qed

text \<open>C33: for any data and any HTTP client: data of no bytes or of more than 64 is refused without a call, with
  the message of its kind; data of 1 to 64 bytes, the size of a report's data included, is sent in exactly
  one call, although the message of the refusal says less than 64.\<close>

theorem quote_size_limit:
  assumes "Parse (baseURL c @ ''/GetQuote'') = Some u"
  shows "fst (GetQuote lib client c rd) = (if 1 \<le> length rd \<and> length rd \<le> 64 then [(dc_dial c, quote_call u rd)] else []) \<and>
    (length rd = 0 \<longrightarrow> snd (GetQuote lib client c rd) = Inl (ErrMsg ''report_data can not be empty'')) \<and>
    (64 < length rd \<longrightarrow> snd (GetQuote lib client c rd) = Inl (ErrMsg ''report_data must be less than 64 bytes''))"
proof -
  have "fst (GetQuote lib client c rd) = [(dc_dial c, quote_call u rd)]" if "0 < length rd" "length rd \<le> 64"
  proof -
    obtain res where "postRPC lib client c ''GetQuote'' (AObj [(''report_data'', AStr (hex_encode rd))]) = ([(dc_dial c, quote_call u rd)], res)"
      using quote_rpc [OF assms] by blast
    with that show ?thesis by (cases res) (simp_all add: GetQuote_def del: Marshal.simps hex_encode.simps)
  qed
  moreover have "1 \<le> length rd \<longleftrightarrow> length rd \<noteq> 0" by linarith
  ultimately show ?thesis by (auto simp: GetQuote_def)
qed

theorem quote_size_limit_witness:
  "\<exists>u. Parse (baseURL (NewDstackClient [] []) @ ''/GetQuote'') = Some u \<and>
     fst (GetQuote sample_library (\<lambda>_ _. Inl (ErrMsg ''refused'')) (NewDstackClient [] []) (replicate 64 CHR ''a'')) = [(DialUnix ''/var/run/dstack.sock'', quote_call u (replicate 64 CHR ''a''))] \<and>
     fst (GetQuote sample_library (\<lambda>_ _. Inl (ErrMsg ''refused'')) (NewDstackClient [] []) (replicate 65 CHR ''a'')) = []"
proof -
  have "Parse (baseURL (NewDstackClient [] []) @ ''/GetQuote'') \<noteq> None" by code_simp
  then obtain u where u: "Parse (baseURL (NewDstackClient [] []) @ ''/GetQuote'') = Some u" by blast
  have "dc_dial (NewDstackClient [] []) = DialUnix ''/var/run/dstack.sock''" by code_simp
  with quote_size_limit [OF u, of sample_library "\<lambda>_ _. Inl (ErrMsg ''refused'')" "replicate 64 CHR ''a''"] quote_size_limit [OF u, of sample_library "\<lambda>_ _. Inl (ErrMsg ''refused'')" "replicate 65 CHR ''a''"] u
  show ?thesis by simp
qed

section \<open>Agent information\<close>

text \<open>What becomes of the value of one key.\<close>

definition info_value :: "bytes \<Rightarrow> any option \<Rightarrow> any option" where
  "info_value k v =
     (if k = ''cloud_product'' \<or> k = ''cloud_vendor'' then None
      else if k = ''tcb_info'' then
        (case v of
           Some (AStr t) \<Rightarrow> (case (if trim_space t = [] then None else Unmarshal_any t) of None \<Rightarrow> v | Some p \<Rightarrow> Some p)
         | _ \<Rightarrow> v)
      else v)"

lemma map_of_normalizeInfoResponse:
  "map_of (normalizeInfoResponse info) k = (if k = ''tcb_info'' then info_value k (map_of info k) else map_of info k)"
  by (auto simp: normalizeInfoResponse_def info_value_def split: option.splits any.splits)

lemma sorted_normalizeInfoResponse: "sorted_keys info \<Longrightarrow> sorted_keys (normalizeInfoResponse info)"
  by (auto simp: normalizeInfoResponse_def intro: sorted_map_put split: option.splits any.splits)

lemma to_any_sorted: "to_any v = Some (AObj m) \<Longrightarrow> sorted_keys m"
  by (cases v) (auto simp: sorted_map_of_pairs)

text \<open>An agent that answers every call with an empty object.\<close>

lemma sample_agent:
  fixes c defines "c \<equiv> dstack_of sample_library (\<lambda>_ _. Inr (200, ''{}'', None)) (NewDstackClient [] [])"
  shows "length rd = 64 \<Longrightarrow> \<exists>q. ds_GetQuote c rd = Inr q" "\<exists>info. ds_Info c = Inr info"
proof -
  let ?client = "\<lambda>_ _. Inr (200, ''{}'', None)" and ?c = "NewDstackClient [] []"
  have "Parse (baseURL ?c @ ''/GetQuote'') \<noteq> None" "Parse (baseURL ?c @ ''/Info'') \<noteq> None" by code_simp+
  then obtain u v where u: "Parse (baseURL ?c @ ''/GetQuote'') = Some u" "Parse (baseURL ?c @ ''/Info'') = Some v" by blast
  have obj: "decode_stream (''{}'', None) = Some (JObj [])"
    using decode_stream_object [of "[]" None] by (simp add: max_nesting_depth_def)
  have rpc: "\<exists>calls. postRPC sample_library ?client ?c ''GetQuote'' p = (calls, Inr (''{}'', None))"
    "\<exists>calls. postRPC sample_library ?client ?c ''Info'' p = (calls, Inr (''{}'', None))" for p
    using u by (simp_all add: postRPC_def NewRequest_def)
  show "length rd = 64 \<Longrightarrow> \<exists>q. ds_GetQuote c rd = Inr q"
    using rpc(1) [of "AObj [(''report_data'', AStr (hex_encode rd))]"]
    by (auto simp: c_def dstack_of_def GetQuote_def obj unmarshal_struct_def simp del: Marshal.simps hex_encode.simps)
  show "\<exists>info. ds_Info c = Inr info"
    using rpc(2) [of "AObj []"] by (auto simp: c_def dstack_of_def Info_call_def obj any_map_def map_of_pairs_def simp del: Marshal.simps)
qed

text \<open>Errors of the agent's client carry no HTTP status if those of the transport carry none.\<close>

lemma agent_plain:
  assumes "\<And>d r e. client d r = Inl e \<Longrightarrow> plain e"
  shows "ds_GetQuote (dstack_of lib client c) rd = Inl e \<Longrightarrow> plain e" "ds_Info (dstack_of lib client c) = Inl e \<Longrightarrow> plain e"
proof -
  have rpc: "postRPC lib client c meth p = (calls, Inl e) \<Longrightarrow> plain e" for meth p calls e
    using assms by (auto simp: postRPC_def NewRequest_def Let_def split: option.splits sum.splits if_splits)
  show "ds_GetQuote (dstack_of lib client c) rd = Inl e \<Longrightarrow> plain e" "ds_Info (dstack_of lib client c) = Inl e \<Longrightarrow> plain e"
    by (auto simp: dstack_of_def GetQuote_def Info_call_def dest: rpc split: option.splits sum.splits prod.splits if_splits)
qed

text \<open>C34: the information in a report is the object the agent answered, key by key, with TCB information that
  is JSON text replaced by its value and without the two fields that name the cloud.\<close>

theorem report_info:
  assumes "NewService ks native cfg (dstack_of lib client c) = Inr s" and "Generate wd s req = Inr resp"
  shows "\<exists>body err v info m. snd (postRPC lib client c ''Info'' (AObj [])) = Inr (body, err) \<and> decode_stream (body, err) = Some v \<and>
    Option.bind (to_any v) any_map = Some info \<and> map_of resp ''info'' = Some (AObj m) \<and>
    (\<forall>k. map_of m k = info_value k (map_of info k))"
proof -
  have ds: "sv_dstack s = dstack_of lib client c" using NewService_result(1) [OF assms(1)] .
  from Generate_success [OF assms(2)] obtain version ctx nonce fp quote got payload att where
    i: "ds_Info (sv_dstack s) = Inr got"
    and att: "att = attestation_map ctx (hex_encode nonce) quote payload (normalizeReportInfo got) version fp"
      "resp = map_put ''all_attestations'' (AArr [AObj att]) att" by metis
  from i ds have "snd (Info_call lib client c) = Inr got" by (simp add: dstack_of_def)
  then obtain body err v info where p: "snd (postRPC lib client c ''Info'' (AObj [])) = Inr (body, err)" "decode_stream (body, err) = Some v"
    "Option.bind (to_any v) any_map = Some info" "got = normalizeInfoResponse info"
    by (auto simp: Info_call_def Option.bind_eq_Some_conv split: sum.splits option.splits prod.splits)
  from p(3) obtain a where "to_any v = Some a" "any_map a = Some info" by (auto simp: Option.bind_eq_Some_conv)
  then have "sorted_keys info" using to_any_sorted by (cases a) (auto simp: any_map_def sorted_keys_def)
  then have "cloneMap got = got" using p(4) cloneMap_id sorted_normalizeInfoResponse by blast
  then have "map_of (normalizeReportInfo got) k = info_value k (map_of info k)" for k
    by (simp add: normalizeReportInfo_def p(4) map_of_normalizeInfoResponse) (simp add: info_value_def)
  moreover have "map_of resp ''info'' = Some (AObj (normalizeReportInfo got))" by (simp add: att attestation_lookup)
  ultimately show ?thesis using p(1-3) by blast
qed

theorem report_info_witness:
  "\<exists>s resp m. NewService sample_keys unavailable_Collect (sample_service_config [] False)
       (dstack_of sample_library (\<lambda>_ _. Inr (200, ''{}'', None)) (NewDstackClient [] [])) = Inr s \<and>
     Generate sample_world s (sample_report_request ''ed25519'') = Inr resp \<and> map_of resp ''info'' = Some (AObj m)"
proof -
  let ?ds = "dstack_of sample_library (\<lambda>_ _. Inr (200, ''{}'', None)) (NewDstackClient [] [])"
  obtain s where s: "NewService sample_keys unavailable_Collect (sample_service_config [] False) ?ds = Inr s" using sample_NewService by blast
  obtain resp where g: "Generate sample_world s (sample_report_request ''ed25519'') = Inr resp" using sample_Generate [OF s sample_agent] by blast
  from report_info [OF s g] s g show ?thesis by blast
qed

end
