(* ===== verification/Go_Net.thy ===== *)
theory Go_Net
  imports Go_Url
begin

text \<open>
  The parts of Go's \<open>net\<close> the health check uses: splitting and joining of host and port, and parsing of IP
  addresses.
\<close>

section \<open>Host and port\<close>

text \<open>\<open>SplitHostPort\<close>; the port starts after the last colon.\<close>

definition SplitHostPort :: "bytes \<Rightarrow> (bytes \<times> bytes) option" where
  "SplitHostPort hostport =
     (case split_last (CHR '':'') hostport of
        None \<Rightarrow> None
      | Some (front, colonPort) \<Rightarrow>
          if has_prefix ''['' hostport then
            (case cut (CHR '']'') hostport of (inner, rest, found) \<Rightarrow>
               if \<not> found \<or> front \<noteq> inner @ '']'' then None
               else if CHR ''['' \<in> set (tl hostport) \<or> CHR '']'' \<in> set rest then None
               else Some (tl inner, tl colonPort))
          else if CHR '':'' \<in> set front \<or> CHR ''['' \<in> set hostport \<or> CHR '']'' \<in> set hostport then None
          else Some (front, tl colonPort))"

definition JoinHostPort :: "bytes \<Rightarrow> bytes \<Rightarrow> bytes" where
  "JoinHostPort host port =
     (if CHR '':'' \<in> set host then ''['' @ host @ '']:'' @ port else host @ '':'' @ port)"

section \<open>IP addresses\<close>

type_synonym ip = "nat list"

definition ipv4_field :: "bytes \<Rightarrow> nat option" where
  "ipv4_field s =
     (if s = [] \<or> \<not> list_all is_digit s \<or> (hd s = CHR ''0'' \<and> s \<noteq> ''0'') \<or> 3 < length s \<or> 255 < digits_val s then None
      else Some (digits_val s))"

definition parse_ipv4 :: "bytes \<Rightarrow> ip option" where
  "parse_ipv4 s =
     (let fs = map ipv4_field (split_on (CHR ''.'') s) in
      if length fs = 4 \<and> None \<notin> set fs then Some (map the fs) else None)"

text \<open>The leading hex digits of a group and the rest; at most four digits.\<close>

definition hex_group :: "bytes \<Rightarrow> (nat \<times> bytes) option" where
  "hex_group s =
     (let ds = takeWhile (\<lambda>c. hex_val c \<noteq> None) s in
      if ds = [] \<or> 4 < length ds then None
      else Some (foldl (\<lambda>a c. 16 * a + the (hex_val c)) 0 ds, drop (length ds) s))"

lemma hex_group_length: "hex_group s = Some (n, r) \<Longrightarrow> length r < length s"
  using length_takeWhile_le [of "\<lambda>c. hex_val c \<noteq> None" s] by (cases s) (auto simp: hex_group_def Let_def split: if_splits)

text \<open>The groups after a possible leading ellipsis: the bytes so far, the position of the ellipsis, and the
  text that is left.\<close>

function ipv6_groups :: "ip \<Rightarrow> nat option \<Rightarrow> bytes \<Rightarrow> (ip \<times> nat option \<times> bytes) option" where
  "ipv6_groups acc ell s =
     (if 16 \<le> length acc then Some (acc, ell, s)
      else
        (case hex_group s of
           None \<Rightarrow> None
         | Some (n, rest) \<Rightarrow>
             if has_prefix ''.'' rest then
               (if (ell = None \<and> length acc \<noteq> 12) \<or> 16 < length acc + 4 then None
                else map_option (\<lambda>v4. (acc @ v4, ell, [])) (parse_ipv4 s))
             else
               (let acc = acc @ [n div 256, n mod 256] in
                if rest = [] then Some (acc, ell, [])
                else if hd rest \<noteq> CHR '':'' \<or> tl rest = [] then None
                else if hd (tl rest) = CHR '':'' then
                  (if ell \<noteq> None then None
                   else if tl (tl rest) = [] then Some (acc, Some (length acc), [])
                   else ipv6_groups acc (Some (length acc)) (tl (tl rest)))
                else ipv6_groups acc ell (tl rest))))"
  by auto
termination
  by (relation "measure (\<lambda>(acc, ell, s). length s)") (auto dest!: hex_group_length)

declare ipv6_groups.simps [simp del]

definition parse_ipv6 :: "bytes \<Rightarrow> ip option" where
  "parse_ipv6 s =
     (let leading = has_prefix ''::'' s; s' = (if leading then drop 2 s else s) in
      if leading \<and> s' = [] then Some (replicate 16 0)
      else
        (case ipv6_groups [] (if leading then Some 0 else None) s' of
           None \<Rightarrow> None
         | Some (bs, ell, rest) \<Rightarrow>
             if rest \<noteq> [] then None
             else if length bs < 16 then
               (case ell of None \<Rightarrow> None | Some e \<Rightarrow> Some (take e bs @ replicate (16 - length bs) 0 @ drop e bs))
             else if ell \<noteq> None then None
             else Some bs))"

definition v4_prefix :: ip where
  "v4_prefix = replicate 10 0 @ [255, 255]"

text \<open>\<open>ParseIP\<close>: sixteen bytes; the first of dot and colon decides the family, and a zone is refused.\<close>

definition ParseIP :: "bytes \<Rightarrow> ip option" where
  "ParseIP s =
     (case dropWhile (\<lambda>c. c \<noteq> CHR ''.'' \<and> c \<noteq> CHR '':'' \<and> c \<noteq> CHR ''%'') s of
        [] \<Rightarrow> None
      | c # _ \<Rightarrow>
          if c = CHR ''.'' then map_option (\<lambda>v4. v4_prefix @ v4) (parse_ipv4 s)
          else if c = CHR '':'' \<and> CHR ''%'' \<notin> set s then parse_ipv6 s
          else None)"

definition IsUnspecified :: "ip \<Rightarrow> bool" where
  "IsUnspecified a \<longleftrightarrow> a = v4_prefix @ [0, 0, 0, 0] \<or> a = replicate 16 0"

definition is_v4 :: "ip \<Rightarrow> bool" where
  "is_v4 a \<longleftrightarrow> take 12 a = v4_prefix"

end
