(* ===== verification/Go_X509.thy ===== *)
theory Go_X509
  imports Go_Net Go_Errors
begin

text \<open>
  Printing and comparison of IP addresses (Go's \<open>net\<close> and \<open>net/netip\<close>), and the host name check of
  \<open>crypto/x509\<close>. A parsed certificate is a record of the fields the sources read; parsing itself is a
  parameter of the definitions that need it.
\<close>

section \<open>Printing addresses\<close>

definition To4 :: "ip \<Rightarrow> ip option" where
  "To4 a =
     (if length a = 4 then Some a
      else if length a = 16 \<and> is_v4 a then Some (drop 12 a)
      else None)"

definition ipv4_string :: "ip \<Rightarrow> bytes" where
  "ipv4_string a = join_with (CHR ''.'') (map show_nat a)"

text \<open>Lower-case hexadecimal without leading zeros.\<close>

function show_hex :: "nat \<Rightarrow> bytes" where
  "show_hex n = (if n < 16 then [hex_digit n] else show_hex (n div 16) @ [hex_digit (n mod 16)])"
  by pat_completeness auto
termination by (relation "measure id") auto

declare show_hex.simps [simp del]

text \<open>The eight 16-bit groups of an address.\<close>

fun ip_groups :: "ip \<Rightarrow> nat list" where
  "ip_groups (a # b # r) = (256 * a + b) # ip_groups r"
| "ip_groups _ = []"

definition zero_run :: "nat list \<Rightarrow> nat" where
  "zero_run gs = length (takeWhile (\<lambda>g. g = 0) gs)"

text \<open>The first of the longest runs of at least two zero groups, as start and length; length 0 is none.\<close>

definition longest_run :: "nat list \<Rightarrow> nat \<times> nat" where
  "longest_run gs =
     fold (\<lambda>i (start, len). let l = zero_run (drop i gs) in if 2 \<le> l \<and> len < l then (i, l) else (start, len))
       [0..<length gs] (0, 0)"

definition groups_string :: "nat list \<Rightarrow> bytes" where
  "groups_string gs = join_with (CHR '':'') (map show_hex gs)"

definition ipv6_string :: "ip \<Rightarrow> bytes" where
  "ipv6_string a =
     (let gs = ip_groups a; (start, len) = longest_run gs in
      if len = 0 then groups_string gs
      else groups_string (take start gs) @ ''::'' @ groups_string (drop (start + len) gs))"

text \<open>\<open>IP.String\<close>; the bytes of an address of another length are printed in hexadecimal.\<close>

definition ip_String :: "ip \<Rightarrow> bytes" where
  "ip_String a =
     (if a = [] then ''<nil>''
      else if length a \<noteq> 4 \<and> length a \<noteq> 16 then CHR ''?'' # hex_encode (map char_of a)
      else (case To4 a of Some v4 \<Rightarrow> ipv4_string v4 | None \<Rightarrow> ipv6_string a))"

definition ip_Equal :: "ip \<Rightarrow> ip \<Rightarrow> bool" where
  "ip_Equal a b =
     (if length a = length b then a = b
      else if length a = 4 \<and> length b = 16 then take 12 b = v4_prefix \<and> a = drop 12 b
      else if length a = 16 \<and> length b = 4 then take 12 a = v4_prefix \<and> drop 12 a = b
      else False)"

section \<open>Host names of certificates\<close>

record x509_certificate =
  cert_Raw :: bytes
  cert_RawSubjectPublicKeyInfo :: bytes
  cert_DNSNames :: "bytes list"
  cert_IPAddresses :: "ip option list"

definition host_byte :: "bool \<Rightarrow> byte \<Rightarrow> bool" where
  "host_byte first c \<longleftrightarrow> is_alnum c \<or> (c = CHR ''-'' \<and> \<not> first) \<or> c = CHR ''_''"

definition valid_label :: "bytes \<Rightarrow> bool" where
  "valid_label part = (case part of [] \<Rightarrow> False | c # s \<Rightarrow> host_byte True c \<and> list_all (host_byte False) s)"

definition validHostname :: "bool \<Rightarrow> bytes \<Rightarrow> bool" where
  "validHostname isPattern host =
     (let host = (if isPattern then host else trim_suffix ''.'' host); parts = split_on (CHR ''.'') host in
      host \<noteq> [] \<and> host \<noteq> ''*'' \<and> ((isPattern \<and> hd parts = ''*'') \<or> valid_label (hd parts)) \<and>
      list_all valid_label (tl parts))"

definition lower_ascii :: "bytes \<Rightarrow> bytes" where
  "lower_ascii s = map lower_byte s"

definition matchExactly :: "bytes \<Rightarrow> bytes \<Rightarrow> bool" where
  "matchExactly a b \<longleftrightarrow> a \<noteq> [] \<and> a \<noteq> ''.'' \<and> b \<noteq> [] \<and> b \<noteq> ''.'' \<and> lower_ascii a = lower_ascii b"

definition matchHostnames :: "bytes \<Rightarrow> bytes \<Rightarrow> bool" where
  "matchHostnames pattern host =
     (let pattern = lower_ascii pattern; host = lower_ascii (trim_suffix ''.'' host);
          ps = split_on (CHR ''.'') pattern; hs = split_on (CHR ''.'') host
      in pattern \<noteq> [] \<and> host \<noteq> [] \<and> length ps = length hs \<and> (hd ps = ''*'' \<or> hd ps = hd hs) \<and> tl ps = tl hs)"

text \<open>\<open>Certificate.VerifyHostname\<close>; an address is compared with the address names only.\<close>

definition VerifyHostname :: "x509_certificate \<Rightarrow> bytes \<Rightarrow> bool" where
  "VerifyHostname cert h =
     (let candidateIP =
            (if 3 \<le> length h \<and> hd h = CHR ''['' \<and> last h = CHR '']'' then butlast (tl h) else h)
      in case ParseIP candidateIP of
           Some ip \<Rightarrow> list_ex (\<lambda>c. ip_Equal ip (case c of None \<Rightarrow> [] | Some a \<Rightarrow> a)) (cert_IPAddresses cert)
         | None \<Rightarrow>
             (let candidateName = lower_ascii h in
              list_ex (\<lambda>m. if validHostname False candidateName \<and> validHostname True m
                then matchHostnames m candidateName else matchExactly m candidateName) (cert_DNSNames cert)))"

end
