(* ===== verification/Tail_Main.thy ===== *)
theory Tail_Main
  imports Go_X509 Tail_Handler Report
begin

text \<open>
  \<open>cmd/phala-tail\<close>: the TLS configuration of the listener (\<open>tls.go\<close>), the health check
  (\<open>healthcheck.go\<close>) and the set-up of the server with the choice of command (\<open>main.go\<close>). Environment
  variables, key pair files, X.509 parsing, the system's certificate pool and the probe's HTTP client
  are parameters.
\<close>

section \<open>TLS configuration\<close>

record tls_certificate =
  tls_chain :: "bytes list"
  tls_Leaf :: "x509_certificate option"

record tls_config =
  tls_MinVersion :: nat
  tls_Certificates :: "tls_certificate list"

definition VersionTLS12 :: nat where
  "VersionTLS12 = 0x0303"

record machine =
  o_getenv :: "bytes \<Rightarrow> bytes"
  o_LoadX509KeyPair :: "bytes \<Rightarrow> bytes \<Rightarrow> go_error + tls_certificate"
  o_ParseCertificate :: "bytes \<Rightarrow> go_error + x509_certificate"
  o_SystemCertPool :: "x509_certificate list option"

text \<open>Reading the first certificate of an empty chain would panic; a loaded key pair has one.\<close>

definition index_panic :: go_error where
  "index_panic = ErrMsg ''runtime error: index out of range [0] with length 0''"

definition loadTLSConfig :: "machine \<Rightarrow> bytes \<Rightarrow> bytes \<Rightarrow> go_error + (tls_config \<times> bytes) option" where
  "loadTLSConfig os certPath keyPath =
     (if keyPath = [] then Inr None
      else if certPath = [] then Inl (ErrMsg ''TAIL TLS requires both TLS_CERT_PATH and TLS_KEY_PATH'')
      else
        (case o_LoadX509KeyPair os certPath keyPath of
           Inl err \<Rightarrow> Inl (ErrWrap ''load TAIL TLS key pair: '' err [])
         | Inr certificate \<Rightarrow>
             (case tls_chain certificate of
                [] \<Rightarrow> Inl index_panic
              | der # _ \<Rightarrow>
                  (case o_ParseCertificate os der of
                     Inl err \<Rightarrow> Inl (ErrWrap ''parse TAIL TLS certificate: '' err [])
                   | Inr leaf \<Rightarrow>
                       Inr (Some (\<lparr>tls_MinVersion = VersionTLS12, tls_Certificates = [certificate\<lparr>tls_Leaf := Some leaf\<rparr>]\<rparr>,
                         Sum256 (cert_RawSubjectPublicKeyInfo leaf)))))))"

section \<open>Health check: configuration\<close>

record healthcheckConfig =
  hc_listen :: bytes
  hc_certPath :: bytes
  hc_keyPath :: bytes
  hc_timeout :: int

definition defaultListenAddress :: bytes where
  "defaultListenAddress = ''127.0.0.1:31081''"

definition defaultHealthcheckTimeout :: int where
  "defaultHealthcheckTimeout = 5 * 10 ^ 9"

definition listen_address :: "machine \<Rightarrow> bytes" where
  "listen_address os = (if o_getenv os ''LISTEN'' = [] then defaultListenAddress else o_getenv os ''LISTEN'')"

definition healthcheckConfigFromEnv :: "machine \<Rightarrow> healthcheckConfig" where
  "healthcheckConfigFromEnv os =
     \<lparr>hc_listen = listen_address os, hc_certPath = o_getenv os ''TLS_CERT_PATH'', hc_keyPath = o_getenv os ''TLS_KEY_PATH'',
      hc_timeout = defaultHealthcheckTimeout\<rparr>"

section \<open>Health check: where to dial\<close>

definition loopback_host :: "bytes \<Rightarrow> bytes" where
  "loopback_host host =
     (if host = [] \<or> host = ''0.0.0.0'' then ''127.0.0.1''
      else if host = ''::'' then ''::1''
      else
        (case ParseIP host of
           Some address \<Rightarrow>
             if IsUnspecified address then (if is_v4 address then ''127.0.0.1'' else ''::1'') else host
         | None \<Rightarrow> host))"

definition healthcheckDialAddress :: "bytes \<Rightarrow> go_error + bytes" where
  "healthcheckDialAddress listen =
     (case SplitHostPort listen of
        None \<Rightarrow> Inl (ErrMsg ''healthcheck LISTEN must be host:port'')
      | Some (host, port) \<Rightarrow>
          if port = [] then Inl (ErrMsg ''healthcheck LISTEN must be host:port'')
          else Inr (JoinHostPort (loopback_host host) port))"

section \<open>Health check: TLS\<close>

definition healthcheckServerName :: "x509_certificate \<Rightarrow> go_error + bytes" where
  "healthcheckServerName leaf =
     (case find (\<lambda>name. name \<noteq> [] \<and> \<not> has_prefix ''*.'' name) (map trim_space (cert_DNSNames leaf)) of
        Some name \<Rightarrow> Inr name
      | None \<Rightarrow>
          (case find (\<lambda>name. name \<noteq> []) (map (\<lambda>n. trim_prefix ''*.'' (trim_space n)) (cert_DNSNames leaf)) of
             Some name \<Rightarrow> Inr (''healthcheck.'' @ name)
           | None \<Rightarrow>
               (case find (\<lambda>a. a \<noteq> None) (cert_IPAddresses leaf) of
                  Some (Some address) \<Rightarrow> Inr (ip_String address)
                | _ \<Rightarrow> Inl (ErrMsg ''healthcheck TLS certificate needs a DNS or IP SAN''))))"

text \<open>The client's side of the connection: \<open>VerifyConnection\<close> sees the certificates of the peer.\<close>

record client_tls =
  ct_MinVersion :: nat
  ct_RootCAs :: "x509_certificate list"
  ct_ServerName :: bytes
  ct_VerifyConnection :: "x509_certificate list \<Rightarrow> go_error option"

definition verify_leaf :: "bytes \<Rightarrow> x509_certificate list \<Rightarrow> go_error option" where
  "verify_leaf expectedLeaf peers =
     (if peers = [] \<or> cert_Raw (hd peers) \<noteq> expectedLeaf
      then Some (ErrMsg ''healthcheck TLS peer does not match configured certificate'') else None)"

text \<open>The loop that adds the configured certificates to the roots.\<close>

fun add_configured :: "machine \<Rightarrow> bytes list \<Rightarrow> x509_certificate list \<Rightarrow> go_error + x509_certificate list" where
  "add_configured os [] roots = Inr roots"
| "add_configured os (raw # rest) roots =
     (case o_ParseCertificate os raw of
        Inl err \<Rightarrow> Inl (ErrWrap ''parse configured healthcheck TLS certificate: '' err [])
      | Inr c \<Rightarrow> add_configured os rest (roots @ [c]))"

definition configured_leaf :: "machine \<Rightarrow> tls_certificate \<Rightarrow> go_error + x509_certificate" where
  "configured_leaf os certificate =
     (case tls_Leaf certificate of
        Some leaf \<Rightarrow> Inr leaf
      | None \<Rightarrow>
          (case tls_chain certificate of
             [] \<Rightarrow> Inl (ErrMsg ''healthcheck TLS certificate is empty'')
           | der # _ \<Rightarrow>
               (case o_ParseCertificate os der of
                  Inl err \<Rightarrow> Inl (ErrWrap ''parse healthcheck TLS certificate: '' err [])
                | Inr leaf \<Rightarrow> Inr leaf)))"

text \<open>The text of a failed host name check is the library's.\<close>

definition healthcheckTLSConfig :: "machine \<Rightarrow> (bytes \<Rightarrow> go_error) \<Rightarrow> tls_config \<Rightarrow> go_error + client_tls" where
  "healthcheckTLSConfig os hostname_error serverTLS =
     (case tls_Certificates serverTLS of
        [] \<Rightarrow> Inl (ErrMsg ''healthcheck TLS configuration has no certificate'')
      | certificate # _ \<Rightarrow>
          (case configured_leaf os certificate of
             Inl err \<Rightarrow> Inl err
           | Inr leaf \<Rightarrow>
               (case healthcheckServerName leaf of
                  Inl err \<Rightarrow> Inl err
                | Inr serverName \<Rightarrow>
                    if \<not> VerifyHostname leaf serverName
                    then Inl (ErrWrap ''healthcheck TLS certificate SAN: '' (hostname_error serverName) [])
                    else
                      (case add_configured os (tls_chain certificate)
                              (case o_SystemCertPool os of None \<Rightarrow> [] | Some roots \<Rightarrow> roots) of
                         Inl err \<Rightarrow> Inl err
                       | Inr roots \<Rightarrow>
                           Inr \<lparr>ct_MinVersion = VersionTLS12, ct_RootCAs = roots, ct_ServerName = serverName,
                             ct_VerifyConnection = verify_leaf (cert_Raw leaf)\<rparr>))))"

section \<open>Health check: the probe\<close>

text \<open>The HTTP client: it dials the given address whatever the URL says, uses the TLS configuration if there
  is one, follows no redirect, and gives the status of the response.\<close>

type_synonym prober = "bytes \<Rightarrow> client_tls option \<Rightarrow> Request \<Rightarrow> go_error + int"

definition probe_tls ::
  "machine \<Rightarrow> (bytes \<Rightarrow> go_error) \<Rightarrow> (tls_config \<times> bytes) option \<Rightarrow> go_error + bytes \<times> client_tls option" where
  "probe_tls os hostname_error serverTLS =
     (case serverTLS of
        None \<Rightarrow> Inr (''http'', None)
      | Some (cfg, _) \<Rightarrow>
          (case healthcheckTLSConfig os hostname_error cfg of
             Inl err \<Rightarrow> Inl err
           | Inr clientTLS \<Rightarrow> Inr (''https'', Some clientTLS)))"

definition probe_URL :: "bytes \<Rightarrow> bytes \<Rightarrow> bytes" where
  "probe_URL scheme dialAddress =
     url_String (empty_URL\<lparr>u_Scheme := scheme, u_Host := dialAddress, u_Path := ''/healthz''\<rparr>)"

text \<open>\<open>None\<close> is success.\<close>

definition runHealthcheckWithConfig ::
  "machine \<Rightarrow> go_library \<Rightarrow> (bytes \<Rightarrow> go_error) \<Rightarrow> prober \<Rightarrow> healthcheckConfig \<Rightarrow> go_error option" where
  "runHealthcheckWithConfig os lib hostname_error client config =
     (if hc_timeout config \<le> 0 then Some (ErrMsg ''healthcheck timeout must be positive'')
      else
        (case healthcheckDialAddress (hc_listen config) of
           Inl err \<Rightarrow> Some err
         | Inr dialAddress \<Rightarrow>
             (case loadTLSConfig os (hc_certPath config) (hc_keyPath config) of
                Inl err \<Rightarrow> Some (ErrWrap ''healthcheck TLS configuration: '' err [])
              | Inr serverTLS \<Rightarrow>
                  (case probe_tls os hostname_error serverTLS of
                     Inl err \<Rightarrow> Some err
                   | Inr (scheme, clientTLS) \<Rightarrow>
                       (case NewRequest lib ''GET'' (probe_URL scheme dialAddress) [] of
                          Inl err \<Rightarrow> Some (ErrWrap ''build healthcheck request: '' err [])
                        | Inr request \<Rightarrow>
                            (case client dialAddress clientTLS request of
                               Inl err \<Rightarrow> Some (ErrWrap ''healthcheck request: '' err [])
                             | Inr status \<Rightarrow>
                                 if status < 200 \<or> 300 \<le> status
                                 then Some (ErrMsg (''healthcheck /healthz returned HTTP '' @ show_int status))
                                 else None))))))"

definition runHealthcheck :: "machine \<Rightarrow> go_library \<Rightarrow> (bytes \<Rightarrow> go_error) \<Rightarrow> prober \<Rightarrow> go_error option" where
  "runHealthcheck os lib hostname_error client =
     runHealthcheckWithConfig os lib hostname_error client (healthcheckConfigFromEnv os)"

section \<open>The server\<close>

definition attestationConfigFromEnv :: "machine \<Rightarrow> bytes \<Rightarrow> ServiceConfig" where
  "attestationConfigFromEnv os listenerFingerprint =
     \<lparr>TLSCertPath = o_getenv os ''TLS_CERT_PATH'', TLSCertSPKISHA256 = listenerFingerprint, GPUArch = [],
      NVIDIAPayload = [], NVIDIAPayloadFile = [], NVIDIAPayloadURL = [], NVIDIAPayloadAuth = [], NVIDIACommand = [],
      NVIDIACommandArgs = [], NVIDIACommandTimeout = 0, RequireNVIDIAEvidence = True\<rparr>"

record server =
  srv_Addr :: bytes
  srv_Handler :: Handler
  srv_ReadHeaderTimeout :: int
  srv_TLSConfig :: "tls_config option"

text \<open>\<open>run\<close> up to the start of the server. The service is the reporter of the handler.\<close>

definition run_setup ::
  "machine \<Rightarrow> go_library \<Rightarrow> key_source \<Rightarrow> (bytes \<Rightarrow> bytes \<Rightarrow> go_error + bytes) \<Rightarrow> http_client \<Rightarrow> int
    \<Rightarrow> go_error + server \<times> Service" where
  "run_setup os lib ks native client now =
     (case loadTLSConfig os (o_getenv os ''TLS_CERT_PATH'') (o_getenv os ''TLS_KEY_PATH'') of
        Inl err \<Rightarrow> Inl err
      | Inr transportTLS \<Rightarrow>
          (let fingerprint = (case transportTLS of None \<Rightarrow> [] | Some (_, fp) \<Rightarrow> fp);
               dclient = NewDstackClient (o_getenv os ''DSTACK_ENDPOINT'') (o_getenv os ''DSTACK_SIMULATOR_ENDPOINT'')
           in case NewService ks native (attestationConfigFromEnv os fingerprint) (dstack_of lib client dclient) of
                Inl err \<Rightarrow> Inl err
              | Inr report \<Rightarrow>
                  (case New \<lparr>Token = o_getenv os ''TOKEN'', Upstream = o_getenv os ''UPSTREAM'',
                              RequestTimeout = 2 * 3600 * 10 ^ 9\<rparr> True now of
                     Inl msg \<Rightarrow> Inl (ErrMsg msg)
                   | Inr handler \<Rightarrow>
                       Inr (\<lparr>srv_Addr = listen_address os, srv_Handler = handler, srv_ReadHeaderTimeout = 30 * 10 ^ 9,
                         srv_TLSConfig = map_option fst transportTLS\<rparr>, report))))"

text \<open>How serving ends: \<open>http.ErrServerClosed\<close> or another error.\<close>

datatype serve_end = ErrServerClosed | ServeError go_error

definition serve_result :: "serve_end \<Rightarrow> go_error option" where
  "serve_result e = (case e of ErrServerClosed \<Rightarrow> None | ServeError err \<Rightarrow> Some err)"

definition run ::
  "machine \<Rightarrow> go_library \<Rightarrow> key_source \<Rightarrow> (bytes \<Rightarrow> bytes \<Rightarrow> go_error + bytes) \<Rightarrow> http_client \<Rightarrow> int
    \<Rightarrow> (server \<times> Service \<Rightarrow> serve_end) \<Rightarrow> go_error option" where
  "run os lib ks native client now serve =
     (case run_setup os lib ks native client now of Inl err \<Rightarrow> Some err | Inr s \<Rightarrow> serve_result (serve s))"

section \<open>Commands\<close>

definition runCommand :: "bytes list \<Rightarrow> (unit \<Rightarrow> go_error option) \<Rightarrow> (unit \<Rightarrow> go_error option) \<Rightarrow> go_error option" where
  "runCommand args serve healthcheck =
     (if length args = 1 then serve ()
      else if length args = 2 \<and> args ! 1 = ''healthcheck'' then healthcheck ()
      else Some (ErrMsg ''usage: phala-tail [healthcheck]''))"

text \<open>The exit status; \<open>log.Fatal\<close> exits with 1.\<close>

definition main_status :: "bytes list \<Rightarrow> (unit \<Rightarrow> go_error option) \<Rightarrow> (unit \<Rightarrow> go_error option) \<Rightarrow> int" where
  "main_status args serve healthcheck = (case runCommand args serve healthcheck of None \<Rightarrow> 0 | Some _ \<Rightarrow> 1)"

end
