(* ===== verification/Net_Props.thy ===== *)
theory Net_Props
  imports Go_X509
begin

text \<open>
  Addresses as texts: splitting undoes joining of host and port, parsing undoes printing of IP
  addresses.
\<close>

section \<open>Texts that can be read rear\<close>

locale partial_codec =
  fixes ok :: "'a \<Rightarrow> bool" and enc :: "'a \<Rightarrow> bytes" and dec :: "bytes \<Rightarrow> 'a option"
  assumes dec_enc: "ok x \<Longrightarrow> dec (enc x) = Some x"
begin

lemma enc_inj: "\<lbrakk>ok x; ok y; enc x = enc y\<rbrakk> \<Longrightarrow> x = y"
  by (metis dec_enc option.inject)

lemma dec_enc_iff: "ok x \<Longrightarrow> dec (enc x) = Some y \<longleftrightarrow> y = x"
  by (auto simp: dec_enc)

end

text \<open>A codec for every value is one of them.\<close>

sublocale codec \<subseteq> everywhere: partial_codec "\<lambda>_. True" enc dec
  by unfold_locales (rule dec_enc)

section \<open>Host and port\<close>

lemma while_other:
  "x \<notin> set a \<Longrightarrow> takeWhile (\<lambda>c. c \<noteq> x) (a @ x # r) = a" "x \<notin> set a \<Longrightarrow> dropWhile (\<lambda>c. c \<noteq> x) (a @ x # r) = x # r"
  by (induction a) auto

lemma split_last_Some: "split_last x s = Some (a, b) \<longleftrightarrow> (\<exists>r. b = x # r \<and> s = a @ b \<and> x \<notin> set r)"
proof
  assume L: "split_last x s = Some (a, b)"
  then have x: "x \<in> set (rev s)" by (auto simp: split_last_def split: if_splits)
  let ?p = "\<lambda>c. c \<noteq> x"
  have "dropWhile ?p (rev s) \<noteq> []" using x by (simp add: dropWhile_eq_Nil_conv)
  then obtain y d where "dropWhile ?p (rev s) = y # d" by (cases "dropWhile ?p (rev s)") auto
  then have d: "dropWhile ?p (rev s) = x # d" "rev s = takeWhile ?p (rev s) @ x # d"
    by (auto simp: dropWhile_eq_Cons_conv)
  obtain t where t: "takeWhile ?p (rev s) = t" by blast
  with d(2) have "rev s = t @ x # d" by simp
  then have "s = rev d @ x # rev t" by (simp add: rev_swap)
  moreover have "x \<notin> set t" using t by (auto dest: set_takeWhileD)
  moreover have "a = rev d" "b = x # rev t" using L x d(1) t by (simp_all add: split_last_def)
  ultimately show "\<exists>r. b = x # r \<and> s = a @ b \<and> x \<notin> set r" by auto
next
  assume "\<exists>r. b = x # r \<and> s = a @ b \<and> x \<notin> set r"
  then obtain r where r: "b = x # r" "s = a @ x # r" "x \<notin> set r" by blast
  have "takeWhile (\<lambda>c. c \<noteq> x) (rev r @ x # rev a) = rev r" "dropWhile (\<lambda>c. c \<noteq> x) (rev r @ x # rev a) = x # rev a"
    using r(3) by (simp_all add: while_other)
  then show "split_last x s = Some (a, b)" by (simp add: split_last_def r)
qed

lemma cut_found_iff: "cut x s = (a, r, True) \<longleftrightarrow> s = a @ x # r \<and> x \<notin> set a"
proof
  assume "cut x s = (a, r, True)"
  then obtain y where y: "dropWhile (\<lambda>c. c \<noteq> x) s = y # r" "a = takeWhile (\<lambda>c. c \<noteq> x) s"
    by (auto simp: cut_def split: list.splits)
  then show "s = a @ x # r \<and> x \<notin> set a" by (auto simp: dropWhile_eq_Cons_conv dest: set_takeWhileD)
next
  assume "s = a @ x # r \<and> x \<notin> set a"
  then show "cut x s = (a, r, True)" by (simp add: cut_def while_other)
qed

text \<open>A host and a port that \<open>JoinHostPort\<close> can join.\<close>

definition host_port_ok :: "bytes \<times> bytes \<Rightarrow> bool" where
  "host_port_ok hp \<longleftrightarrow>
     CHR ''['' \<notin> set (fst hp) \<and> CHR '']'' \<notin> set (fst hp) \<and>
     CHR ''['' \<notin> set (snd hp) \<and> CHR '']'' \<notin> set (snd hp) \<and> CHR '':'' \<notin> set (snd hp)"

lemma split_join: "host_port_ok hp \<Longrightarrow> SplitHostPort (case hp of (h, p) \<Rightarrow> JoinHostPort h p) = Some hp"
proof -
  assume ok: "host_port_ok hp"
  obtain h p where hp: "hp = (h, p)" by (cases hp)
  from ok have no: "CHR ''['' \<notin> set h" "CHR '']'' \<notin> set h" "CHR ''['' \<notin> set p" "CHR '']'' \<notin> set p" "CHR '':'' \<notin> set p"
    by (simp_all add: host_port_ok_def hp)
  show ?thesis
  proof (cases "CHR '':'' \<in> set h")
    case True
    have s: "split_last (CHR '':'') (''['' @ h @ '']:'' @ p) = Some (''['' @ h @ '']'', CHR '':'' # p)"
      using no by (simp add: split_last_Some)
    have c: "cut (CHR '']'') (''['' @ h @ '']:'' @ p) = (''['' @ h, CHR '':'' # p, True)"
      using no by (simp add: cut_found_iff)
    have "has_prefix ''['' (''['' @ h @ '']:'' @ p)" by simp
    with True no s c show ?thesis by (simp add: hp JoinHostPort_def SplitHostPort_def)
  next
    case False
    have s: "split_last (CHR '':'') (h @ '':'' @ p) = Some (h, CHR '':'' # p)" using no by (simp add: split_last_Some)
    have "\<not> has_prefix ''['' (h @ '':'' @ p)" using no by (cases h) auto
    with False no s show ?thesis by (simp add: hp JoinHostPort_def SplitHostPort_def)
  qed
qed

interpretation host_port: partial_codec host_port_ok "\<lambda>hp. case hp of (h, p) \<Rightarrow> JoinHostPort h p" SplitHostPort
  by unfold_locales (rule split_join)

lemma SplitHostPort_ok: "SplitHostPort s = Some hp \<Longrightarrow> host_port_ok hp"
proof -
  assume L: "SplitHostPort s = Some hp"
  then obtain front r where s: "split_last (CHR '':'') s = Some (front, r)" by (auto simp: SplitHostPort_def split: option.splits)
  then obtain p where r: "r = CHR '':'' # p" "s = front @ CHR '':'' # p" "CHR '':'' \<notin> set p" by (auto simp: split_last_Some)
  show ?thesis
  proof (cases "has_prefix ''['' s")
    case True
    obtain inner rest found where c: "cut (CHR '']'') s = (inner, rest, found)" by (metis prod_cases3)
    from L s True c have f: "found" "front = inner @ '']''" "CHR ''['' \<notin> set (tl s)" "CHR '']'' \<notin> set rest" "hp = (tl inner, tl r)"
      by (auto simp: SplitHostPort_def split: if_splits)
    from c f(1) have i: "s = inner @ CHR '']'' # rest" "CHR '']'' \<notin> set inner" by (auto simp: cut_found_iff)
    with r f(2) have "rest = CHR '':'' # p" by simp
    moreover from True i(1) have "inner \<noteq> []" by (cases inner) auto
    then have "tl s = tl inner @ CHR '']'' # rest" using i(1) by simp
    moreover have "set (tl inner) \<subseteq> set inner" by (cases inner) auto
    ultimately show ?thesis using f i(2) r by (auto simp: host_port_ok_def)
  next
    case False
    with L s have "CHR ''['' \<notin> set s" "CHR '']'' \<notin> set s" "hp = (front, tl r)" by (auto simp: SplitHostPort_def split: if_splits)
    with r show ?thesis by (auto simp: host_port_ok_def)
  qed
qed

section \<open>Dotted addresses\<close>

lemma split_on_join: "\<lbrakk>ws \<noteq> []; \<forall>w \<in> set ws. x \<notin> set w\<rbrakk> \<Longrightarrow> split_on x (join_with x ws) = ws"
proof (induction x ws rule: join_with.induct)
  case (2 x s)
  then show ?case by (simp add: split_on_absent)
next
  case (3 x s t ts)
  have "split_on x (s @ x # r) = s # split_on x r" if "x \<notin> set s" for r using that by (induction s) auto
  with 3 show ?case by simp
qed simp

lemma show_nat_short: "n < 1000 \<Longrightarrow> length (show_nat n) \<le> 3"
  by (subst show_nat.simps, subst show_nat.simps, subst show_nat.simps) simp

lemma digit_not: "is_digit c \<Longrightarrow> c \<noteq> CHR ''.'' \<and> c \<noteq> CHR '':'' \<and> c \<noteq> CHR ''%''"
  by (auto simp: is_digit_def code_def)

lemma ipv4_field_show: "n < 256 \<Longrightarrow> ipv4_field (show_nat n) = Some n"
proof -
  assume n: "n < 256"
  have "hd (show_nat n) = CHR ''0'' \<Longrightarrow> show_nat n = ''0''"
  proof (cases "n = 0")
    case True
    have "show_nat 0 = ''0''" by code_simp
    with True show ?thesis by simp
  next
    case False
    then show "hd (show_nat n) = CHR ''0'' \<Longrightarrow> ?thesis" using show_nat_lead [of n] by auto
  qed
  then show ?thesis using n show_nat_short [of n] show_nat_digits [of n] by (auto simp: ipv4_field_def)
qed

lemma show_nat_no_dot: "CHR ''.'' \<notin> set (show_nat n)"
  using show_nat_digits [of n] digit_not by (auto simp: list_all_iff)

lemma parse_ipv4_string:
  assumes "length a = 4" "\<forall>n \<in> set a. n < 256"
  shows "parse_ipv4 (ipv4_string a) = Some a"
proof -
  have "a \<noteq> []" using assms(1) by auto
  then have "split_on (CHR ''.'') (ipv4_string a) = map show_nat a"
    unfolding ipv4_string_def by (intro split_on_join) (auto simp: show_nat_no_dot)
  moreover have "map (ipv4_field \<circ> show_nat) a = map Some a" using assms(2) by (simp add: ipv4_field_show)
  ultimately show ?thesis using assms(1) by (auto simp: parse_ipv4_def comp_def intro!: map_idI)
qed

lemma ipv4_string_first:
  assumes "length a = 4"
  shows "\<exists>r. dropWhile (\<lambda>c. c \<noteq> CHR ''.'' \<and> c \<noteq> CHR '':'' \<and> c \<noteq> CHR ''%'') (ipv4_string a) = CHR ''.'' # r"
proof -
  obtain n m r where a: "a = n # m # r" using assms by (auto simp: numeral_eq_Suc length_Suc_conv)
  have "\<forall>c \<in> set (show_nat n). c \<noteq> CHR ''.'' \<and> c \<noteq> CHR '':'' \<and> c \<noteq> CHR ''%''"
    using show_nat_digits [of n] digit_not by (auto simp: list_all_iff)
  then have "dropWhile (\<lambda>c. c \<noteq> CHR ''.'' \<and> c \<noteq> CHR '':'' \<and> c \<noteq> CHR ''%'') (show_nat n @ CHR ''.'' # t) = CHR ''.'' # t" for t
    by (subst dropWhile_append2) auto
  then show ?thesis by (simp add: a ipv4_string_def)
qed

lemma ParseIP_ipv4:
  "\<lbrakk>length a = 4; \<forall>n \<in> set a. n < 256\<rbrakk> \<Longrightarrow> ParseIP (ipv4_string a) = Some (v4_prefix @ a)"
  using ipv4_string_first [of a] parse_ipv4_string [of a] by (auto simp: ParseIP_def)

section \<open>Addresses in groups\<close>

lemma hex_digit_not: "n < 16 \<Longrightarrow> hex_digit n \<noteq> CHR ''.'' \<and> hex_digit n \<noteq> CHR '':'' \<and> hex_digit n \<noteq> CHR ''%'' \<and> hex_digit n \<noteq> CHR ''[''"
  by (drule less16_cases) (auto simp: hex_digit_def)

lemma show_hex_digits: "\<forall>c \<in> set (show_hex n). \<exists>k < 16. c = hex_digit k"
proof (induction n rule: show_hex.induct)
  case (1 n)
  have "n mod 16 < 16" by simp
  with 1 show ?case by (subst show_hex.simps) (auto simp del: mod_less_divisor)
qed

lemma show_hex_nonempty [simp]: "show_hex n \<noteq> []"
  by (subst show_hex.simps) simp

lemma show_hex_short: "n < 65536 \<Longrightarrow> length (show_hex n) \<le> 4"
  by (subst show_hex.simps, subst show_hex.simps, subst show_hex.simps, subst show_hex.simps) simp

lemma show_hex_value: "foldl (\<lambda>a c. 16 * a + the (hex_val c)) 0 (show_hex n) = n"
proof (induction n rule: show_hex.induct)
  case (1 n)
  show ?case
  proof (cases "n < 16")
    case False
    then show ?thesis using 1 by (subst show_hex.simps) simp
  qed (subst show_hex.simps, simp)
qed

lemma hex_group_show:
  assumes "n < 65536" "r = [] \<or> hex_val (hd r) = None"
  shows "hex_group (show_hex n @ r) = Some (n, r)"
proof -
  have "\<forall>c \<in> set (show_hex n). hex_val c \<noteq> None" using show_hex_digits [of n] by auto
  then have "takeWhile (\<lambda>c. hex_val c \<noteq> None) (show_hex n @ r) = show_hex n @ takeWhile (\<lambda>c. hex_val c \<noteq> None) r"
    by (simp add: takeWhile_append2)
  also have "takeWhile (\<lambda>c. hex_val c \<noteq> None) r = []" using assms(2) by (cases r) auto
  finally show ?thesis using show_hex_short [OF assms(1)] show_hex_value [of n] by (simp add: hex_group_def)
qed

definition group_bytes :: "nat list \<Rightarrow> ip" where
  "group_bytes gs = concat (map (\<lambda>g. [g div 256, g mod 256]) gs)"

lemma group_bytes_simps [simp]:
  "group_bytes [] = []" "group_bytes (g # gs) = g div 256 # g mod 256 # group_bytes gs"
  "group_bytes (gs @ hs) = group_bytes gs @ group_bytes hs"
  by (simp_all add: group_bytes_def)

lemma length_group_bytes [simp]: "length (group_bytes gs) = 2 * length gs"
  by (induction gs) auto

lemma group_bytes_zero [simp]: "group_bytes (replicate n 0) = replicate (2 * n) 0"
  by (induction n) auto

lemma groups_string_Cons:
  "groups_string (g # gs) = show_hex g @ (if gs = [] then [] else CHR '':'' # groups_string gs)"
  by (cases gs) (simp_all add: groups_string_def)

lemma groups_string_head: "gs \<noteq> [] \<Longrightarrow> \<exists>k < 16. \<exists>r. groups_string gs = hex_digit k # r"
proof (cases gs)
  case (Cons g gs')
  obtain c r where "show_hex g = c # r" by (cases "show_hex g") auto
  then show ?thesis using show_hex_digits [of g] by (auto simp: Cons groups_string_Cons)
qed simp

lemma hex_val_colon [simp]: "hex_val (CHR '':'') = None"
  by (simp add: hex_val_def code_def)

text \<open>Reading the groups up to the end, and up to an ellipsis.\<close>

lemma ipv6_groups_end:
  "\<lbrakk>gs \<noteq> []; \<forall>g \<in> set gs. g < 65536; length acc + 2 * length gs \<le> 16\<rbrakk>
    \<Longrightarrow> ipv6_groups acc ell (groups_string gs) = Some (acc @ group_bytes gs, ell, [])"
proof (induction gs arbitrary: acc)
  case (Cons g gs)
  let ?rest = "if gs = [] then [] else CHR '':'' # groups_string gs"
  have h: "hex_group (groups_string (g # gs)) = Some (g, ?rest)"
    unfolding groups_string_Cons using Cons.prems by (intro hex_group_show) auto
  show ?case
  proof (cases "gs = []")
    case True
    with h Cons.prems show ?thesis by (subst ipv6_groups.simps) simp
  next
    case False
    obtain k r where k: "k < 16" "groups_string gs = hex_digit k # r" using groups_string_head [OF False] by blast
    have "ipv6_groups acc ell (groups_string (g # gs)) = ipv6_groups (acc @ [g div 256, g mod 256]) ell (groups_string gs)"
      using h False k Cons.prems hex_digit_not [OF k(1)] by (subst ipv6_groups.simps) simp
    then show ?thesis using Cons.IH [of "acc @ [g div 256, g mod 256]"] False Cons.prems by simp
  qed
qed simp

lemma ipv6_groups_ellipsis:
  "\<lbrakk>gs \<noteq> []; \<forall>g \<in> set gs. g < 65536; length acc + 2 * length gs \<le> 16\<rbrakk>
    \<Longrightarrow> ipv6_groups acc None (groups_string gs @ ''::'' @ t) =
      (let acc = acc @ group_bytes gs in
       if t = [] then Some (acc, Some (length acc), []) else ipv6_groups acc (Some (length acc)) t)"
proof (induction gs arbitrary: acc)
  case (Cons g gs)
  let ?rest = "(if gs = [] then [] else CHR '':'' # groups_string gs) @ ''::'' @ t"
  have h: "hex_group (groups_string (g # gs) @ ''::'' @ t) = Some (g, ?rest)"
    unfolding groups_string_Cons append.assoc using Cons.prems by (intro hex_group_show) auto
  show ?case
  proof (cases "gs = []")
    case True
    with h Cons.prems show ?thesis by (subst ipv6_groups.simps) (simp add: Let_def)
  next
    case False
    obtain k r where k: "k < 16" "groups_string gs = hex_digit k # r" using groups_string_head [OF False] by blast
    have "ipv6_groups acc None (groups_string (g # gs) @ ''::'' @ t) =
        ipv6_groups (acc @ [g div 256, g mod 256]) None (groups_string gs @ ''::'' @ t)"
      using h False k Cons.prems hex_digit_not [OF k(1)] by (subst ipv6_groups.simps) simp
    then show ?thesis using Cons.IH [of "acc @ [g div 256, g mod 256]"] False Cons.prems by simp
  qed
qed simp

section \<open>The longest run of zero groups\<close>

lemma zero_run_zeros: "take (zero_run gs) gs = replicate (zero_run gs) 0"
  by (induction gs) (simp_all add: zero_run_def)

lemma longest_run_ok:
  assumes "longest_run gs = (start, len)" "len \<noteq> 0"
  shows "2 \<le> len" "start + len \<le> length gs" "gs = take start gs @ replicate len 0 @ drop (start + len) gs"
proof -
  define P where "P = (\<lambda>(start, len). len \<noteq> 0 \<longrightarrow> 2 \<le> len \<and> start + len \<le> length gs \<and> take len (drop start gs) = replicate len 0)"
  define f where "f = (\<lambda>i (start, len). let l = zero_run (drop i gs) in if 2 \<le> l \<and> len < l then (i, l) else (start, len))"
  have step: "P (f i x)" if "P x" "i < length gs" for i x
  proof -
    obtain s l where x: "x = (s, l)" by (cases x)
    have "zero_run (drop i gs) \<le> length (drop i gs)" unfolding zero_run_def by (rule length_takeWhile_le)
    then have "i + zero_run (drop i gs) \<le> length gs" using that(2) by simp
    then show ?thesis using that(1) zero_run_zeros [of "drop i gs"] by (auto simp: P_def f_def x Let_def)
  qed
  have "P (fold f is x)" if "P x" "\<forall>i \<in> set is. i < length gs" for "is" x
    using that by (induction "is" arbitrary: x) (auto simp: step)
  then have "P (longest_run gs)" unfolding longest_run_def f_def [symmetric] by (simp add: P_def)
  then have ok: "2 \<le> len" "start + len \<le> length gs" "take len (drop start gs) = replicate len 0"
    using assms by (simp_all add: P_def)
  have "gs = take start gs @ take len (drop start gs) @ drop len (drop start gs)" by (metis append_take_drop_id)
  with ok(3) show "gs = take start gs @ replicate len 0 @ drop (start + len) gs" by (simp add: add.commute)
  from ok show "2 \<le> len" "start + len \<le> length gs" by simp_all
qed

lemma ip_groups_bytes: "\<lbrakk>even (length a); \<forall>n \<in> set a. n < 256\<rbrakk> \<Longrightarrow> group_bytes (ip_groups a) = a"
  by (induction a rule: ip_groups.induct) auto

lemma ip_groups_length: "even (length a) \<Longrightarrow> 2 * length (ip_groups a) = length a"
  by (induction a rule: ip_groups.induct) auto

lemma ip_groups_range: "\<forall>n \<in> set a. n < 256 \<Longrightarrow> \<forall>g \<in> set (ip_groups a). g < 65536"
  by (induction a rule: ip_groups.induct) auto

section \<open>Reading addresses rear\<close>

lemma no_ellipsis_prefix: "gs \<noteq> [] \<Longrightarrow> \<not> has_prefix ''::'' (groups_string gs @ t)"
  using groups_string_head [of gs] hex_digit_not by fastforce

lemma parse_ipv6_full:
  assumes "length gs = 8" "\<forall>g \<in> set gs. g < 65536"
  shows "parse_ipv6 (groups_string gs) = Some (group_bytes gs)"
proof -
  have "gs \<noteq> []" using assms(1) by auto
  moreover from this have "ipv6_groups [] None (groups_string gs) = Some (group_bytes gs, None, [])"
    using ipv6_groups_end [of gs "[]" None] assms by simp
  ultimately show ?thesis using no_ellipsis_prefix [of gs "[]"] assms(1) by (simp add: parse_ipv6_def)
qed

lemma parse_ipv6_short:
  assumes "length front + length rear \<le> 6" "\<forall>g \<in> set (front @ rear). g < 65536"
  shows "parse_ipv6 (groups_string front @ ''::'' @ groups_string rear) =
    Some (group_bytes front @ replicate (16 - 2 * (length front + length rear)) 0 @ group_bytes rear)"
proof (cases "front = []")
  case True
  show ?thesis
  proof (cases "rear = []")
    case False
    then have "groups_string rear \<noteq> []" using groups_string_head [of rear] by auto
    moreover have "ipv6_groups [] (Some 0) (groups_string rear) = Some (group_bytes rear, Some 0, [])"
      using ipv6_groups_end [of rear "[]" "Some 0"] False assms True by simp
    ultimately show ?thesis using assms(1) True by (simp add: parse_ipv6_def groups_string_def [of "[]"])
  qed (simp add: True parse_ipv6_def groups_string_def)
next
  case False
  have "ipv6_groups [] None (groups_string front @ ''::'' @ groups_string rear) =
      Some (group_bytes front @ group_bytes rear, Some (2 * length front), [])"
  proof (cases "rear = []")
    case True
    then show ?thesis using ipv6_groups_ellipsis [of front "[]" "[]"] False assms by (simp add: groups_string_def Let_def)
  next
    case rear: False
    then have "groups_string rear \<noteq> []" using groups_string_head [of rear] by auto
    then show ?thesis using ipv6_groups_ellipsis [of front "[]" "groups_string rear"]
        ipv6_groups_end [of rear "group_bytes front" "Some (2 * length front)"] rear False assms by (simp add: Let_def)
  qed
  then show ?thesis using no_ellipsis_prefix [OF False] assms(1) by (simp add: parse_ipv6_def)
qed

lemma parse_ipv6_string:
  assumes "length a = 16" "\<forall>n \<in> set a. n < 256"
  shows "parse_ipv6 (ipv6_string a) = Some a"
proof -
  let ?gs = "ip_groups a"
  have gs: "length ?gs = 8" "group_bytes ?gs = a" "\<forall>g \<in> set ?gs. g < 65536"
    using ip_groups_length [of a] ip_groups_bytes [of a] ip_groups_range [of a] assms by simp_all
  obtain start len where r: "longest_run ?gs = (start, len)" by (cases "longest_run ?gs")
  show ?thesis
  proof (cases "len = 0")
    case True
    then show ?thesis using parse_ipv6_full [OF gs(1,3)] by (simp add: ipv6_string_def r gs(2))
  next
    case False
    note run = longest_run_ok [OF r False]
    let ?front = "take start ?gs" and ?rear = "drop (start + len) ?gs"
    have l: "length ?front = start" "length ?rear = 8 - (start + len)" using run(2) gs(1) by simp_all
    have "\<forall>g \<in> set (?front @ ?rear). g < 65536" using gs(3) by (auto dest: in_set_takeD in_set_dropD)
    then have "parse_ipv6 (groups_string ?front @ ''::'' @ groups_string ?rear) =
      Some (group_bytes ?front @ replicate (16 - 2 * (length ?front + length ?rear)) 0 @ group_bytes ?rear)"
      using run(1,2) gs(1) by (intro parse_ipv6_short) (simp_all add: l)
    moreover have "16 - 2 * (length ?front + length ?rear) = 2 * len" using run(2) gs(1) by (simp add: l)
    moreover have "group_bytes ?front @ replicate (2 * len) 0 @ group_bytes ?rear = group_bytes ?gs"
      by (subst (3) run(3)) (simp only: group_bytes_simps(3) group_bytes_zero)
    ultimately show ?thesis using False by (simp add: ipv6_string_def r gs(2) Let_def)
  qed
qed

lemma groups_string_bytes: "\<forall>c \<in> set (groups_string gs). c = CHR '':'' \<or> (\<exists>k < 16. c = hex_digit k)"
proof (induction gs)
  case (Cons g gs)
  then show ?case using show_hex_digits [of g] by (auto simp: groups_string_Cons)
qed (simp add: groups_string_def)

lemma groups_string_colon: "1 < length gs \<Longrightarrow> CHR '':'' \<in> set (groups_string gs)"
  by (cases gs) (auto simp: groups_string_Cons)

lemma ipv6_string_bytes:
  assumes "length a = 16"
  shows "\<forall>c \<in> set (ipv6_string a). c = CHR '':'' \<or> (\<exists>k < 16. c = hex_digit k)" "CHR '':'' \<in> set (ipv6_string a)"
proof -
  obtain start len where r: "longest_run (ip_groups a) = (start, len)" by (cases "longest_run (ip_groups a)")
  have l: "1 < length (ip_groups a)" using ip_groups_length [of a] assms by simp
  note g = groups_string_bytes [of "ip_groups a"] groups_string_bytes [of "take start (ip_groups a)"]
    groups_string_bytes [of "drop (start + len) (ip_groups a)"]
  show "\<forall>c \<in> set (ipv6_string a). c = CHR '':'' \<or> (\<exists>k < 16. c = hex_digit k)" "CHR '':'' \<in> set (ipv6_string a)"
    using g groups_string_colon [OF l] by (cases "len = 0"; simp add: ipv6_string_def r Let_def ball_Un)+
qed

lemma ParseIP_ipv6:
  assumes "length a = 16" "\<forall>n \<in> set a. n < 256"
  shows "ParseIP (ipv6_string a) = Some a"
proof -
  let ?s = "ipv6_string a" and ?p = "\<lambda>c. c \<noteq> CHR ''.'' \<and> c \<noteq> CHR '':'' \<and> c \<noteq> CHR ''%''"
  note b = ipv6_string_bytes [OF assms(1)]
  have only: "CHR ''.'' \<notin> set ?s" "CHR ''%'' \<notin> set ?s" using b(1) hex_digit_not by fastforce+
  have "dropWhile ?p ?s \<noteq> []" using b(2) by (simp add: dropWhile_eq_Nil_conv) blast
  then obtain y r where d: "dropWhile ?p ?s = y # r" by (cases "dropWhile ?p ?s") auto
  have "y \<in> set (dropWhile ?p ?s)" by (simp add: d)
  then have "y \<in> set ?s" by (rule set_dropWhileD)
  moreover have "\<not> ?p y" using d by (simp add: dropWhile_eq_Cons_conv)
  ultimately have "y = CHR '':''" using only by auto
  with d only show ?thesis using parse_ipv6_string [OF assms] by (simp add: ParseIP_def)
qed

text \<open>An address of sixteen bytes is read rear as it was; one of four bytes gets the prefix.\<close>

definition ip_bytes_ok :: "ip \<Rightarrow> bool" where
  "ip_bytes_ok a \<longleftrightarrow> (length a = 4 \<or> length a = 16) \<and> list_all (\<lambda>n. n < 256) a"

definition To16 :: "ip \<Rightarrow> ip" where
  "To16 a = (if length a = 4 then v4_prefix @ a else a)"

lemma ParseIP_String: "ip_bytes_ok a \<Longrightarrow> ParseIP (ip_String a) = Some (To16 a)"
proof -
  assume ok: "ip_bytes_ok a"
  have l: "length v4_prefix = 12" by (simp add: v4_prefix_def)
  have r: "\<forall>n \<in> set a. n < 256" "\<forall>n \<in> set (drop 12 a). n < 256" using ok by (auto simp: ip_bytes_ok_def list_all_iff dest: in_set_dropD)
  consider "length a = 4" | "length a = 16" "is_v4 a" | "length a = 16" "\<not> is_v4 a" using ok by (auto simp: ip_bytes_ok_def)
  then show ?thesis
  proof cases
    case 1
    then have "a \<noteq> []" by auto
    with 1 show ?thesis using ParseIP_ipv4 [of a] r(1) by (simp add: ip_String_def To4_def To16_def)
  next
    case 2
    then have "a \<noteq> []" by auto
    moreover from 2 have "v4_prefix @ drop 12 a = a" by (metis append_take_drop_id is_v4_def)
    ultimately show ?thesis using 2 ParseIP_ipv4 [of "drop 12 a"] r(2) by (simp add: ip_String_def To4_def To16_def)
  next
    case 3
    then have "a \<noteq> []" by auto
    with 3 show ?thesis using ParseIP_ipv6 [of a] r(1) by (simp add: ip_String_def To4_def To16_def)
  qed
qed

interpretation ip_text: partial_codec "\<lambda>a. length a = 16 \<and> ip_bytes_ok a" ip_String ParseIP
  by unfold_locales (simp add: ParseIP_String To16_def)

end
