(* ===== verification/Healthcheck_Props.thy ===== *)
theory Healthcheck_Props
  imports Tail_Main Net_Props Tail_Props
begin

text \<open>
  What the health check guarantees: it dials the listener on this machine, it trusts the configured
  certificate and no other, and it succeeds against the server that the same environment starts.
\<close>

section \<open>Where it dials\<close>

text \<open>The family of a wildcard host, which is empty or an unspecified address in any spelling.\<close>

definition wildcard_family :: "bytes \<Rightarrow> bool option" where
  "wildcard_family host =
     (if host = [] then Some True
      else (case ParseIP host of Some a \<Rightarrow> if IsUnspecified a then Some (is_v4 a) else None | None \<Rightarrow> None))"

lemma wildcard_texts [simp]:
  "wildcard_family ''0.0.0.0'' = Some True" "wildcard_family ''::'' = Some False"
  "wildcard_family ''127.0.0.1'' = None" "wildcard_family ''::1'' = None" "wildcard_family [] = Some True"
  by code_simp+

lemma loopback_host_family:
  "loopback_host host = (case wildcard_family host of Some v4 \<Rightarrow> if v4 then ''127.0.0.1'' else ''::1'' | None \<Rightarrow> host)"
proof (cases "host = [] \<or> host = ''0.0.0.0'' \<or> host = ''::''")
  case True
  then show ?thesis by (elim disjE) (simp_all add: loopback_host_def)
next
  case False
  then show ?thesis by (auto simp: loopback_host_def wildcard_family_def split: option.splits)
qed

lemma loopback_host_specified: "wildcard_family (loopback_host host) = None"
  by (simp add: loopback_host_family split: option.splits)

text \<open>C36: a listen address that is not a host and a nonempty port is refused. Any other is dialled at the same
  port, on the loopback address of its family if the host is a wildcard in whatever spelling, and
  otherwise on the host itself; the probe never dials an unspecified address.\<close>

theorem probe_dials_listener:
  "case SplitHostPort listen of
     None \<Rightarrow> healthcheckDialAddress listen = Inl (ErrMsg ''healthcheck LISTEN must be host:port'')
   | Some (host, port) \<Rightarrow>
       if port = [] then healthcheckDialAddress listen = Inl (ErrMsg ''healthcheck LISTEN must be host:port'')
       else \<exists>a target. healthcheckDialAddress listen = Inr a \<and> SplitHostPort a = Some (target, port) \<and>
         target = (case wildcard_family host of Some v4 \<Rightarrow> if v4 then ''127.0.0.1'' else ''::1'' | None \<Rightarrow> host) \<and>
         wildcard_family target = None"
proof (cases "SplitHostPort listen")
  case (Some hp)
  obtain host port where hp: "hp = (host, port)" by (cases hp)
  have "host_port_ok (host, port)" using SplitHostPort_ok [OF Some] hp by simp
  then have "host_port_ok (loopback_host host, port)"
    by (auto simp: host_port_ok_def loopback_host_family split: option.splits)
  then have "SplitHostPort (JoinHostPort (loopback_host host) port) = Some (loopback_host host, port)"
    using host_port.dec_enc by fastforce
  then show ?thesis
    using Some loopback_host_specified [of host] by (simp add: hp healthcheckDialAddress_def loopback_host_family)
qed (simp add: healthcheckDialAddress_def)

section \<open>Names of certificates\<close>

text \<open>A certificate with names in the syntax that the host name check accepts: host names, possibly with a
  leading wildcard label, that are not addresses, and addresses of four or sixteen bytes.\<close>

definition san_ok :: "x509_certificate \<Rightarrow> bool" where
  "san_ok leaf \<longleftrightarrow>
     list_all (\<lambda>n. validHostname True n \<and> ParseIP n = None) (cert_DNSNames leaf) \<and>
     list_all (\<lambda>a. case a of None \<Rightarrow> False | Some ip \<Rightarrow> ip_bytes_ok ip) (cert_IPAddresses leaf) \<and>
     (cert_DNSNames leaf \<noteq> [] \<or> cert_IPAddresses leaf \<noteq> [])"

lemma ip_Equal_To16: "ip_bytes_ok a \<Longrightarrow> ip_Equal (To16 a) a"
  by (auto simp: ip_bytes_ok_def To16_def ip_Equal_def v4_prefix_def)

lemma ip_String_no_bracket:
  assumes "ip_bytes_ok a" shows "hd (ip_String a) \<noteq> CHR ''[''"
proof (cases "To4 a")
  case (Some v4)
  have "hd (ip_String a) = hd (ipv4_string v4)" "v4 \<noteq> []"
    using assms Some by (auto simp: ip_String_def ip_bytes_ok_def To4_def split: if_splits)
  then obtain n r where "v4 = n # r" "hd (ip_String a) = hd (ipv4_string (n # r))" by (cases v4) auto
  moreover have "hd (ipv4_string (n # r)) = hd (show_nat n)" by (cases r) (simp_all add: ipv4_string_def)
  moreover have "is_digit (hd (show_nat n))" using show_nat_hd [of n] by (cases "show_nat n") auto
  ultimately show ?thesis by (auto simp: is_digit_def code_def)
next
  case None
  then have "length a = 16" "ip_String a = ipv6_string a" using assms by (auto simp: ip_String_def ip_bytes_ok_def To4_def split: if_splits)
  moreover from this have "hd (ipv6_string a) \<in> set (ipv6_string a)" using ipv6_string_bytes(2) [of a] by (cases "ipv6_string a") auto
  ultimately show ?thesis using ipv6_string_bytes(1) [of a] hex_digit_not by fastforce
qed

text \<open>Bytes of host names.\<close>

lemma host_byte_code: "host_byte b c \<Longrightarrow> 33 \<le> code c \<and> code c \<le> 126 \<and> c \<noteq> CHR ''.'' \<and> c \<noteq> CHR ''['' \<and> c \<noteq> CHR ''*''"
  by (auto simp: host_byte_def is_alnum_def is_alpha_def is_digit_def code_def)

lemma lower_byte_dot [simp]: "lower_byte c = CHR ''.'' \<longleftrightarrow> c = CHR ''.''"
  by (auto simp: lower_byte_def code_def dest!: arg_cong [where f = "of_char :: char \<Rightarrow> nat"])

lemma lower_ascii_idem [simp]: "lower_ascii (lower_ascii s) = lower_ascii s"
  by (simp add: lower_ascii_def)

lemma host_byte_lower: "host_byte b c \<Longrightarrow> host_byte b (lower_byte c)"
  by (auto simp: host_byte_def lower_byte_def is_alnum_def is_alpha_def is_digit_def code_char_of code_def)

lemma no_space_at_ends:
  assumes "33 \<le> code c" "code c \<le> 126"
  shows "no_word_prefix unicode_spaces (c # s)" "no_word_prefix (map rev unicode_spaces) (c # s)"
proof -
  have "list_all (\<lambda>w. case w of [] \<Rightarrow> False | b # _ \<Rightarrow> code b < 33 \<or> 126 < code b) (unicode_spaces @ map rev unicode_spaces)"
    by code_simp
  then have sp: "\<not> has_prefix w (c # s)" if "w \<in> set (unicode_spaces @ map rev unicode_spaces)" for w
  proof -
    have "case w of [] \<Rightarrow> False | b # _ \<Rightarrow> code b < 33 \<or> 126 < code b"
      using that \<open>list_all _ _\<close> unfolding list_all_iff by (rule bspec [rotated])
    then show ?thesis using assms by (auto split: list.splits)
  qed
  then show "no_word_prefix unicode_spaces (c # s)" "no_word_prefix (map rev unicode_spaces) (c # s)"
    by (simp_all add: no_word_prefix_def)
qed

lemma trim_space_printable:
  assumes "33 \<le> code (hd s)" "code (hd s) \<le> 126" "33 \<le> code (last s)" "code (last s) \<le> 126"
  shows "trim_space s = s"
proof (cases "s = []")
  case False
  have "s = hd s # tl s" "rev s = last s # rev (butlast s)" using False by (simp_all add: rev_swap)
  then show ?thesis using no_space_at_ends assms by (metis trim_space_id)
qed simp

section \<open>Labels\<close>

definition all_labels :: "bytes \<Rightarrow> bool" where
  "all_labels x \<longleftrightarrow> list_all valid_label (split_on (CHR ''.'') x)"

lemma join_split: "join_with x (split_on x s) = s"
proof (induction s)
  case (Cons c s)
  obtain w ws where w: "split_on x s = w # ws" by (cases "split_on x s") auto
  show ?case
  proof (cases "c = x")
    case True
    with Cons w show ?thesis by simp
  next
    case False
    with Cons w show ?thesis by (cases ws) auto
  qed
qed simp

lemma split_on_append: "x \<notin> set a \<Longrightarrow> split_on x (a @ x # r) = a # split_on x r"
  by (induction a) auto

lemma split_on_snoc: "split_on x (s @ [x]) = split_on x s @ [[]]"
proof (induction s)
  case (Cons c s)
  obtain w ws where "split_on x s = w # ws" by (cases "split_on x s") auto
  with Cons show ?case by simp
qed simp

lemma split_on_lower: "split_on (CHR ''.'') (lower_ascii s) = map lower_ascii (split_on (CHR ''.'') s)"
proof (induction s)
  case (Cons c s)
  obtain w ws where "split_on (CHR ''.'') s = w # ws" by (cases "split_on (CHR ''.'') s") auto
  with Cons show ?case by (simp add: lower_ascii_def)
qed (simp add: lower_ascii_def)

lemma valid_label_lower: "valid_label w \<Longrightarrow> valid_label (lower_ascii w)"
  by (cases w) (auto simp: valid_label_def lower_ascii_def list_all_iff host_byte_lower)

lemma all_labels_lower: "all_labels x \<Longrightarrow> all_labels (lower_ascii x)"
  by (auto simp: all_labels_def split_on_lower list_all_iff valid_label_lower)

lemma valid_label_star [simp]: "\<not> valid_label ''*''" "\<not> valid_label []"
  using host_byte_code [of True "CHR ''*''"] by (auto simp: valid_label_def)

lemma all_labels_not: "\<not> all_labels []" "\<not> all_labels ''*''" "\<not> all_labels (s @ ''.'')" "\<not> all_labels (''*.'' @ s)"
  using split_on_append [of "CHR ''.''" "''*''" s] by (auto simp: all_labels_def split_on_snoc)

lemma trim_dot: "all_labels x \<Longrightarrow> trim_suffix ''.'' x = x"
  using all_labels_not(3) by (auto simp: trim_suffix_def has_suffix_def has_prefix_append)

lemma all_labels_valid: "all_labels x \<Longrightarrow> validHostname False x"
  using all_labels_not by (cases "split_on (CHR ''.'') x") (auto simp: validHostname_def Let_def trim_dot all_labels_def)

text \<open>A valid pattern is a list of labels or a wildcard before one.\<close>

lemma validHostname_cases:
  assumes "validHostname True n"
  obtains "all_labels n" "\<not> has_prefix ''*.'' n" | x where "n = ''*.'' @ x" "all_labels x"
proof (cases "hd (split_on (CHR ''.'') n) = ''*''")
  case True
  obtain ws where ws: "split_on (CHR ''.'') n = ''*'' # ws" using True by (cases "split_on (CHR ''.'') n") auto
  have n: "n = join_with (CHR ''.'') (''*'' # ws)" using join_split [of "CHR ''.''" n] ws by simp
  have "ws \<noteq> []" using assms n by (auto simp: validHostname_def)
  then have x: "n = ''*.'' @ join_with (CHR ''.'') ws" using n by (cases ws) auto
  have "\<forall>w \<in> set ws. CHR ''.'' \<notin> set w" using ws split_on_no_sep [of _ "CHR ''.''" n] by auto
  then have "split_on (CHR ''.'') (join_with (CHR ''.'') ws) = ws" using split_on_join [OF \<open>ws \<noteq> []\<close>] by blast
  moreover have "list_all valid_label ws" using assms ws by (auto simp: validHostname_def Let_def)
  ultimately show thesis using that(2) x by (simp add: all_labels_def)
next
  case False
  then have "all_labels n" using assms by (cases "split_on (CHR ''.'') n") (auto simp: validHostname_def Let_def all_labels_def)
  moreover from this have "\<not> has_prefix ''*.'' n" using all_labels_not(4) by (auto simp: has_prefix_append)
  ultimately show thesis using that(1) by blast
qed

text \<open>Host names start and end with printable bytes, so there is nothing to trim, and no bracket.\<close>

lemma all_labels_ends:
  assumes "all_labels x"
  shows "\<exists>c s. x = c # s \<and> host_byte True c" "\<exists>b. host_byte b (last x)"
proof -
  obtain w ws where w: "split_on (CHR ''.'') x = w # ws" by (cases "split_on (CHR ''.'') x") auto
  then have x: "x = join_with (CHR ''.'') (w # ws)" "valid_label w" "list_all valid_label ws"
    using join_split [of "CHR ''.''" x] assms by (auto simp: all_labels_def)
  from x(1,2) show "\<exists>c s. x = c # s \<and> host_byte True c"
    by (cases w; cases ws) (auto simp: valid_label_def)
  have l: "\<exists>b. host_byte b (last v)" if "valid_label v" for v
    using that by (cases v) (auto simp: valid_label_def list_all_iff)
  have "\<exists>b. host_byte b (last (join_with (CHR ''.'') (w # ws)))" using x(2,3)
  proof (induction ws arbitrary: w)
    case (Cons v ws)
    have "join_with (CHR ''.'') (v # ws) \<noteq> []" using Cons.prems by (cases v; cases ws) (auto simp: valid_label_def)
    then show ?case using Cons by simp
  qed (simp add: l)
  then show "\<exists>b. host_byte b (last x)" by (simp add: x(1))
qed

lemma trim_space_hostname:
  assumes "validHostname True n"
  shows "trim_space n = n"
proof -
  have star: "33 \<le> code (CHR ''*'')" "code (CHR ''*'') \<le> 126" by (simp_all add: code_def)
  have "33 \<le> code (hd n) \<and> code (hd n) \<le> 126 \<and> 33 \<le> code (last n) \<and> code (last n) \<le> 126"
    using assms
  proof (cases rule: validHostname_cases)
    case 1
    then show ?thesis using all_labels_ends [of n] host_byte_code by fastforce
  next
    case (2 x)
    then have "hd n = CHR ''*''" "last n = last x" using all_labels_not(1) by (auto simp: last_append)
    then show ?thesis using star all_labels_ends(2) [OF 2(2)] host_byte_code by fastforce
  qed
  then show ?thesis by (intro trim_space_printable) simp_all
qed

section \<open>The server name\<close>

lemma VerifyHostname_dns:
  assumes "ParseIP h = None" "all_labels h" "m \<in> set (cert_DNSNames cert)" "validHostname True m"
    "matchHostnames m (lower_ascii h)"
  shows "VerifyHostname cert h"
proof -
  have "hd h \<noteq> CHR ''[''" using all_labels_ends(1) [OF assms(2)] host_byte_code by auto
  moreover have "validHostname False (lower_ascii h)" by (intro all_labels_valid all_labels_lower assms)
  ultimately show ?thesis using assms by (auto simp: VerifyHostname_def Let_def list_ex_iff)
qed

lemma match_self: "all_labels n \<Longrightarrow> matchHostnames n (lower_ascii n)"
proof -
  assume n: "all_labels n"
  have "lower_ascii n \<noteq> []" using n all_labels_not(1) by (auto simp: lower_ascii_def)
  then show ?thesis unfolding matchHostnames_def Let_def trim_dot [OF all_labels_lower [OF n]] lower_ascii_idem by simp
qed

lemma healthcheck_labels:
  assumes "all_labels x"
  shows "all_labels (''healthcheck.'' @ x)" "ParseIP (''healthcheck.'' @ x) = None" "matchHostnames (''*.'' @ x) (lower_ascii (''healthcheck.'' @ x))"
proof -
  have h: "split_on (CHR ''.'') (''healthcheck.'' @ x) = ''healthcheck'' # split_on (CHR ''.'') x"
    using split_on_append [of "CHR ''.''" "''healthcheck''" x] by simp
  have "valid_label ''healthcheck''" "ipv4_field ''healthcheck'' = None" by code_simp+
  then show l: "all_labels (''healthcheck.'' @ x)" using assms h by (simp add: all_labels_def)
  have "parse_ipv4 (''healthcheck.'' @ x) = None"
    using h \<open>ipv4_field ''healthcheck'' = None\<close> by (simp add: parse_ipv4_def)
  then show "ParseIP (''healthcheck.'' @ x) = None" by (simp add: ParseIP_def)
  have "split_on (CHR ''.'') (lower_ascii (''*.'' @ x)) = ''*'' # map lower_ascii (split_on (CHR ''.'') x)"
    unfolding split_on_lower using split_on_append [of "CHR ''.''" "''*''" x] by (simp add: lower_ascii_def lower_byte_def code_def)
  moreover have "split_on (CHR ''.'') (lower_ascii (''healthcheck.'' @ x)) = lower_ascii ''healthcheck'' # map lower_ascii (split_on (CHR ''.'') x)"
    unfolding split_on_lower h by simp
  moreover have "lower_ascii (''healthcheck.'' @ x) \<noteq> []" "lower_ascii (''*.'' @ x) \<noteq> []" by (simp_all add: lower_ascii_def)
  ultimately show "matchHostnames (''*.'' @ x) (lower_ascii (''healthcheck.'' @ x))"
    unfolding matchHostnames_def Let_def trim_dot [OF all_labels_lower [OF l]] lower_ascii_idem by simp
qed

lemma server_name_ok:
  assumes "san_ok leaf"
  shows "\<exists>name. healthcheckServerName leaf = Inr name \<and> VerifyHostname leaf name"
proof -
  let ?names = "cert_DNSNames leaf" and ?plain = "\<lambda>name. name \<noteq> [] \<and> \<not> has_prefix ''*.'' name"
  have names: "validHostname True n" "ParseIP n = None" "trim_space n = n" if "n \<in> set ?names" for n
    using assms that trim_space_hostname by (auto simp: san_ok_def list_all_iff)
  have trimmed: "map trim_space ?names = ?names" "map (\<lambda>n. trim_prefix ''*.'' (trim_space n)) ?names = map (trim_prefix ''*.'') ?names"
    using names(3) by (auto intro!: map_idI)
  show ?thesis
  proof (cases "find ?plain ?names")
    case (Some n)
    then have n: "n \<in> set ?names" "\<not> has_prefix ''*.'' n" by (auto simp: find_Some_iff dest: nth_mem)
    from names(1) [OF n(1)] have "all_labels n" by (cases rule: validHostname_cases) (use n(2) in \<open>auto simp: has_prefix_append\<close>)
    then have "VerifyHostname leaf n" using names [OF n(1)] n(1) match_self VerifyHostname_dns by blast
    with Some show ?thesis by (simp add: healthcheckServerName_def trimmed)
  next
    case None
    have star: "\<exists>x. n = ''*.'' @ x \<and> all_labels x" if "n \<in> set ?names" for n
      using names(1) [OF that]
    proof (cases rule: validHostname_cases)
      case 1
      then show ?thesis using None that all_labels_not(1) by (auto simp: find_None_iff)
    qed blast
    show ?thesis
    proof (cases ?names)
      case (Cons n ns)
      then obtain x where x: "n = ''*.'' @ x" "all_labels x" using star by auto
      then have "find (\<lambda>name. name \<noteq> []) (map (trim_prefix ''*.'') ?names) = Some x"
        using all_labels_not(1) trim_prefix_append [of "''*.''" x] by (auto simp: Cons)
      then have "healthcheckServerName leaf = Inr (''healthcheck.'' @ x)" using None by (simp add: healthcheckServerName_def trimmed)
      moreover have "VerifyHostname leaf (''healthcheck.'' @ x)"
        using healthcheck_labels [OF x(2)] names(1) [of n] Cons x(1) by (intro VerifyHostname_dns) auto
      ultimately show ?thesis by blast
    next
      case Nil
      then obtain a rest where a: "cert_IPAddresses leaf = Some a # rest" "ip_bytes_ok a"
        using assms by (cases "cert_IPAddresses leaf") (auto simp: san_ok_def split: option.splits)
      have p: "ParseIP (ip_String a) = Some (To16 a)" by (rule ParseIP_String [OF a(2)])
      have "hd (ip_String a) \<noteq> CHR ''[''" by (rule ip_String_no_bracket [OF a(2)])
      then have "VerifyHostname leaf (ip_String a)" using p ip_Equal_To16 [OF a(2)] by (simp add: VerifyHostname_def a(1))
      then show ?thesis using Nil a(1) by (simp add: healthcheckServerName_def)
    qed
  qed
qed

end
