(* ===== verification/Probe_Props.thy ===== *)
theory Probe_Props
  imports Healthcheck_Props Collectors
begin

text \<open>
  The health check as a whole: the TLS configuration of its client, the URL of its request, and the
  probe of a server that the same environment has started.
\<close>

section \<open>The client's TLS configuration\<close>

lemma loadTLSConfig_Some:
  assumes "loadTLSConfig os certPath keyPath = Inr (Some (cfg, fp))"
  obtains c der rest leaf where "o_LoadX509KeyPair os certPath keyPath = Inr c" "tls_chain c = der # rest"
    "o_ParseCertificate os der = Inr leaf" "cfg = \<lparr>tls_MinVersion = VersionTLS12, tls_Certificates = [c\<lparr>tls_Leaf := Some leaf\<rparr>]\<rparr>"
    "fp = Sum256 (cert_RawSubjectPublicKeyInfo leaf)"
  using assms by (auto simp: loadTLSConfig_def split: if_splits sum.splits list.splits)

text \<open>The certificate a listener with this configuration presents.\<close>

definition listener_leaf :: "tls_config \<Rightarrow> x509_certificate option" where
  "listener_leaf cfg = (case tls_Certificates cfg of [] \<Rightarrow> None | c # _ \<Rightarrow> tls_Leaf c)"

definition listener_chain :: "tls_config \<Rightarrow> bytes list" where
  "listener_chain cfg = (case tls_Certificates cfg of [] \<Rightarrow> [] | c # _ \<Rightarrow> tls_chain c)"

lemma add_configured_roots:
  "\<forall>raw \<in> set chain. \<exists>c. o_ParseCertificate os raw = Inr c \<Longrightarrow>
    \<exists>cs. add_configured os chain roots = Inr (roots @ cs) \<and> map Inr cs = map (o_ParseCertificate os) chain"
proof (induction chain arbitrary: roots)
  case (Cons raw chain)
  then obtain c where c: "o_ParseCertificate os raw = Inr c" by auto
  with Cons.IH [of "roots @ [c]"] Cons.prems obtain cs where
    "add_configured os chain (roots @ [c]) = Inr (roots @ [c] @ cs)" "map Inr cs = map (o_ParseCertificate os) chain" by auto
  with c show ?case by (intro exI [of _ "c # cs"]) simp
qed simp

lemma verify_leaf_iff: "verify_leaf expected peers = None \<longleftrightarrow> (\<exists>p ps. peers = p # ps \<and> cert_Raw p = expected)"
  by (cases peers) (auto simp: verify_leaf_def)

lemma client_tls_ok:
  assumes "loadTLSConfig os certPath keyPath = Inr (Some (cfg, fp))" "listener_leaf cfg = Some leaf" "san_ok leaf"
    and "\<forall>raw \<in> set (listener_chain cfg). \<exists>c. o_ParseCertificate os raw = Inr c"
  shows "\<exists>ct. healthcheckTLSConfig os hostname_error cfg = Inr ct \<and> ct_MinVersion ct = VersionTLS12 \<and>
    VerifyHostname leaf (ct_ServerName ct) \<and> leaf \<in> set (ct_RootCAs ct) \<and>
    (\<forall>peers. ct_VerifyConnection ct peers = None \<longleftrightarrow> (\<exists>p ps. peers = p # ps \<and> cert_Raw p = cert_Raw leaf))"
proof -
  from assms(1) obtain c der rest l where c: "tls_chain c = der # rest" "o_ParseCertificate os der = Inr l"
    "cfg = \<lparr>tls_MinVersion = VersionTLS12, tls_Certificates = [c\<lparr>tls_Leaf := Some l\<rparr>]\<rparr>" by (rule loadTLSConfig_Some)
  then have l: "l = leaf" "listener_chain cfg = der # rest" using assms(2) by (simp_all add: listener_leaf_def listener_chain_def)
  from server_name_ok [OF assms(3)] obtain name where n: "healthcheckServerName leaf = Inr name" "VerifyHostname leaf name" by blast
  let ?roots = "case o_SystemCertPool os of None \<Rightarrow> [] | Some roots \<Rightarrow> roots"
  from add_configured_roots [OF assms(4), of ?roots] obtain cs where
    cs: "add_configured os (der # rest) ?roots = Inr (?roots @ cs)" "map Inr cs = map (o_ParseCertificate os) (der # rest)"
    by (auto simp: l(2))
  from cs(2) c(2) l(1) have "leaf \<in> set cs" by (cases cs) auto
  with cs(1) n c l(1) show ?thesis
    by (simp add: healthcheckTLSConfig_def configured_leaf_def verify_leaf_iff del: add_configured.simps)
qed

text \<open>C38: for a listener certificate with well-formed names and a chain that parses, the client's configuration
  exists; its server name is one the certificate passes the host name check for, the certificate is
  among its roots, and a connection is accepted exactly if the peer's first certificate is, byte by
  byte, the configured one.\<close>

theorem probe_trusts_listener:
  assumes "loadTLSConfig os certPath keyPath = Inr (Some (cfg, fp))" and "listener_leaf cfg = Some leaf" and "san_ok leaf"
    and "\<forall>raw \<in> set (listener_chain cfg). \<exists>c. o_ParseCertificate os raw = Inr c"
  shows "\<exists>ct. healthcheckTLSConfig os hostname_error cfg = Inr ct \<and> ct_MinVersion ct = VersionTLS12 \<and>
    VerifyHostname leaf (ct_ServerName ct) \<and> leaf \<in> set (ct_RootCAs ct) \<and>
    (\<forall>peers. ct_VerifyConnection ct peers = None \<longleftrightarrow> (\<exists>p ps. peers = p # ps \<and> cert_Raw p = cert_Raw leaf))"
  by (rule client_tls_ok [OF assms])

definition sample_leaf :: x509_certificate where
  "sample_leaf = \<lparr>cert_Raw = ''der'', cert_RawSubjectPublicKeyInfo = ''spki'', cert_DNSNames = [''*.tail.example''],
     cert_IPAddresses = [Some [127, 0, 0, 1]]\<rparr>"

text \<open>A machine with a key pair; the variables are given by a list.\<close>

definition sample_machine :: "(bytes \<times> bytes) list \<Rightarrow> machine" where
  "sample_machine vars = \<lparr>o_getenv = (\<lambda>k. case map_of vars k of None \<Rightarrow> [] | Some v \<Rightarrow> v),
     o_LoadX509KeyPair = (\<lambda>_ _. Inr \<lparr>tls_chain = [''der''], tls_Leaf = None\<rparr>), o_ParseCertificate = (\<lambda>_. Inr sample_leaf),
     o_SystemCertPool = None\<rparr>"

lemma sample_leaf_ok: "san_ok sample_leaf"
  by code_simp

lemma sample_machine_tls:
  "loadTLSConfig (sample_machine vars) ''cert'' ''key'' =
    Inr (Some (\<lparr>tls_MinVersion = VersionTLS12, tls_Certificates = [\<lparr>tls_chain = [''der''], tls_Leaf = Some sample_leaf\<rparr>]\<rparr>,
      Sum256 ''spki''))"
  by (simp add: loadTLSConfig_def sample_machine_def sample_leaf_def)

theorem probe_trusts_listener_witness:
  "\<exists>cfg fp ct. loadTLSConfig (sample_machine []) ''cert'' ''key'' = Inr (Some (cfg, fp)) \<and>
     healthcheckTLSConfig (sample_machine []) ErrMsg cfg = Inr ct \<and> ct_VerifyConnection ct [sample_leaf] = None"
proof -
  let ?c = "\<lparr>tls_MinVersion = VersionTLS12, tls_Certificates = [\<lparr>tls_chain = [''der''], tls_Leaf = Some sample_leaf\<rparr>]\<rparr>"
  have "listener_leaf ?c = Some sample_leaf" "\<forall>raw \<in> set (listener_chain ?c). \<exists>c. o_ParseCertificate (sample_machine []) raw = Inr c"
    by (simp_all add: listener_leaf_def listener_chain_def sample_machine_def)
  from probe_trusts_listener [OF sample_machine_tls this(1) sample_leaf_ok this(2), of ErrMsg]
  obtain ct where "healthcheckTLSConfig (sample_machine []) ErrMsg ?c = Inr ct" "ct_VerifyConnection ct [sample_leaf] = None" by auto
  then show ?thesis using sample_machine_tls by blast
qed

section \<open>The URL of the probe\<close>

definition url_byte :: "byte \<Rightarrow> bool" where
  "url_byte c \<longleftrightarrow> is_alnum c \<or> c \<in> set ''-_.~:[]''"

lemma url_byte_facts:
  assumes "url_byte c"
  shows "\<not> shouldEscape c encodeHost" "c \<noteq> CHR ''%''" "c \<noteq> CHR ''#''" "c \<noteq> CHR ''?''" "c \<noteq> CHR ''/''" "c \<noteq> CHR ''@''"
    "33 \<le> code c" "code c \<le> 126"
  using assms by (auto simp: url_byte_def shouldEscape_def is_alnum_def is_alpha_def is_digit_def host_safe_def code_def)

lemma escape_host: "list_all url_byte s \<Longrightarrow> escape s encodeHost = s"
  by (induction s) (auto simp: escape_def escape_byte_def url_byte_facts(1))

lemma unescape_host: "list_all url_byte s \<Longrightarrow> unescape s encodeHost = Some s"
  by (induction s) (auto simp: url_byte_facts(1,2))

lemma cut_absent: "x \<notin> set s \<Longrightarrow> cut x s = (s, [], False)"
proof -
  assume "x \<notin> set s"
  then have "dropWhile (\<lambda>c. c \<noteq> x) s = []" by (induction s) auto
  then show ?thesis by (simp only: cut_def list.case)
qed

lemma index_of_absent: "CHR ''%'' \<notin> set s \<Longrightarrow> index_of ''%25'' s = None"
  by (induction s) auto

text \<open>An address the probe can dial and write into a URL: a host of name bytes, a numeric port.\<close>

definition dialable :: "bytes \<Rightarrow> bytes \<Rightarrow> bool" where
  "dialable host port \<longleftrightarrow>
     list_all (\<lambda>c. is_alnum c \<or> c \<in> set ''-_.~:'') host \<and> host \<noteq> [] \<and> list_all is_digit port \<and> port \<noteq> []"

lemma digit_url_byte: "is_digit c \<Longrightarrow> url_byte c" by (simp add: url_byte_def is_alnum_def)

lemma mark_bytes [simp]:
  "\<not> is_digit (CHR '':'')" "\<not> is_digit (CHR ''['')" "\<not> is_digit (CHR '']'')" "\<not> is_alnum (CHR ''['')" "\<not> is_alnum (CHR '']'')"
  by code_simp+

lemma dialable_marks:
  assumes "dialable host port"
  shows "CHR ''['' \<notin> set host" "CHR '']'' \<notin> set host" "CHR '':'' \<notin> set port" "CHR '']'' \<notin> set port" "CHR ''['' \<notin> set port"
    "list_all url_byte host" "list_all url_byte port" "host \<noteq> []" "port \<noteq> []" "list_all is_digit port"
proof -
  from assms have d: "\<forall>c \<in> set host. is_alnum c \<or> c \<in> set ''-_.~:''" "\<forall>c \<in> set port. is_digit c" "host \<noteq> []" "port \<noteq> []"
    by (auto simp: dialable_def list_all_iff)
  show "CHR ''['' \<notin> set host" "CHR '']'' \<notin> set host" using d(1) by auto
  show "CHR '':'' \<notin> set port" "CHR '']'' \<notin> set port" "CHR ''['' \<notin> set port" using d(2) by auto
  show "list_all url_byte host" using d(1) by (auto simp: list_all_iff url_byte_def)
  show "list_all url_byte port" "list_all is_digit port" using d(2) digit_url_byte by (auto simp: list_all_iff)
  show "host \<noteq> []" "port \<noteq> []" by (rule d(3), rule d(4))
qed

lemma dialable_bytes: "dialable host port \<Longrightarrow> list_all url_byte (JoinHostPort host port)"
  using dialable_marks [of host port] by (auto simp: JoinHostPort_def url_byte_def)

lemma parseHost_dialable:
  assumes "dialable host port"
  shows "parseHost (JoinHostPort host port) = Some (JoinHostPort host port)"
proof (cases "CHR '':'' \<in> set host")
  case True
  note m = dialable_marks [OF assms]
  let ?a = "''['' @ host @ '']:'' @ port"
  have a: "JoinHostPort host port = ?a" "list_all url_byte ?a" using True dialable_bytes [OF assms] by (simp_all add: JoinHostPort_def)
  have "split_last (CHR '']'') ?a = Some (''['' @ host, CHR '']'' # '':'' @ port)" using m by (simp add: split_last_Some)
  moreover have "index_of ''%25'' (''['' @ host) = None"
    using m(6) url_byte_facts(2) by (intro index_of_absent) (auto simp: list_all_iff)
  ultimately show ?thesis using m unescape_host [OF a(2)] unfolding a(1) by (simp add: parseHost_def validOptionalPort_def)
next
  case False
  note m = dialable_marks [OF assms]
  let ?a = "host @ '':'' @ port"
  have a: "JoinHostPort host port = ?a" "list_all url_byte ?a" using False dialable_bytes [OF assms] by (simp_all add: JoinHostPort_def)
  have "split_last (CHR '':'') ?a = Some (host, CHR '':'' # port)" using m by (simp add: split_last_Some)
  moreover have "\<not> has_prefix ''['' ?a" using m by (cases host) auto
  ultimately show ?thesis using m unescape_host [OF a(2)] unfolding a(1) by (simp add: parseHost_def validOptionalPort_def)
qed

lemma probe_URL_text:
  assumes "list_all url_byte addr" "addr \<noteq> []" "scheme \<noteq> []"
  shows "probe_URL scheme addr = scheme @ ''://'' @ addr @ ''/healthz''"
proof -
  have "escape ''/healthz'' encodePath = ''/healthz''" by code_simp
  then show ?thesis using assms by (simp add: probe_URL_def url_String_def EscapedPath_def empty_URL_def Let_def escape_host)
qed

lemma scheme_http:
  "getScheme (''http://'' @ r) = Some (''http'', ''//'' @ r)" "getScheme (''https://'' @ r) = Some (''https'', ''//'' @ r)"
  by (simp_all add: getScheme_def is_alpha_def is_digit_def code_def)

lemma parse_probe_rest:
  assumes "dialable host port" "u_Scheme u \<noteq> []"
  shows "parse_rest (''//'' @ JoinHostPort host port @ ''/healthz'') u =
    Some (u\<lparr>u_User := None, u_Host := JoinHostPort host port, u_Path := ''/healthz'', u_RawPath := []\<rparr>)"
proof -
  let ?a = "JoinHostPort host port"
  have no: "CHR ''/'' \<notin> set ?a" "CHR ''@'' \<notin> set ?a" using dialable_bytes [OF assms(1)] url_byte_facts(5,6) by (auto simp: list_all_iff)
  have path: "unescape ''/healthz'' encodePath = Some ''/healthz''" "escape ''/healthz'' encodePath = ''/healthz''" by code_simp+
  have auth: "parseAuthority ?a = Some (None, ?a)"
    using no(2) by (simp add: parseAuthority_def split_last_def parseHost_dialable [OF assms(1)])
  have "takeWhile (\<lambda>c. c \<noteq> CHR ''/'') (?a @ ''/healthz'') = ?a" "dropWhile (\<lambda>c. c \<noteq> CHR ''/'') (?a @ ''/healthz'') = ''/healthz''"
    using while_other [OF no(1), of "''healthz''"] by simp_all
  with auth assms(2) path show ?thesis by (simp add: parse_rest_def setPath_def)
qed

lemma Parse_probe:
  assumes "dialable host port" "scheme = ''http'' \<or> scheme = ''https''"
  shows "Parse (probe_URL scheme (JoinHostPort host port)) =
    Some (empty_URL\<lparr>u_Scheme := scheme, u_Host := JoinHostPort host port, u_Path := ''/healthz''\<rparr>)"
proof -
  let ?a = "JoinHostPort host port" and ?raw = "scheme @ ''://'' @ JoinHostPort host port @ ''/healthz''"
  note b = dialable_bytes [OF assms(1)]
  have ne: "?a \<noteq> []" "scheme \<noteq> []" using assms(2) by (auto simp: JoinHostPort_def)
  define P where "P = (\<lambda>c. url_byte c \<or> c = CHR ''/'')"
  have lits: "list_all P ''http''" "list_all P ''https''" "list_all P ''://''" "list_all P ''//''" "list_all P ''/healthz''"
    "\<not> P (CHR ''#'')" "\<not> P (CHR ''?'')" unfolding P_def by code_simp+
  have "list_all P ?a" using b by (rule list.pred_mono_strong) (simp add: P_def)
  with lits assms(2) have raw: "list_all P ?raw" "list_all P (''//'' @ ?a @ ''/healthz'')"
    by (elim disjE; simp only: list_all_append simp_thms)+
  then have rawb: "P c" if "c \<in> set ?raw" for c using that unfolding list_all_iff by blast
  have no: "CHR ''#'' \<notin> set ?raw" "CHR ''?'' \<notin> set (''//'' @ ?a @ ''/healthz'')"
    using raw lits(6,7) unfolding list_all_iff by blast+
  have "33 \<le> code c \<and> code c \<le> 126" if "c \<in> set ?raw" for c
    using rawb [OF that] url_byte_facts(7,8) [of c] by (auto simp: P_def code_def [of "CHR ''/''"])
  then have "\<not> has_ctl ?raw" unfolding has_ctl_def by force
  moreover have "?raw \<noteq> ''*''" using assms(2) by auto
  moreover have "getScheme ?raw = Some (scheme, ''//'' @ ?a @ ''/healthz'')" using assms(2) scheme_http by fastforce
  moreover have "cut_query (''//'' @ ?a @ ''/healthz'') = (''//'' @ ?a @ ''/healthz'', [], False)"
    using cut_absent [OF no(2)] by (simp add: cut_query_def has_suffix_def)
  moreover have "map lower_byte scheme = scheme" using assms(2) by (auto simp: lower_byte_def code_def)
  moreover have "parse_rest (''//'' @ ?a @ ''/healthz'') (empty_URL\<lparr>u_Scheme := scheme, u_RawQuery := [], u_ForceQuery := False\<rparr>) =
      Some (empty_URL\<lparr>u_Scheme := scheme, u_Host := ?a, u_Path := ''/healthz''\<rparr>)"
    using parse_probe_rest [OF assms(1), of "empty_URL\<lparr>u_Scheme := scheme, u_RawQuery := [], u_ForceQuery := False\<rparr>"] ne(2)
    by (simp add: empty_URL_def)
  ultimately have "url_parse ?raw = Some (empty_URL\<lparr>u_Scheme := scheme, u_Host := ?a, u_Path := ''/healthz''\<rparr>)"
    by (simp add: url_parse_def)
  then show ?thesis using cut_absent [OF no(1)] by (simp add: probe_URL_text [OF b ne] Parse_def)
qed

lemma removeEmptyPort_dialable:
  assumes "dialable host port" shows "removeEmptyPort (JoinHostPort host port) = JoinHostPort host port"
proof -
  note m = dialable_marks [OF assms]
  have "\<exists>f. JoinHostPort host port = f @ '':'' @ port" by (auto simp: JoinHostPort_def)
  then obtain f where f: "JoinHostPort host port = f @ CHR '':'' # port" by auto
  have "last port \<noteq> CHR '':''" using m(3,9) last_in_set by metis
  then have "trim_suffix '':'' (f @ CHR '':'' # port) = f @ CHR '':'' # port"
    using m(9) by (cases port rule: rev_cases) (auto simp: trim_suffix_def has_suffix_def)
  moreover have "split_last (CHR '':'') (f @ CHR '':'' # port) = Some (f, CHR '':'' # port)" using m(3) by (simp add: split_last_Some)
  ultimately show ?thesis by (simp add: removeEmptyPort_def f)
qed

text \<open>A listener can be given its port by a service name, but the probe of such a listener never gets as far as a
  connection: the URL of its request has no valid port.\<close>

lemma named_port_refused:
  assumes "hc_listen config = '':http''" "hc_keyPath config = []" "0 < hc_timeout config"
  shows "runHealthcheckWithConfig os lib hostname_error client config =
    Some (ErrWrap ''build healthcheck request: '' (ErrMsg (url_error lib ''http://127.0.0.1:http/healthz'')) [])"
proof -
  have "healthcheckDialAddress '':http'' = Inr ''127.0.0.1:http''" "probe_URL ''http'' ''127.0.0.1:http'' = ''http://127.0.0.1:http/healthz''"
    "Parse ''http://127.0.0.1:http/healthz'' = None" by code_simp+
  with assms show ?thesis by (simp add: runHealthcheckWithConfig_def loadTLSConfig_def probe_tls_def NewRequest_def)
qed

section \<open>The probe of a running server\<close>

text \<open>What the server reads from the wire: the request line carries the path and query only.\<close>

definition request_uri :: "URL \<Rightarrow> bytes" where
  "request_uri u =
     (if EscapedPath u = [] then ''/'' else EscapedPath u) @
     (if u_ForceQuery u \<or> u_RawQuery u \<noteq> [] then CHR ''?'' # u_RawQuery u else [])"

definition server_side :: "Request \<Rightarrow> Request" where
  "server_side r = r\<lparr>q_URL := url_parse (request_uri (req_URL r)), q_RequestURI := request_uri (req_URL r)\<rparr>"

text \<open>The answer of the handler's health route, in whatever state the handler is.\<close>

lemma healthz_answer:
  assumes "q_Method r = ''GET''" "q_URL r = Some (empty_URL\<lparr>u_Scheme := scheme, u_Host := addr, u_Path := ''/healthz''\<rparr>)"
  shows "ServeHTTP env h w (server_side r) = (h, Reply (Write (''ok'' @ [LF]) w), None)"
proof -
  let ?u = "empty_URL\<lparr>u_Path := ''/healthz''\<rparr>"
  have path: "escape ''/healthz'' encodePath = ''/healthz''" "path_Clean ''/healthz'' = ''/healthz''"
    "url_parse ''/healthz'' = Some ?u" "before (CHR ''?'') ''/healthz'' = ''/healthz''" by code_simp+
  have uri: "request_uri (req_URL r) = ''/healthz''"
    using assms(2) path(1) by (simp add: request_uri_def req_URL_def EscapedPath_def empty_URL_def)
  have "q_URL (server_side r) = Some ?u" "q_RequestURI (server_side r) = ''/healthz''" "q_Method (server_side r) = ''GET''"
    using assms(1) by (simp_all add: server_side_def uri path(3))
  then have "canonical (Some (server_side r)) = Some ''/healthz''"
    using path by (simp add: canonical_def EscapedPath_def empty_URL_def)
  then show ?thesis using \<open>q_Method (server_side r) = ''GET''\<close> by (simp add: ServeHTTP_def serve_route_def)
qed

lemma new_writer_ok: "final_status (Write s new_writer) = 200" "final_status new_writer = 200"
  by (simp_all add: final_status_def Write_def WriteHeader_def new_writer_def)

lemma run_setup_result:
  assumes "run_setup os lib ks native client now = Inr (srv, svc)"
  obtains tls where "loadTLSConfig os (o_getenv os ''TLS_CERT_PATH'') (o_getenv os ''TLS_KEY_PATH'') = Inr tls"
    "srv_TLSConfig srv = map_option fst tls" "srv_Addr srv = listen_address os"
    "NewService ks native (attestationConfigFromEnv os (case tls of None \<Rightarrow> [] | Some (_, fp) \<Rightarrow> fp))
       (dstack_of lib client (NewDstackClient (o_getenv os ''DSTACK_ENDPOINT'') (o_getenv os ''DSTACK_SIMULATOR_ENDPOINT''))) = Inr svc"
    "New \<lparr>Token = o_getenv os ''TOKEN'', Upstream = o_getenv os ''UPSTREAM'', RequestTimeout = 2 * 3600 * 10 ^ 9\<rparr> True now =
       Inr (srv_Handler srv)"
proof -
  from assms obtain tls where t: "loadTLSConfig os (o_getenv os ''TLS_CERT_PATH'') (o_getenv os ''TLS_KEY_PATH'') = Inr tls"
    by (auto simp: run_setup_def split: sum.splits)
  with assms show thesis by (auto simp: run_setup_def Let_def intro!: that [OF t] split: sum.splits)
qed

text \<open>What the client's configuration accepts: the listener's own certificate, by name, by root and byte by byte.\<close>

definition trusts_only :: "client_tls \<Rightarrow> x509_certificate \<Rightarrow> bool" where
  "trusts_only ct leaf \<longleftrightarrow>
     ct_MinVersion ct = VersionTLS12 \<and> VerifyHostname leaf (ct_ServerName ct) \<and> leaf \<in> set (ct_RootCAs ct) \<and>
     (\<forall>peers. ct_VerifyConnection ct peers = None \<longleftrightarrow> (\<exists>p ps. peers = p # ps \<and> cert_Raw p = cert_Raw leaf))"

text \<open>C39: for a server that the same environment has started, with a listen address whose host can be written
  into a URL and whose port is numeric, and with TLS only if the listener's certificate has well-formed
  names and its chain parses, the health check makes one request of its HTTP client, whatever client that
  is, and its result is that of the request: success for a 2xx status, an error with the cause for
  anything else. The request goes to the listen address (a wildcard host replaced by the loopback of its
  family), over https exactly if the listener has TLS, and then trusting just the listener's certificate;
  and it is one that the server's handler, in any state, answers with 200 and nothing else.\<close>

theorem healthcheck_asks_listener:
  assumes "run_setup os lib ks native client now = Inr (srv, svc)"
    and "SplitHostPort (listen_address os) = Some (host, port)" and "dialable (loopback_host host) port"
    and "\<And>cfg. srv_TLSConfig srv = Some cfg \<Longrightarrow> \<exists>leaf. listener_leaf cfg = Some leaf \<and> san_ok leaf \<and>
      (\<forall>raw \<in> set (listener_chain cfg). \<exists>c. o_ParseCertificate os raw = Inr c)"
  shows "\<exists>ct req.
    q_Method req = ''GET'' \<and> q_URL req = Some (empty_URL\<lparr>u_Scheme := (if srv_TLSConfig srv = None then ''http'' else ''https''),
      u_Host := JoinHostPort (loopback_host host) port, u_Path := ''/healthz''\<rparr>) \<and>
    (case srv_TLSConfig srv of
       None \<Rightarrow> ct = None
     | Some cfg \<Rightarrow> \<exists>c leaf. ct = Some c \<and> listener_leaf cfg = Some leaf \<and> trusts_only c leaf) \<and>
    (\<forall>env h w. ServeHTTP env h w (server_side req) = (h, Reply (Write (''ok'' @ [LF]) w), None)) \<and>
    (\<forall>prober. runHealthcheck os lib hostname_error prober =
       (case prober (JoinHostPort (loopback_host host) port) ct req of
          Inl err \<Rightarrow> Some (ErrWrap ''healthcheck request: '' err [])
        | Inr status \<Rightarrow> if status \<in> {200..<300} then None
            else Some (ErrMsg (''healthcheck /healthz returned HTTP '' @ show_int status))))"
proof -
  from assms(1) obtain tls where load: "loadTLSConfig os (o_getenv os ''TLS_CERT_PATH'') (o_getenv os ''TLS_KEY_PATH'') = Inr tls"
    and srv: "srv_TLSConfig srv = map_option fst tls" "srv_Addr srv = listen_address os" by (rule run_setup_result)
  let ?a = "JoinHostPort (loopback_host host) port"
  have dial: "healthcheckDialAddress (listen_address os) = Inr ?a"
    using assms(2) dialable_marks(9) [OF assms(3)] by (simp add: healthcheckDialAddress_def)
  let ?req = "\<lambda>scheme. \<lparr>q_Method = ''GET'', q_URL = Some (empty_URL\<lparr>u_Scheme := scheme, u_Host := ?a, u_Path := ''/healthz''\<rparr>),
    q_RequestURI = [], q_Host = ?a, q_Header = Map.empty, q_Body = []\<rparr>"
  have req: "NewRequest lib ''GET'' (probe_URL scheme ?a) [] = Inr (?req scheme)" if "scheme = ''http'' \<or> scheme = ''https''" for scheme
    using Parse_probe [OF assms(3) that] removeEmptyPort_dialable [OF assms(3)] by (simp add: NewRequest_def)
  have ans: "ServeHTTP env h w (server_side (?req scheme)) = (h, Reply (Write (''ok'' @ [LF]) w), None)" for scheme env h w
    by (rule healthz_answer) simp_all
  have "\<exists>scheme ct. probe_tls os hostname_error tls = Inr (scheme, ct) \<and>
      scheme = (if srv_TLSConfig srv = None then ''http'' else ''https'') \<and>
      (case srv_TLSConfig srv of
         None \<Rightarrow> ct = None
       | Some cfg \<Rightarrow> \<exists>c leaf. ct = Some c \<and> listener_leaf cfg = Some leaf \<and> trusts_only c leaf)"
  proof (cases tls)
    case None
    then show ?thesis by (simp add: probe_tls_def srv(1))
  next
    case (Some t)
    obtain cfg fp where t: "t = (cfg, fp)" by (cases t)
    with Some srv(1) assms(4) [of cfg] obtain leaf where leaf: "listener_leaf cfg = Some leaf" "san_ok leaf"
      "\<forall>raw \<in> set (listener_chain cfg). \<exists>c. o_ParseCertificate os raw = Inr c" by auto
    from client_tls_ok [OF load [unfolded Some t] leaf, of hostname_error] obtain c where
      c: "healthcheckTLSConfig os hostname_error cfg = Inr c" "trusts_only c leaf" unfolding trusts_only_def by blast
    then show ?thesis using Some t leaf(1) by (simp add: probe_tls_def srv(1))
  qed
  then obtain scheme ct where p: "probe_tls os hostname_error tls = Inr (scheme, ct)"
    and scheme: "scheme = (if srv_TLSConfig srv = None then ''http'' else ''https'')"
    and ct: "case srv_TLSConfig srv of None \<Rightarrow> ct = None
       | Some cfg \<Rightarrow> \<exists>c leaf. ct = Some c \<and> listener_leaf cfg = Some leaf \<and> trusts_only c leaf" by blast
  then have "scheme = ''http'' \<or> scheme = ''https''" by simp
  note req = req [OF this]
  have run: "runHealthcheck os lib hostname_error prober =
       (case prober ?a ct (?req scheme) of
          Inl err \<Rightarrow> Some (ErrWrap ''healthcheck request: '' err [])
        | Inr status \<Rightarrow> if status \<in> {200..<300} then None
            else Some (ErrMsg (''healthcheck /healthz returned HTTP '' @ show_int status)))" for prober
    unfolding runHealthcheck_def runHealthcheckWithConfig_def healthcheckConfigFromEnv_def
    by (simp only: healthcheckConfig.select_convs dial load p req sum.case prod.case)
      (auto simp: defaultHealthcheckTimeout_def split: sum.splits)
  show ?thesis by (rule exI [of _ ct], rule exI [of _ "?req scheme"], intro conjI allI) (rule ct ans run | simp add: scheme)+
qed

definition sample_vars :: "(bytes \<times> bytes) list" where
  "sample_vars = [(''TOKEN'', ''key''), (''UPSTREAM'', ''http://engine:8000/''), (''LISTEN'', '':8443''),
     (''TLS_CERT_PATH'', ''cert''), (''TLS_KEY_PATH'', ''key'')]"

lemma sample_vars_values:
  "o_getenv (sample_machine sample_vars) ''TOKEN'' = ''key''" "o_getenv (sample_machine sample_vars) ''UPSTREAM'' = ''http://engine:8000/''"
  "o_getenv (sample_machine sample_vars) ''TLS_CERT_PATH'' = ''cert''" "o_getenv (sample_machine sample_vars) ''TLS_KEY_PATH'' = ''key''"
  "listen_address (sample_machine sample_vars) = '':8443''"
  by (simp_all add: sample_machine_def sample_vars_def listen_address_def)

text \<open>A server that starts with TLS.\<close>

lemma sample_started:
  "\<exists>srv svc. run_setup (sample_machine sample_vars) lib sample_keys native client 0 = Inr (srv, svc) \<and>
     srv_TLSConfig srv = Some \<lparr>tls_MinVersion = VersionTLS12, tls_Certificates = [\<lparr>tls_chain = [''der''], tls_Leaf = Some sample_leaf\<rparr>]\<rparr>"
proof -
  have "(case New \<lparr>Token = ''key'', Upstream = ''http://engine:8000/'', RequestTimeout = 2 * 3600 * 10 ^ 9\<rparr> True 0 of
    Inl _ \<Rightarrow> False | Inr _ \<Rightarrow> True)" by code_simp
  then obtain h where h: "New \<lparr>Token = ''key'', Upstream = ''http://engine:8000/'', RequestTimeout = 2 * 3600 * 10 ^ 9\<rparr> True 0 = Inr h"
    by (auto split: sum.splits)
  have "\<exists>svc. NewService sample_keys native (attestationConfigFromEnv (sample_machine sample_vars) (Sum256 spki)) ds = Inr svc" for ds spki
    by (simp add: NewService_def attestationConfigFromEnv_def NewSigners_def newECDSAContext_def newEd25519Context_def
        sample_keys_def Let_def)
  then obtain svc where "NewService sample_keys native (attestationConfigFromEnv (sample_machine sample_vars) (Sum256 ''spki''))
    (dstack_of lib client (NewDstackClient (o_getenv (sample_machine sample_vars) ''DSTACK_ENDPOINT'')
      (o_getenv (sample_machine sample_vars) ''DSTACK_SIMULATOR_ENDPOINT''))) = Inr svc" by blast
  with h show ?thesis by (simp add: run_setup_def sample_vars_values sample_machine_tls)
qed

theorem healthcheck_asks_listener_witness:
  "\<exists>srv svc c req. run_setup (sample_machine sample_vars) sample_library sample_keys unavailable_Collect (\<lambda>_ _. Inl (ErrMsg [])) 0 = Inr (srv, svc) \<and>
     trusts_only c sample_leaf \<and>
     runHealthcheck (sample_machine sample_vars) sample_library ErrMsg
       (\<lambda>addr ct r. if addr = ''127.0.0.1:8443'' \<and> ct = Some c \<and> r = req then Inr 200 else Inl (ErrMsg ''refused'')) = None"
proof -
  let ?os = "sample_machine sample_vars"
  from sample_started [of sample_library unavailable_Collect "\<lambda>_ _. Inl (ErrMsg [])"] obtain srv svc where
    s: "run_setup ?os sample_library sample_keys unavailable_Collect (\<lambda>_ _. Inl (ErrMsg [])) 0 = Inr (srv, svc)"
    and tls: "srv_TLSConfig srv = Some \<lparr>tls_MinVersion = VersionTLS12, tls_Certificates = [\<lparr>tls_chain = [''der''], tls_Leaf = Some sample_leaf\<rparr>]\<rparr>"
    by blast
  have a: "SplitHostPort (listen_address ?os) = Some ([], ''8443'')" "dialable (loopback_host []) ''8443''"
    "JoinHostPort (loopback_host []) ''8443'' = ''127.0.0.1:8443''"
    unfolding sample_vars_values by code_simp+
  have leaf: "\<exists>leaf. listener_leaf cfg = Some leaf \<and> san_ok leaf \<and> (\<forall>raw \<in> set (listener_chain cfg). \<exists>c. o_ParseCertificate ?os raw = Inr c)"
    if "srv_TLSConfig srv = Some cfg" for cfg
    using that tls sample_leaf_ok by (auto simp: listener_leaf_def listener_chain_def sample_machine_def)
  from healthcheck_asks_listener [OF s a(1,2) leaf, of ErrMsg] obtain ct req where
    p: "case srv_TLSConfig srv of None \<Rightarrow> ct = None
      | Some cfg \<Rightarrow> \<exists>c leaf. ct = Some c \<and> listener_leaf cfg = Some leaf \<and> trusts_only c leaf"
    "\<And>prober. runHealthcheck ?os sample_library ErrMsg prober =
       (case prober (JoinHostPort (loopback_host []) ''8443'') ct req of
          Inl err \<Rightarrow> Some (ErrWrap ''healthcheck request: '' err [])
        | Inr status \<Rightarrow> if status \<in> {200..<300} then None
            else Some (ErrMsg (''healthcheck /healthz returned HTTP '' @ show_int status)))" by blast
  from p(1) obtain c where c: "ct = Some c" "trusts_only c sample_leaf" by (auto simp: tls listener_leaf_def)
  have "runHealthcheck ?os sample_library ErrMsg
      (\<lambda>addr ct r. if addr = ''127.0.0.1:8443'' \<and> ct = Some c \<and> r = req then Inr 200 else Inl (ErrMsg ''refused'')) = None"
    unfolding p(2) a(3) c(1) by simp
  with s c(2) show ?thesis by blast
qed

end
