(* ===== verification/Tail_Main_Props.thy ===== *)
theory Tail_Main_Props
  imports Probe_Props Dstack_Props
begin

text \<open>
  The composition of the parts: the attestation route of the handler over the attestation service, and
  what the reports of a started server say about its listener.
\<close>

section \<open>The interface of the reporter\<close>

lemma writeJSON_new:
  "\<not> (100 \<le> status \<and> status < 200) \<Longrightarrow> final_status (writeJSON status v new_writer) = status"
  "w_body (writeJSON status v new_writer) = Encode v"
  by (auto simp: writeJSON_def final_status_def WriteHeader_def Write_def Let_def)

text \<open>What the handler relies on in its \<open>Reporter\<close>: a request the client got wrong is refused with an HTTP
  error of status 400.\<close>

locale reporter =
  fixes generate :: "ReportRequest \<Rightarrow> go_error + (bytes \<times> any) list" and bad :: "ReportRequest \<Rightarrow> bool"
  assumes bad_refused: "bad req \<Longrightarrow> \<exists>m. generate req = Inl (HTTPError 400 m)"
begin

lemma bad_status:
  assumes "e_generate env = generate" "report_request (req_URL r) = Inr req" "bad req" "h_report h" "q_Method r = ''GET''"
  shows "final_status (attestation env h r new_writer) = 400"
proof -
  from bad_refused [OF assms(3)] obtain m where "generate req = Inl (HTTPError 400 m)" by blast
  then show ?thesis using assms(1,2,4,5) by (simp add: attestation_def writeJSON_new)
qed

end

interpretation service: reporter "Generate wd s" "bad_request wd s" for wd s
  by unfold_locales (rule Generate_bad)

section \<open>The attestation route\<close>

lemma serve_attestation:
  assumes "plain_request r u" "u_Path u = ''/v1/attestation/report''" "Values (q_Header r) ''Authorization'' = [h_authorization h]"
  shows "ServeHTTP env h w r = (h, Reply (attestation env h r w), None)"
proof -
  have "escape ''/v1/attestation/report'' encodePath = ''/v1/attestation/report''"
    "path_Clean ''/v1/attestation/report'' = ''/v1/attestation/report''" by code_simp+
  then have "canonical (Some r) = Some ''/v1/attestation/report''"
    using assms(1,2) unfolding canonical_Some by (auto simp: EscapedPath_def plain_request_def intro!: exI [of _ u])
  then show ?thesis using assms(3) by (simp add: ServeHTTP_def serve_route_def route_defs authorized_iff)
qed

lemma New_fields: "New cfg rep now = Inr h \<Longrightarrow> h_authorization h = ''Bearer '' @ Token cfg \<and> h_report h = rep"
  by (auto simp: New_def split: option.splits if_splits)

text \<open>C35: the attestation route of a started server answers an authorized request with the report of the
  service as JSON and status 200; a request the client got wrong, which includes a version that is not
  a number, gets status 400, and a report that fails for any other reason status 500. The handler's
  state does not change and nothing is forwarded.\<close>

theorem attestation_route:
  assumes "run_setup os lib ks native client now = Inr (srv, svc)" and "key_source_ok ks"
    and "outside_plain wd svc" and "\<And>n. w_random32 wd = Inr n \<Longrightarrow> length n = 32"
    and "fixed_part h = fixed_part (srv_Handler srv)" and "e_generate env = Generate wd svc"
    and "plain_request r u" and "u_Path u = ''/v1/attestation/report''" and "q_Method r = ''GET''"
    and "Values (q_Header r) ''Authorization'' = [''Bearer '' @ o_getenv os ''TOKEN'']"
  shows "\<exists>w. ServeHTTP env h new_writer r = (h, Reply w, None) \<and>
    (case report_request u of
       Inl raw \<Rightarrow> final_status w = 400
     | Inr req \<Rightarrow>
         if bad_request wd svc req then final_status w = 400
         else (case Generate wd svc req of
           Inr resp \<Rightarrow> final_status w = 200 \<and> w_body w = Encode (AObj resp)
         | Inl e \<Rightarrow> final_status w = 500))"
proof -
  from assms(1) obtain tls where "loadTLSConfig os (o_getenv os ''TLS_CERT_PATH'') (o_getenv os ''TLS_KEY_PATH'') = Inr tls"
    "srv_TLSConfig srv = map_option fst tls" "srv_Addr srv = listen_address os"
    and svc: "NewService ks native (attestationConfigFromEnv os (case tls of None \<Rightarrow> [] | Some (_, fp) \<Rightarrow> fp))
       (dstack_of lib client (NewDstackClient (o_getenv os ''DSTACK_ENDPOINT'') (o_getenv os ''DSTACK_SIMULATOR_ENDPOINT''))) = Inr svc"
    and new: "New \<lparr>Token = o_getenv os ''TOKEN'', Upstream = o_getenv os ''UPSTREAM'', RequestTimeout = 2 * 3600 * 10 ^ 9\<rparr> True now =
       Inr (srv_Handler srv)" by (rule run_setup_result)
  have "h_authorization (srv_Handler srv) = ''Bearer '' @ o_getenv os ''TOKEN''" "h_report (srv_Handler srv)"
    using New_fields [OF new] by simp_all
  then have h: "h_authorization h = ''Bearer '' @ o_getenv os ''TOKEN''" "h_report h" using assms(5) by (auto simp: fixed_part_def)
  have u: "req_URL r = u" using assms(7) by (simp add: plain_request_def req_URL_def)
  have serve: "ServeHTTP env h new_writer r = (h, Reply (attestation env h r new_writer), None)"
    by (rule serve_attestation [OF assms(7,8)]) (simp add: assms(10) h(1))
  have good: "case Generate wd svc req of Inr resp \<Rightarrow> final_status (attestation env h r new_writer) = 200 \<and>
      w_body (attestation env h r new_writer) = Encode (AObj resp) | Inl e \<Rightarrow> final_status (attestation env h r new_writer) = 500"
    if "report_request u = Inr req" "\<not> bad_request wd svc req" for req
    using Generate_refusal [OF svc assms(2,3,4), of req] that assms(6,9) h(2) u
    by (auto simp: attestation_def writeJSON_new split: sum.splits)
  have "case report_request u of Inl raw \<Rightarrow> final_status (attestation env h r new_writer) = 400
     | Inr req \<Rightarrow> if bad_request wd svc req then final_status (attestation env h r new_writer) = 400 else
       (case Generate wd svc req of Inr resp \<Rightarrow> final_status (attestation env h r new_writer) = 200 \<and>
          w_body (attestation env h r new_writer) = Encode (AObj resp) | Inl e \<Rightarrow> final_status (attestation env h r new_writer) = 500)"
  proof (cases "report_request u")
    case (Inl raw)
    then show ?thesis using assms(9) h(2) u by (simp add: attestation_def writeJSON_new)
  next
    case (Inr req)
    then show ?thesis using good [OF Inr] service.bad_status [OF assms(6), of r req h] h(2) u assms(9) by simp
  qed
  with serve show ?thesis by blast
qed

text \<open>A started server with an agent and a collector that answer.\<close>

definition sample_answer :: http_client where
  "sample_answer = (\<lambda>_ _. Inr (200, ''{}'', None))"

definition sample_native :: "bytes \<Rightarrow> bytes \<Rightarrow> go_error + bytes" where
  "sample_native = (\<lambda>_ _. Inr sample_payload)"

lemma sample_started_reports:
  assumes "run_setup (sample_machine sample_vars) sample_library sample_keys sample_native sample_answer 0 = Inr (srv, svc)"
  shows "\<exists>resp. Generate sample_world svc (sample_report_request ''ed25519'') = Inr resp" "outside_plain sample_world svc"
proof -
  let ?os = "sample_machine sample_vars"
  let ?ds = "dstack_of sample_library sample_answer (NewDstackClient [] [])"
  let ?cfg = "attestationConfigFromEnv ?os (Sum256 ''spki'')"
  from assms obtain tls where tls: "loadTLSConfig ?os (o_getenv ?os ''TLS_CERT_PATH'') (o_getenv ?os ''TLS_KEY_PATH'') = Inr tls"
    "srv_TLSConfig srv = map_option fst tls" "srv_Addr srv = listen_address ?os"
    and svc: "NewService sample_keys sample_native (attestationConfigFromEnv ?os (case tls of None \<Rightarrow> [] | Some (_, fp) \<Rightarrow> fp))
       (dstack_of sample_library sample_answer
         (NewDstackClient (o_getenv ?os ''DSTACK_ENDPOINT'') (o_getenv ?os ''DSTACK_SIMULATOR_ENDPOINT''))) = Inr svc"
    and "New \<lparr>Token = o_getenv ?os ''TOKEN'', Upstream = o_getenv ?os ''UPSTREAM'', RequestTimeout = 2 * 3600 * 10 ^ 9\<rparr> True 0 =
       Inr (srv_Handler srv)" by (rule run_setup_result)
  have "o_getenv ?os ''DSTACK_ENDPOINT'' = []" "o_getenv ?os ''DSTACK_SIMULATOR_ENDPOINT'' = []"
    by (simp_all add: sample_machine_def sample_vars_def)
  with svc tls(1) have s: "NewService sample_keys sample_native ?cfg ?ds = Inr svc"
    by (auto simp: sample_vars_values sample_machine_tls)
  note ns = NewService_result [OF s]
  have cfg: "static_payload sample_world svc = Inr []" "GPUArch (sv_cfg svc) = ''HOPPER''"
    using s by (auto simp: NewService_def attestationConfigFromEnv_def static_payload_def Let_def split: if_splits sum.splits)
  have "\<exists>p. nvidiaPayload sample_world svc (hex_encode (replicate 32 (CHR ''r''))) = Inr p"
    using sample_payload_accepted [OF cfg(2)] by (simp add: nvidiaPayload_def cfg ns(2) sample_native_def)
  moreover have "TLSCertSPKISHA256 ?cfg \<noteq> []"
    using length_Sum256 [of "''spki''"] by (auto simp: attestationConfigFromEnv_def simp del: length_Sum256)
  ultimately show "\<exists>resp. Generate sample_world svc (sample_report_request ''ed25519'') = Inr resp"
    using sample_Generate_payload [OF s] sample_agent by (simp add: sample_answer_def)
  have "plain e" if "ds_GetQuote ?ds rd = Inl e \<or> ds_Info ?ds = Inl e" for rd e
    using that agent_plain [of sample_answer] unfolding sample_answer_def by blast
  then show "outside_plain sample_world svc"
    by (auto simp: outside_plain_def ns sample_world_def sample_native_def)
qed

definition sample_attestation_URL :: URL where
  "sample_attestation_URL = empty_URL\<lparr>u_Path := ''/v1/attestation/report'', u_RawQuery := ''version=2&signing_algo=ed25519''\<rparr>"

definition sample_attestation_request :: Request where
  "sample_attestation_request = \<lparr>q_Method = ''GET'', q_URL = Some sample_attestation_URL, q_RequestURI = [], q_Host = ''tail'',
     q_Header = Set Map.empty ''Authorization'' ''Bearer key'', q_Body = []\<rparr>"

theorem attestation_route_witness:
  "\<exists>srv svc resp w. run_setup (sample_machine sample_vars) sample_library sample_keys sample_native sample_answer 0 = Inr (srv, svc) \<and>
     Generate sample_world svc (sample_report_request ''ed25519'') = Inr resp \<and>
     ServeHTTP ((sample_env (RtError False))\<lparr>e_generate := Generate sample_world svc\<rparr>) (srv_Handler srv) new_writer sample_attestation_request =
       (srv_Handler srv, Reply w, None) \<and> final_status w = 200 \<and> w_body w = Encode (AObj resp)"
proof -
  let ?os = "sample_machine sample_vars"
  from sample_started [of sample_library sample_native sample_answer] obtain srv svc where
    s: "run_setup ?os sample_library sample_keys sample_native sample_answer 0 = Inr (srv, svc)" by blast
  from sample_started_reports [OF s] obtain resp where g: "Generate sample_world svc (sample_report_request ''ed25519'') = Inr resp"
    and out: "outside_plain sample_world svc" by blast
  let ?env = "(sample_env (RtError False))\<lparr>e_generate := Generate sample_world svc\<rparr>"
  have plain: "plain_request sample_attestation_request sample_attestation_URL" "u_Path sample_attestation_URL = ''/v1/attestation/report''"
    "q_Method sample_attestation_request = ''GET''" "e_generate ?env = Generate sample_world svc"
    by (simp_all add: plain_request_def sample_attestation_request_def sample_attestation_URL_def empty_URL_def)
  have auth: "Values (q_Header sample_attestation_request) ''Authorization'' = [''Bearer '' @ o_getenv ?os ''TOKEN'']"
    by (simp add: sample_attestation_request_def header.vals_set sample_vars_values)
  have req: "report_request sample_attestation_URL = Inr (sample_report_request ''ed25519'')" by code_simp
  have "\<not> bad_request sample_world svc (sample_report_request ''ed25519'')"
    using g Generate_bad by fastforce
  with attestation_route [OF s sample_keys_ok out sample_random refl plain(4,1,2,3) auth] req g
  have "\<exists>w. ServeHTTP ?env (srv_Handler srv) new_writer sample_attestation_request = (srv_Handler srv, Reply w, None) \<and>
    final_status w = 200 \<and> w_body w = Encode (AObj resp)" by simp
  with s g show ?thesis by blast
qed

section \<open>Reports of a started server\<close>

text \<open>The fingerprint that reports of a started server carry: none in the first version; in the second, that of
  the certificate its listener presents, or that of the file named by the environment if it listens without TLS.\<close>

lemma started_fingerprint:
  assumes "run_setup os lib ks native client now = Inr (srv, svc)" and "cert_fingerprint wd svc 2 = Inr fp"
  obtains f where "fp = Some f"
    "case srv_TLSConfig srv of
       Some cfg \<Rightarrow> \<exists>leaf. listener_leaf cfg = Some leaf \<and> f = Sum256 (cert_RawSubjectPublicKeyInfo leaf)
     | None \<Rightarrow> ResolveSPKIFingerprint (w_certs wd) (o_getenv os ''TLS_CERT_PATH'') = Inr f"
proof -
  from assms(1) obtain tls where tls: "loadTLSConfig os (o_getenv os ''TLS_CERT_PATH'') (o_getenv os ''TLS_KEY_PATH'') = Inr tls"
    "srv_TLSConfig srv = map_option fst tls" "srv_Addr srv = listen_address os"
    and svc: "NewService ks native (attestationConfigFromEnv os (case tls of None \<Rightarrow> [] | Some (_, fp) \<Rightarrow> fp))
       (dstack_of lib client (NewDstackClient (o_getenv os ''DSTACK_ENDPOINT'') (o_getenv os ''DSTACK_SIMULATOR_ENDPOINT''))) = Inr svc"
    and "New \<lparr>Token = o_getenv os ''TOKEN'', Upstream = o_getenv os ''UPSTREAM'', RequestTimeout = 2 * 3600 * 10 ^ 9\<rparr> True now =
       Inr (srv_Handler srv)" by (rule run_setup_result)
  note ns = NewService_result [OF svc]
  have path: "TLSCertPath (sv_cfg svc) = o_getenv os ''TLS_CERT_PATH''"
    using svc by (auto simp: NewService_def attestationConfigFromEnv_def Let_def split: if_splits sum.splits)
  have "\<exists>f. fp = Some f \<and> (case srv_TLSConfig srv of
        Some cfg \<Rightarrow> \<exists>leaf. listener_leaf cfg = Some leaf \<and> f = Sum256 (cert_RawSubjectPublicKeyInfo leaf)
      | None \<Rightarrow> ResolveSPKIFingerprint (w_certs wd) (o_getenv os ''TLS_CERT_PATH'') = Inr f)"
  proof (cases tls)
    case None
    then show ?thesis using assms(2) ns(4) path tls(2)
      by (auto simp: cert_fingerprint_def attestationConfigFromEnv_def split: sum.splits)
  next
    case (Some t)
    obtain cfg f where t: "t = (cfg, f)" by (cases t)
    from tls(1) [unfolded Some t] obtain leaf where leaf: "listener_leaf cfg = Some leaf" "f = Sum256 (cert_RawSubjectPublicKeyInfo leaf)"
      by (rule loadTLSConfig_Some) (simp add: listener_leaf_def)
    then have "f \<noteq> []" using length_Sum256 [of "cert_RawSubjectPublicKeyInfo leaf"] by (auto simp del: length_Sum256)
    then show ?thesis using assms(2) ns(4) leaf tls(2)
      by (auto simp: Some t cert_fingerprint_def attestationConfigFromEnv_def)
  qed
  with that show thesis by blast
qed

lemma started_requires_evidence:
  assumes "run_setup os lib ks native client now = Inr (srv, svc)"
  shows "RequireNVIDIAEvidence (sv_cfg svc)"
proof -
  from assms obtain tls :: "(tls_config \<times> bytes) option" where
    "NewService ks native (attestationConfigFromEnv os (case tls of None \<Rightarrow> [] | Some (_, fp) \<Rightarrow> fp))
       (dstack_of lib client (NewDstackClient (o_getenv os ''DSTACK_ENDPOINT'') (o_getenv os ''DSTACK_SIMULATOR_ENDPOINT''))) = Inr svc"
    by (rule run_setup_result) blast
  from NewService_result(5) [OF this] show ?thesis by (simp add: attestationConfigFromEnv_def)
qed

text \<open>C37: every report of a started server has GPU evidence. A report of version 2 names the fingerprint of the
  certificate its own listener presents, whatever the certificate file has become since; without a
  listener certificate it is the one that the configured file holds when the report is made. Other
  reports name no certificate.\<close>

theorem started_server_attests:
  assumes "run_setup os lib ks native client now = Inr (srv, svc)" and "Generate wd svc req = Inr resp"
  shows "(\<exists>out. text_field resp ''nvidia_payload'' = Some out \<and> has_evidence out) \<and>
    (if rr_Version req = 2
     then \<exists>fp. text_field resp ''tls_cert_fingerprint'' = Some (hex_encode fp) \<and>
       (case srv_TLSConfig srv of
          Some cfg \<Rightarrow> \<exists>leaf. listener_leaf cfg = Some leaf \<and> fp = Sum256 (cert_RawSubjectPublicKeyInfo leaf)
        | None \<Rightarrow> ResolveSPKIFingerprint (w_certs wd) (o_getenv os ''TLS_CERT_PATH'') = Inr fp)
     else map_of resp ''tls_cert_fingerprint'' = None)"
proof -
  have ev: "\<exists>out. text_field resp ''nvidia_payload'' = Some out \<and> has_evidence out"
    by (rule Generate_evidence [OF started_requires_evidence [OF assms(1)] assms(2)])
  from Generate_success [OF assms(2)] obtain version c nonce fp quote info payload att where
    g: "version = (if rr_Version req = 0 then 1 else rr_Version req)" "version = 1 \<or> version = 2" "cert_fingerprint wd svc version = Inr fp"
    "att = attestation_map c (hex_encode nonce) quote payload (normalizeReportInfo info) version fp"
    "resp = map_put ''all_attestations'' (AArr [AObj att]) att" by metis
  have field: "map_of resp ''tls_cert_fingerprint'' = map_option (\<lambda>f. AStr (hex_encode f)) fp" by (simp add: g(4,5) attestation_lookup)
  show ?thesis
  proof (cases "rr_Version req = 2")
    case False
    then have "version < 2" using g(1,2) by (auto split: if_splits)
    then have "fp = None" using g(3) by (simp add: cert_fingerprint_def)
    with False ev field show ?thesis by simp
  next
    case True
    with g(1,3) have "cert_fingerprint wd svc 2 = Inr fp" by simp
    from started_fingerprint [OF assms(1) this] obtain f where f: "fp = Some f"
      "case srv_TLSConfig srv of
         Some cfg \<Rightarrow> \<exists>leaf. listener_leaf cfg = Some leaf \<and> f = Sum256 (cert_RawSubjectPublicKeyInfo leaf)
       | None \<Rightarrow> ResolveSPKIFingerprint (w_certs wd) (o_getenv os ''TLS_CERT_PATH'') = Inr f" .
    from f(1) field have "text_field resp ''tls_cert_fingerprint'' = Some (hex_encode f)" by (simp add: text_field_def)
    with f(2) True ev show ?thesis by auto
  qed
qed

theorem started_server_attests_witness:
  "\<exists>srv svc resp. run_setup (sample_machine sample_vars) sample_library sample_keys sample_native sample_answer 0 = Inr (srv, svc) \<and>
     Generate sample_world svc (sample_report_request ''ed25519'') = Inr resp \<and>
     text_field resp ''tls_cert_fingerprint'' = Some (hex_encode (Sum256 ''spki''))"
proof -
  let ?os = "sample_machine sample_vars"
  from sample_started [of sample_library sample_native sample_answer] obtain srv svc where
    s: "run_setup ?os sample_library sample_keys sample_native sample_answer 0 = Inr (srv, svc)"
    and tls: "srv_TLSConfig srv = Some \<lparr>tls_MinVersion = VersionTLS12, tls_Certificates = [\<lparr>tls_chain = [''der''], tls_Leaf = Some sample_leaf\<rparr>]\<rparr>"
    by blast
  from sample_started_reports(1) [OF s] obtain resp where g: "Generate sample_world svc (sample_report_request ''ed25519'') = Inr resp" by blast
  from started_server_attests [OF s g] tls have "text_field resp ''tls_cert_fingerprint'' = Some (hex_encode (Sum256 ''spki''))"
    by (auto simp: sample_report_request_def listener_leaf_def sample_leaf_def simp del: hex_encode.simps)
  with s g show ?thesis by blast
qed

end
