(* ===== verification/Tail_Run.thy ===== *)
theory Tail_Run
  imports Tail_Main
begin

text \<open>
  The end of \<open>run\<close> in \<open>cmd/phala-tail/main.go\<close>: the goroutine that waits for the context and shuts the
  server down, beside the main goroutine that serves, cancels the context, waits and returns. The
  interleavings of the two with signals, connections and errors of the listener are the steps of a
  relation. Of \<open>http.Server\<close> it uses what is documented: once \<open>Shutdown\<close> is called no connection is
  accepted and serving returns \<open>ErrServerClosed\<close>; \<open>Shutdown\<close> returns when no connection is active or
  with an error when its context expires or the listener cannot be closed; \<open>Close\<close> drops every connection.
\<close>

section \<open>States and steps\<close>

datatype main_pc = Serving | Served serve_end | Waiting serve_end | Returned "go_error option"

datatype stop_pc = AwaitDone | ShuttingDown | ForcingClose | StopDone

record run_state =
  r_main :: main_pc
  r_stopper :: stop_pc
  r_signalled :: bool
  r_cancelled :: bool
  r_shutdown :: bool
  r_active :: nat

definition run_start :: run_state where
  "run_start = \<lparr>r_main = Serving, r_stopper = AwaitDone, r_signalled = False, r_cancelled = False, r_shutdown = False, r_active = 0\<rparr>"

inductive run_step :: "run_state \<Rightarrow> run_state \<Rightarrow> bool" where
  Signal: "\<not> r_signalled s \<Longrightarrow> run_step s (s\<lparr>r_signalled := True, r_cancelled := True\<rparr>)"
| Accept: "\<lbrakk>r_main s = Serving; \<not> r_shutdown s\<rbrakk> \<Longrightarrow> run_step s (s\<lparr>r_active := r_active s + 1\<rparr>)"
| Finish: "0 < r_active s \<Longrightarrow> run_step s (s\<lparr>r_active := r_active s - 1\<rparr>)"
| ServeFails: "\<lbrakk>r_main s = Serving; \<not> r_shutdown s\<rbrakk> \<Longrightarrow> run_step s (s\<lparr>r_main := Served (ServeError err)\<rparr>)"
| ServeCloses: "\<lbrakk>r_main s = Serving; r_shutdown s\<rbrakk> \<Longrightarrow> run_step s (s\<lparr>r_main := Served ErrServerClosed\<rparr>)"
| Cancel: "r_main s = Served e \<Longrightarrow> run_step s (s\<lparr>r_main := Waiting e, r_cancelled := True\<rparr>)"
| Wake: "\<lbrakk>r_stopper s = AwaitDone; r_cancelled s\<rbrakk> \<Longrightarrow> run_step s (s\<lparr>r_stopper := ShuttingDown, r_shutdown := True\<rparr>)"
| ShutdownOk: "\<lbrakk>r_stopper s = ShuttingDown; r_active s = 0\<rbrakk> \<Longrightarrow> run_step s (s\<lparr>r_stopper := StopDone\<rparr>)"
| ShutdownFails: "r_stopper s = ShuttingDown \<Longrightarrow> run_step s (s\<lparr>r_stopper := ForcingClose\<rparr>)"
| ForceClose: "r_stopper s = ForcingClose \<Longrightarrow> run_step s (s\<lparr>r_stopper := StopDone, r_active := 0\<rparr>)"
| Return: "\<lbrakk>r_main s = Waiting e; r_stopper s = StopDone\<rbrakk> \<Longrightarrow> run_step s (s\<lparr>r_main := Returned (serve_result e)\<rparr>)"

inductive_cases run_stepE: "run_step s s'"

section \<open>The invariant\<close>

definition serve_end_of :: "main_pc \<Rightarrow> serve_end option" where
  "serve_end_of pc = (case pc of Served e \<Rightarrow> Some e | Waiting e \<Rightarrow> Some e | _ \<Rightarrow> None)"

definition run_inv :: "run_state \<Rightarrow> bool" where
  "run_inv s \<longleftrightarrow>
     (r_shutdown s \<longleftrightarrow> r_stopper s \<noteq> AwaitDone) \<and>
     (r_shutdown s \<longrightarrow> r_cancelled s) \<and>
     (r_stopper s = StopDone \<longrightarrow> r_active s = 0) \<and>
     (r_main s = Serving \<and> r_cancelled s \<longrightarrow> r_signalled s) \<and>
     (serve_end_of (r_main s) = Some ErrServerClosed \<longrightarrow> r_signalled s) \<and>
     (\<forall>e. r_main s = Waiting e \<longrightarrow> r_cancelled s) \<and>
     (\<forall>r. r_main s = Returned r \<longrightarrow> r_stopper s = StopDone \<and> (r = None \<longrightarrow> r_signalled s))"

lemma run_inv_start: "run_inv run_start"
  by (simp add: run_inv_def run_start_def serve_end_of_def)

lemma run_inv_step: "\<lbrakk>run_step s s'; run_inv s\<rbrakk> \<Longrightarrow> run_inv s'"
  by (induction rule: run_step.induct) (auto simp: run_inv_def serve_end_of_def serve_result_def split: serve_end.splits)

lemma run_inv_reachable: "run_step\<^sup>*\<^sup>* run_start s \<Longrightarrow> run_inv s"
  by (induction rule: rtranclp_induct) (auto simp: run_inv_start intro: run_inv_step)

section \<open>Shutting down ends\<close>

definition main_work :: "main_pc \<Rightarrow> nat" where
  "main_work pc = (case pc of Serving \<Rightarrow> 3 | Served _ \<Rightarrow> 2 | Waiting _ \<Rightarrow> 1 | Returned _ \<Rightarrow> 0)"

definition stop_work :: "stop_pc \<Rightarrow> nat" where
  "stop_work pc = (case pc of AwaitDone \<Rightarrow> 3 | ShuttingDown \<Rightarrow> 2 | ForcingClose \<Rightarrow> 1 | StopDone \<Rightarrow> 0)"

text \<open>The phases of the goroutine are ordered, and no step goes back.\<close>

instantiation stop_pc :: linorder
begin

definition less_eq_stop_pc :: "stop_pc \<Rightarrow> stop_pc \<Rightarrow> bool" where
  "less_eq_stop_pc a b \<longleftrightarrow> stop_work b \<le> stop_work a"

definition less_stop_pc :: "stop_pc \<Rightarrow> stop_pc \<Rightarrow> bool" where
  "less_stop_pc a b \<longleftrightarrow> stop_work b < stop_work a"

instance
  by standard (auto simp: less_eq_stop_pc_def less_stop_pc_def stop_work_def split: stop_pc.splits)

end

lemma stopper_mono: "run_step s s' \<Longrightarrow> r_stopper s \<le> r_stopper s'"
  by (elim run_stepE) (auto simp: less_eq_stop_pc_def stop_work_def)

lemma stopper_mono_steps: "run_step\<^sup>*\<^sup>* s s' \<Longrightarrow> r_stopper s \<le> r_stopper s'"
  by (induction rule: rtranclp_induct) (auto dest: stopper_mono intro: order_trans)

text \<open>The steps that are left once the server is shutting down, at most.\<close>

definition run_work :: "run_state \<Rightarrow> nat" where
  "run_work s = main_work (r_main s) + stop_work (r_stopper s) + r_active s + (if r_signalled s then 0 else 1)"

lemma run_work_step: "\<lbrakk>run_step s s'; r_shutdown s; run_inv s\<rbrakk> \<Longrightarrow> run_work s' < run_work s \<and> r_shutdown s'"
  by (induction rule: run_step.induct) (auto simp: run_work_def main_work_def stop_work_def run_inv_def)

lemma run_progress: "\<lbrakk>run_inv s; r_shutdown s; \<forall>r. r_main s \<noteq> Returned r\<rbrakk> \<Longrightarrow> \<exists>s'. run_step s s'"
proof -
  assume inv: "run_inv s" "r_shutdown s" "\<forall>r. r_main s \<noteq> Returned r"
  consider "r_main s = Serving" | e where "r_main s = Served e" | e where "r_main s = Waiting e" using inv(3) by (cases "r_main s") auto
  then show ?thesis
  proof cases
    case 1 then show ?thesis using inv(2) run_step.ServeCloses by blast
  next
    case 2 then show ?thesis using run_step.Cancel by blast
  next
    case 3
    have "r_stopper s \<noteq> AwaitDone" using inv(1,2) by (simp add: run_inv_def)
    then consider "r_stopper s = ShuttingDown" | "r_stopper s = ForcingClose" | "r_stopper s = StopDone" by (cases "r_stopper s") auto
    then show ?thesis
      using 3 run_step.ShutdownOk run_step.ShutdownFails run_step.ForceClose run_step.Return by cases (blast+)
  qed
qed

lemma run_bound: "\<lbrakk>(run_step ^^ n) s s'; r_shutdown s; run_inv s\<rbrakk> \<Longrightarrow> n + run_work s' \<le> run_work s \<and> r_shutdown s' \<and> run_inv s'"
proof (induction n arbitrary: s')
  case (Suc n)
  then obtain t where t: "(run_step ^^ n) s t" "run_step t s'" by auto
  from Suc.IH [OF t(1) Suc.prems(2,3)] have "n + run_work t \<le> run_work s" "r_shutdown t" "run_inv t" by auto
  with run_work_step [OF t(2)] run_inv_step [OF t(2)] show ?case by auto
qed simp

lemma four_steps: "\<lbrakk>R a b; R b c; R c d; R d e\<rbrakk> \<Longrightarrow> (R ^^ 4) a e"
  by (simp add: numeral_eq_Suc) blast

text \<open>C40: once the server is shutting down, \<open>run\<close> ends: however signals, connections and the two goroutines
  interleave there are at most \<open>run_work\<close> further steps, and the run can stop nowhere but where \<open>run\<close> has
  returned. Then the goroutine has finished, no connection is active, and the result is success only
  if a signal was the reason. Shutting down can begin in every state in which the context is done.\<close>

theorem shutdown_completes:
  assumes "run_step\<^sup>*\<^sup>* run_start s"
  shows "(r_shutdown s \<longrightarrow>
      (\<forall>n s'. (run_step ^^ n) s s' \<longrightarrow> n \<le> run_work s \<and>
        ((\<nexists>s''. run_step s' s'') \<longrightarrow> (\<exists>r. r_main s' = Returned r)) \<and>
        (\<forall>r. r_main s' = Returned r \<longrightarrow> r_stopper s' = StopDone \<and> r_active s' = 0 \<and> (r = None \<longrightarrow> r_signalled s')))) \<and>
    (r_cancelled s \<and> \<not> r_shutdown s \<longrightarrow> (\<exists>s'. run_step s s' \<and> r_shutdown s'))"
proof -
  have inv: "run_inv s" by (rule run_inv_reachable [OF assms])
  have "n \<le> run_work s \<and> ((\<nexists>s''. run_step s' s'') \<longrightarrow> (\<exists>r. r_main s' = Returned r)) \<and>
      (\<forall>r. r_main s' = Returned r \<longrightarrow> r_stopper s' = StopDone \<and> r_active s' = 0 \<and> (r = None \<longrightarrow> r_signalled s'))"
    if "r_shutdown s" "(run_step ^^ n) s s'" for n s'
  proof -
    from run_bound [OF that(2,1) inv] have b: "n \<le> run_work s" "r_shutdown s'" "run_inv s'" by auto
    then show ?thesis using run_progress [of s'] by (auto simp: run_inv_def)
  qed
  moreover have "\<exists>s'. run_step s s' \<and> r_shutdown s'" if "r_cancelled s" "\<not> r_shutdown s"
    using run_step.Wake [of s] that inv by (auto simp: run_inv_def intro!: exI)
  ultimately show ?thesis by blast
qed

theorem shutdown_completes_witness:
  "\<exists>s. run_step\<^sup>*\<^sup>* run_start s \<and> r_main s = Returned None \<and> r_active s = 0 \<and> (\<exists>t n. r_shutdown t \<and> (run_step ^^ n) t s \<and> n \<le> run_work t)"
proof -
  let ?a = "run_start\<lparr>r_signalled := True, r_cancelled := True\<rparr>"
  let ?b = "?a\<lparr>r_stopper := ShuttingDown, r_shutdown := True\<rparr>"
  let ?c = "?b\<lparr>r_main := Served ErrServerClosed\<rparr>"
  let ?d = "?c\<lparr>r_main := Waiting ErrServerClosed, r_cancelled := True\<rparr>"
  let ?e = "?d\<lparr>r_stopper := StopDone\<rparr>"
  let ?f = "?e\<lparr>r_main := Returned (serve_result ErrServerClosed)\<rparr>"
  have ab: "run_step run_start ?a" "run_step ?a ?b"
    by (rule run_step.Signal, simp add: run_start_def) (rule run_step.Wake, simp_all add: run_start_def)
  have bc: "run_step ?b ?c" by (rule run_step.ServeCloses) (simp_all add: run_start_def)
  have cd: "run_step ?c ?d" by (rule run_step.Cancel) simp
  have de: "run_step ?d ?e" by (rule run_step.ShutdownOk) (simp_all add: run_start_def)
  have ef: "run_step ?e ?f" by (rule run_step.Return) simp_all
  have b: "run_step\<^sup>*\<^sup>* run_start ?b" using ab by (meson rtranclp.rtrancl_refl rtranclp.rtrancl_into_rtrancl)
  have n: "(run_step ^^ 4) ?b ?f" by (rule four_steps [where R = run_step, OF bc cd de ef])
  have "4 \<le> run_work ?b" using shutdown_completes [OF b] n by (auto simp: run_start_def)
  moreover have "run_step\<^sup>*\<^sup>* run_start ?f" using b relpowp_imp_rtranclp [OF n] by (rule rtranclp_trans)
  moreover have "r_main ?f = Returned None" "r_active ?f = 0" "r_shutdown ?b" by (simp_all add: serve_result_def run_start_def)
  ultimately show ?thesis using n by blast
qed

end
