(* ===== verification/Spec2Isabelle.thy ===== *)
theory Spec2Isabelle
  imports Usage_Body_Props Duration_Props Content_Type Status_Recorder Openai_Response Tail_Counters Nvidia_Props Collectors
    Dstack_Props Tail_Main_Props Tail_Run
begin

text \<open>
  TAIL, the TEE-attested inference layer (\<open>src/\<close>), is an authenticated proxy in front of one inference
  engine, with an endpoint that attests the machine it runs on. This development models the Go program
  and proves what makes each part correct, and what their composition guarantees.

  The program. \<open>cmd/phala-tail\<close> reads the environment, loads the listener's certificate, makes the
  attestation service and the handler and serves, or, as a second command, probes the listener.
  \<open>internal/app/tail/handler.go\<close> decides which requests pass, forwards them through
  \<open>httputil.ReverseProxy\<close>, and answers the management routes. \<open>internal/infra/http\<close> removes hop-by-hop
  headers and records statuses, \<open>internal/infra/openai\<close> writes error bodies and observes the token usage
  of responses. \<open>internal/runtime/attestation\<close> makes reports from a signing identity, a quote of the
  dstack agent and the evidence of the GPUs.

  Theories and sources.

  \<^item> \<open>Prelude\<close>: int64, byte codes, the collections of rewrite rules. \<open>Go_Io\<close>, \<open>Go_Strings\<close>,
    \<open>Go_Encoding\<close>, \<open>Go_Crypto\<close>, \<open>Go_Pem\<close>, \<open>Go_Http\<close>, \<open>Go_Url\<close>, \<open>Go_Net\<close>, \<open>Go_X509\<close>, \<open>Go_Errors\<close>, \<open>Json\<close>,
    \<open>Json_Struct\<close>, \<open>Json_Encode\<close>, \<open>Float64\<close>, \<open>Reverse_Proxy\<close>: what the program uses of Go's standard
    library, written as functions on bytes. Their laws (round trips of hex, base64, PEM, JSON, host and
    port, IP addresses) are proved here and used below.
  \<^item> \<open>Usage_Decode\<close>, \<open>Observer\<close>, \<open>Usage_Body\<close> model \<open>infra/openai/completion_usage.go\<close>: decoding of usage
    objects, the observer as a record with one function per method, and the body that feeds it.
    \<open>Content_Type\<close> is the choice of content types there. \<open>Observer_Spec\<close> and \<open>Usage_Body_Props\<close> state
    the reference semantics of a whole stream or document and prove that the observer implements it
    however the bytes are cut, that it calls back once, that its memory is bounded, that bodies pass
    unchanged, and when a body's end is noticed. \<open>Usage_Props\<close>: the range of what is decoded, and that
    printed counts are read back. \<open>Duration_Props\<close>: which milliseconds are accepted, how they are
    rounded up to nanoseconds, and the durations that overflow.
  \<^item> \<open>Headers\<close>, \<open>Status_Recorder\<close> (\<open>infra/http\<close>) and \<open>Openai_Response\<close> (\<open>infra/openai/response.go\<close>) with
    their properties. The recorder's wrapped writer is a parameter: its methods, with the optional ones
    it has, on a state of any type. What is to be removed from a header is stated apart from the code's
    list (\<open>hop_name\<close>, \<open>named_by_connection\<close>), and the proxy of the standard library has its own list.
  \<^item> \<open>Tail_Handler\<close> models \<open>handler.go\<close>: construction, canonical paths, authorization, routing,
    forwarding and its counters, the attestation route and the metrics. \<open>Tail_Props\<close>: exactly the
    authorized requests of the allowlist reach the engine, with the configured token as their only
    authorization and without hop-by-hop and forwarding headers, the rest as the client sent it; an
    outsider learns nothing; responses and failures reach the client. \<open>Tail_Counters\<close>: overlapping
    requests as an inductive step relation with one step for each atomic change of a counter, what the
    counters count in every reachable state, and what the metrics print that are loaded one by one.
  \<^item> \<open>Signing\<close> (\<open>signing.go\<close>, \<open>tls.go\<close>), \<open>Dstack\<close> (\<open>dstack.go\<close>), \<open>Nvidia\<close> (\<open>nvidia.go\<close>,
    \<open>nvidia_root_cert.go\<close>), \<open>Nvidia_Nvml\<close> (\<open>nvidia_nvml.go\<close> with its C part, \<open>nvidia_stub.go\<close>) and
    \<open>Report\<close> (\<open>report.go\<close>) model the attestation package. \<open>Nvidia_Props\<close>: the certificate chain, the
    order of the calls to NVML, the payload. \<open>Report_Props\<close>: what the quote covers, which requests are
    refused, that required evidence is there, what normalization makes of a payload. \<open>Collectors\<close>: the
    interface of the collectors and its two implementations. \<open>Dstack_Props\<close>: the agent's calls, each
    operation returning the requests it has made beside its result.
  \<^item> \<open>Tail_Main\<close> models \<open>cmd/phala-tail\<close> (\<open>main.go\<close>, \<open>healthcheck.go\<close>, \<open>tls.go\<close>): the server made from
    the environment and the health check. \<open>Net_Props\<close> and \<open>Healthcheck_Props\<close>: addresses, host names,
    where the probe dials. \<open>Probe_Props\<close>: whom it trusts, and that it asks the server of the same
    environment a request the handler answers with 200. \<open>Tail_Main_Props\<close>: the attestation route over
    the service, and that reports of a started server have evidence and name the certificate its
    listener presents. \<open>Tail_Run\<close>: the two goroutines of \<open>run\<close> as a step relation, and that shutting
    down ends.

  Conventions. Bytes are characters; strings and byte slices are lists of them. A Go map with string
  keys is its list of entries in key order, a header a partial function from canonical names. Structs
  are records, errors values of \<open>go_error\<close>, fallible functions return a sum. \<open>int64\<close> values are \<open>int\<close>
  with the range proved or checked; the handler's counters and NVML's sizes are machine words and wrap.
  Loops are recursive functions with a termination proof; no definition needs fuel except the JSON
  scanner, whose depth limit is Go's own limit of 10000 nested values.

  Parameters, the code outside the repository: the engine's transport and the HTTP clients, the dstack
  agent, NVML and the dynamic loader, key generation and Keccak-256, X.509 parsing and key pair files,
  randomness, files, commands, environment variables and the clock. They are arguments of the
  definitions; what a theorem needs of them is a named hypothesis, and its witness has an instance.
  Texts of library errors and the case mapping of text beyond ASCII are fields of \<open>go_library\<close>.

  Interfaces are locales: \<open>codec\<close> and \<open>partial_codec\<close> (hex, host and port, IP addresses), \<open>block_format\<close>
  (PEM), \<open>header_store\<close>, \<open>chunk_observer\<close>, \<open>byte_source\<close>, \<open>response_writer\<close>, \<open>nvidia_collector\<close>,
  \<open>reporter\<close>; each is interpreted on the model's definitions in the theory that provides them.

  Not modelled: interim responses and trailers of proxied responses, \<open>Handler.Close\<close> (it drops idle
  connections of the transport), log output, the expiry of timeouts (a timeout shows as an error of the
  call, and in \<open>Tail_Run\<close> as a step), the parsing of certificates and the TLS handshake beyond the
  checks the program adds, and the sending of bytes on connections.
\<close>

end
